(* ===== verification/Go_Prelude.thy ===== *)
theory Go_Prelude
  imports Main "HOL-Library.Word"
begin

text \<open>
  Shared vocabulary of the development: Go's basic types, instants and durations, contexts,
  error values with \<open>errors.Is\<close>, and the generic lemmas on lists, options and maps that the
  component theories rely on.

  A Go \<open>string\<close> or \<open>[]byte\<close> is a sequence of bytes, here a \<^typ>\<open>string\<close> (each \<^typ>\<open>char\<close>
  is one byte). A Go \<open>time.Time\<close> is the number of nanoseconds since Go's zero time, so that
  \<open>t.IsZero()\<close> is \<open>t = 0\<close>; a \<open>time.Duration\<close> is a number of nanoseconds. Every reading of
  the clock is an explicit argument of the operation that takes it.
\<close>

named_theorems go_defs \<open>definitions of small accessors that the component proofs unfold\<close>
named_theorems inv_intros \<open>facts that an operation keeps its component's invariant\<close>

type_synonym gotime = int
type_synonym duration = int
type_synonym bytes = string

section \<open>Instants and durations\<close>

definition Millisecond :: duration where
  "Millisecond = 1000000"

definition Second :: duration where
  "Second = 1000000000"

definition Minute :: duration where
  "Minute = 60 * Second"

definition Hour :: duration where
  "Hour = 60 * Minute"

definition IsZero :: "gotime \<Rightarrow> bool" where
  "IsZero t \<longleftrightarrow> t = 0"

definition After :: "gotime \<Rightarrow> gotime \<Rightarrow> bool" where
  "After t u \<longleftrightarrow> u < t"

definition Before :: "gotime \<Rightarrow> gotime \<Rightarrow> bool" where
  "Before t u \<longleftrightarrow> t < u"

lemmas time_defs = IsZero_def After_def Before_def
lemmas duration_defs = Millisecond_def Second_def Minute_def Hour_def

section \<open>Error values\<close>

text \<open>
  The sentinel errors the packages compare with \<open>errors.Is\<close>, the two context errors, errors
  made on the spot (\<open>errors.New\<close>, \<open>fmt.Errorf\<close> without \<open>%w\<close>), and wrapped errors
  (\<open>fmt.Errorf\<close> with \<open>%w\<close>, a type with \<open>Unwrap\<close>).
\<close>

datatype goerror =
    ErrNotFound
  | ErrInvalidKey
  | ErrValueTooLarge
  | ErrPreconditionFailed
  | ErrInvalidVersion
  | ErrStaleVersion
  | ErrOverloaded
  | ErrUnversionedInvalidation
  | ErrNoRows
  | DeadlineExceeded
  | Canceled
  | NewError string
  | Wrap string goerror

fun errors_Is :: "goerror \<Rightarrow> goerror \<Rightarrow> bool" where
  "errors_Is (Wrap m e) target = (Wrap m e = target \<or> errors_Is e target)"
| "errors_Is e target = (e = target)"

lemma errors_Is_refl [simp]: "errors_Is e e"
  by (cases e) auto

section \<open>Contexts\<close>

text \<open>
  A context is either never done or done from a known instant on with a known error; that is
  all a caller can observe of it through \<open>ctx.Err()\<close> and \<open>ctx.Done()\<close>. Once done it stays done.
\<close>

type_synonym gocontext = "(gotime \<times> goerror) option"

definition Background :: gocontext where
  "Background = None"

definition ctx_Err :: "gocontext \<Rightarrow> gotime \<Rightarrow> goerror option" where
  "ctx_Err c t = (case c of None \<Rightarrow> None | Some (d, e) \<Rightarrow> if d \<le> t then Some e else None)"

definition WithTimeout :: "gocontext \<Rightarrow> gotime \<Rightarrow> duration \<Rightarrow> gocontext" where
  "WithTimeout parent now d =
     (case parent of
        None \<Rightarrow> Some (now + d, DeadlineExceeded)
      | Some (p, e) \<Rightarrow> if p \<le> now + d then Some (p, e) else Some (now + d, DeadlineExceeded))"

lemma ctx_Err_Background [simp]: "ctx_Err Background t = None"
  by (simp add: ctx_Err_def Background_def)

lemma ctx_Err_sticky: "ctx_Err c t = Some e \<Longrightarrow> t \<le> u \<Longrightarrow> ctx_Err c u = Some e"
  by (auto simp: ctx_Err_def split: option.splits if_splits)

lemma WithTimeout_alive: "ctx_Err c now = None \<Longrightarrow> 0 < d \<Longrightarrow> ctx_Err (WithTimeout c now d) now = None"
  by (auto simp: WithTimeout_def ctx_Err_def split: option.splits if_splits)

lemma WithTimeout_Err: "now + d \<le> t \<Longrightarrow> ctx_Err (WithTimeout c now d) t \<noteq> None"
  by (auto simp: WithTimeout_def ctx_Err_def split: option.splits)

section \<open>Lists with distinct keys\<close>

text \<open>
  Several structures are a linked list whose elements carry a distinct key. The lemmas below
  describe removing the element with a given key, moving it to the front and summing a size.
\<close>

definition drop_key :: "('a \<Rightarrow> 'k) \<Rightarrow> 'k \<Rightarrow> 'a list \<Rightarrow> 'a list" where
  "drop_key f k xs = filter (\<lambda>x. f x \<noteq> k) xs"

lemma set_drop_key [simp]: "set (drop_key f k xs) = {x \<in> set xs. f x \<noteq> k}"
  by (simp add: drop_key_def)

lemma drop_key_Nil [simp]: "drop_key f k [] = []"
  by (simp add: drop_key_def)

lemma drop_key_Cons [simp]:
  "drop_key f k (x # xs) = (if f x = k then drop_key f k xs else x # drop_key f k xs)"
  by (simp add: drop_key_def)

lemma drop_key_append: "drop_key f k (xs @ ys) = drop_key f k xs @ drop_key f k ys"
  by (simp add: drop_key_def)

lemma drop_key_id: "k \<notin> f ` set xs \<Longrightarrow> drop_key f k xs = xs"
  by (auto simp: drop_key_def filter_id_conv)

lemma map_drop_key: "map f (drop_key f k xs) = filter (\<lambda>y. y \<noteq> k) (map f xs)"
  by (induction xs) auto

lemma distinct_drop_key: "distinct (map g xs) \<Longrightarrow> distinct (map g (drop_key f k xs))"
  by (induction xs) auto

lemma length_drop_key_le: "length (drop_key f k xs) \<le> length xs"
  by (simp add: drop_key_def)

lemma length_drop_key:
  "distinct (map f xs) \<Longrightarrow> k \<in> f ` set xs \<Longrightarrow> Suc (length (drop_key f k xs)) = length xs"
  by (induction xs) (auto simp: drop_key_id)

lemma sum_list_drop_key:
  fixes w :: "'a \<Rightarrow> int"
  assumes "distinct (map f xs)" "x \<in> set xs"
  shows "sum_list (map w (drop_key f (f x) xs)) = sum_list (map w xs) - w x"
  using assms by (induction xs) (auto simp: drop_key_id image_iff)

lemma drop_key_split:
  "distinct (map f (xs @ x # ys)) \<Longrightarrow> drop_key f (f x) (xs @ x # ys) = xs @ ys"
  by (simp add: drop_key_append drop_key_id)

lemma drop_key_last:
  "distinct (map f xs) \<Longrightarrow> xs \<noteq> [] \<Longrightarrow> drop_key f (f (last xs)) xs = butlast xs"
  using drop_key_split [of f "butlast xs" "last xs" "[]"] by (simp add: append_butlast_last_id)

lemma distinct_key_eq:
  "distinct (map f xs) \<Longrightarrow> x \<in> set xs \<Longrightarrow> y \<in> set xs \<Longrightarrow> f x = f y \<Longrightarrow> x = y"
  by (auto simp: distinct_map dest: inj_onD)

end
