(* ===== verification/Go_List.thy ===== *)
theory Go_List
  imports Go_Prelude
begin

text \<open>
  The part of Go's \<open>container/list\<close> the program uses, and its use together with an index
  \<open>map[string]*list.Element\<close>. A list is the sequence of its elements from \<open>Front\<close> to \<open>Back\<close>;
  an element is its identity (what a \<open>*list.Element\<close> pointer denotes) paired with its value.
  The predicate \<open>linked\<close> says that an index and a list describe the same set of entries; both
  the LRU cache and the version floors keep it.
\<close>

type_synonym 'a element = "nat \<times> 'a"

definition list_Back :: "'a element list \<Rightarrow> nat option" where
  "list_Back xs = (if xs = [] then None else Some (fst (last xs)))"

fun list_Prev :: "nat \<Rightarrow> 'a element list \<Rightarrow> nat option" where
  "list_Prev i (x # y # zs) = (if fst y = i then Some (fst x) else list_Prev i (y # zs))"
| "list_Prev i xs = None"

definition list_Remove :: "nat \<Rightarrow> 'a element list \<Rightarrow> 'a element list" where
  "list_Remove i xs = drop_key fst i xs"

definition list_MoveToFront :: "nat \<Rightarrow> 'a element list \<Rightarrow> 'a element list" where
  "list_MoveToFront i xs =
     (case map_of xs i of None \<Rightarrow> xs | Some v \<Rightarrow> (i, v) # list_Remove i xs)"

definition list_PushFront :: "nat \<Rightarrow> 'a \<Rightarrow> 'a element list \<Rightarrow> 'a element list" where
  "list_PushFront i v xs = (i, v) # xs"

definition list_SetValue :: "nat \<Rightarrow> 'a \<Rightarrow> 'a element list \<Rightarrow> 'a element list" where
  "list_SetValue i v xs = map (\<lambda>(j, w). if j = i then (j, v) else (j, w)) xs"

definition index_of :: "('a \<Rightarrow> 'k) \<Rightarrow> 'a element list \<Rightarrow> 'k \<rightharpoonup> nat" where
  "index_of f xs = map_of (map (\<lambda>(i, e). (f e, i)) xs)"

definition linked :: "('a \<Rightarrow> 'k) \<Rightarrow> 'a element list \<Rightarrow> ('k \<rightharpoonup> nat) \<Rightarrow> nat \<Rightarrow> bool" where
  "linked f xs ix n \<longleftrightarrow>
     distinct (map fst xs) \<and> distinct (map (f \<circ> snd) xs) \<and> ix = index_of f xs \<and>
     list_all (\<lambda>x. fst x < n) xs"

lemmas list_defs = list_Remove_def list_PushFront_def

section \<open>Positions\<close>

lemma list_Back_mem: "list_Back xs = Some i \<Longrightarrow> i \<in> fst ` set xs"
  by (auto simp: list_Back_def split: if_splits)

lemma list_Back_None [simp]: "list_Back xs = None \<longleftrightarrow> xs = []"
  by (simp add: list_Back_def)

lemma list_Prev_mem: "list_Prev i xs = Some j \<Longrightarrow> j \<in> fst ` set xs"
  by (induction i xs rule: list_Prev.induct) (auto split: if_splits)

lemma list_Prev_split:
  "distinct (map fst (xs @ x # y # ys)) \<Longrightarrow> list_Prev (fst y) (xs @ x # y # ys) = Some (fst x)"
proof (induction xs)
  case (Cons a xs)
  then show ?case by (cases xs) auto
qed simp

lemma list_Prev_front: "distinct (map fst (y # ys)) \<Longrightarrow> list_Prev (fst y) (y # ys) = None"
proof -
  have "i \<notin> fst ` set ys \<Longrightarrow> list_Prev i (a # ys) = None" for i and a :: "nat \<times> 'a"
  proof (induction ys arbitrary: a)
    case (Cons b ys)
    then show ?case by auto
  qed simp
  moreover assume "distinct (map fst (y # ys))"
  ultimately show ?thesis by simp
qed

lemma list_Prev_neq: "distinct (map fst xs) \<Longrightarrow> list_Prev i xs = Some j \<Longrightarrow> j \<noteq> i"
  by (induction i xs rule: list_Prev.induct) (auto split: if_splits)

section \<open>Elements\<close>

lemma map_of_element:
  "distinct (map fst xs) \<Longrightarrow> map_of xs i = Some e \<longleftrightarrow> (i, e) \<in> set xs"
  by simp

lemma set_list_Remove [simp]: "set (list_Remove i xs) = {x \<in> set xs. fst x \<noteq> i}"
  by (simp add: list_Remove_def)

lemma list_SetValue_fst [simp]: "map fst (list_SetValue i v xs) = map fst xs"
  by (induction xs) (auto simp: list_SetValue_def)

lemma set_list_SetValue:
  assumes "(i, w) \<in> set xs"
  shows "set (list_SetValue i v xs) = insert (i, v) {x \<in> set xs. fst x \<noteq> i}"
proof -
  let ?g = "\<lambda>(j, w). if j = i then (j, v) else (j, w)"
  have "(i, v) \<in> ?g ` set xs"
    using assms by (rule rev_image_eqI) simp
  moreover have "x \<in> ?g ` set xs" if "x \<in> set xs" "fst x \<noteq> i" for x
    using that(1) by (rule rev_image_eqI) (use that(2) in \<open>simp add: case_prod_beta\<close>)
  ultimately have "insert (i, v) {x \<in> set xs. fst x \<noteq> i} \<subseteq> ?g ` set xs" by blast
  moreover have "?g ` set xs \<subseteq> insert (i, v) {x \<in> set xs. fst x \<noteq> i}"
    by (rule image_subsetI) (simp add: case_prod_beta)
  ultimately show ?thesis
    unfolding list_SetValue_def set_map by (rule equalityI [rotated])
qed

lemma length_list_SetValue [simp]: "length (list_SetValue i v xs) = length xs"
  by (simp add: list_SetValue_def)

lemma length_MoveToFront:
  assumes "distinct (map fst xs)"
  shows "length (list_MoveToFront i xs) = length xs"
proof (cases "map_of xs i")
  case (Some e)
  then have "(i, e) \<in> set xs" by (rule map_of_SomeD)
  then have "Suc (length (drop_key fst i xs)) = length xs"
    using length_drop_key [OF assms] by (simp add: rev_image_eqI)
  with Some show ?thesis by (simp add: list_MoveToFront_def list_Remove_def)
qed (simp add: list_MoveToFront_def)

lemma fst_MoveToFront [simp]: "fst ` set (list_MoveToFront i xs) = fst ` set xs"
proof (cases "map_of xs i")
  case (Some v)
  with image_eqI [OF _ map_of_SomeD [OF Some], of i fst] show ?thesis
    by (auto simp: list_MoveToFront_def)
qed (simp add: list_MoveToFront_def)

section \<open>Index and list agree\<close>

lemma linked_lookup:
  assumes "linked f xs ix n"
  shows "ix k = Some i \<longleftrightarrow> (\<exists>e. (i, e) \<in> set xs \<and> f e = k)"
proof -
  have "distinct (map fst (map (\<lambda>(i, e). (f e, i)) xs))"
    using assms by (simp add: linked_def comp_def case_prod_beta')
  then show ?thesis
    using assms by (auto simp: linked_def index_of_def image_iff intro: rev_bexI)
qed

lemma linked_lookup_None:
  assumes "linked f xs ix n"
  shows "ix k = None \<longleftrightarrow> (\<forall>x \<in> set xs. f (snd x) \<noteq> k)"
  using linked_lookup [OF assms, of k] by (cases "ix k") fastforce+

lemma linked_lookupE:
  assumes "linked f xs ix n" "ix k = Some i"
  obtains e where "map_of xs i = Some e" "f e = k" "(i, e) \<in> set xs"
  using assms linked_lookup [OF assms(1)] by (auto simp: linked_def)

lemma index_of_Cons [simp]: "index_of f ((i, e) # xs) = (index_of f xs)(f e \<mapsto> i)"
  by (simp add: index_of_def)

lemma index_of_Nil [simp]: "index_of f [] = Map.empty"
  by (simp add: index_of_def)

lemma index_of_absent: "k \<notin> (f \<circ> snd) ` set xs \<Longrightarrow> index_of f xs k = None"
  by (induction xs) (auto simp: index_of_def)

lemma index_of_Remove:
  assumes "distinct (map fst xs)" "distinct (map (f \<circ> snd) xs)" "(i, e) \<in> set xs"
  shows "index_of f (list_Remove i xs) = (index_of f xs)(f e := None)"
  using assms
proof (induction xs)
  case (Cons x xs)
  obtain j d where x: "x = (j, d)" by (cases x)
  show ?case
  proof (cases "j = i")
    case True
    with Cons.prems x have "i \<notin> fst ` set xs" and "d = e"
      by (force simp: image_iff)+
    moreover from Cons.prems x \<open>d = e\<close> have "index_of f xs (f e) = None"
      by (intro index_of_absent) auto
    ultimately show ?thesis
      using True x by (auto simp: list_Remove_def drop_key_id fun_upd_idem)
  next
    case False
    with Cons.prems x have mem: "(i, e) \<in> set xs" by auto
    with Cons.prems x have "f d \<noteq> f e"
      by (force simp: image_iff comp_def)
    with Cons.IH [OF _ _ mem] Cons.prems False x show ?thesis
      by (auto simp: list_Remove_def fun_eq_iff)
  qed
qed simp

lemma linked_Nil [simp]: "linked f [] Map.empty n"
  by (simp add: linked_def)

lemma linked_Remove:
  assumes "linked f xs ix n" "(i, e) \<in> set xs"
  shows "linked f (list_Remove i xs) (ix(f e := None)) n"
  using assms index_of_Remove [of xs f i e]
  by (auto simp: linked_def list_Remove_def distinct_drop_key list_all_iff)

lemma linked_PushFront:
  assumes "linked f xs ix n" "ix (f e) = None"
  shows "linked f (list_PushFront n e xs) (ix(f e \<mapsto> n)) (Suc n)"
  using assms linked_lookup_None [OF assms(1), of "f e"]
  by (auto simp: linked_def list_PushFront_def list_all_iff image_iff comp_def less_SucI)

lemma index_of_MoveToFront:
  assumes "distinct (map fst xs)" "distinct (map (f \<circ> snd) xs)" "(i, e) \<in> set xs"
  shows "index_of f ((i, e) # list_Remove i xs) = index_of f xs"
proof -
  have "index_of f xs (f e) = Some i"
    using linked_lookup [of f xs "index_of f xs" "Suc (Max (insert 0 (fst ` set xs)))"] assms
    by (auto simp: linked_def list_all_iff less_Suc_eq_le)
  then show ?thesis
    using index_of_Remove [OF assms] by (simp add: fun_upd_idem)
qed

lemma linked_MoveToFront:
  assumes "linked f xs ix n"
  shows "linked f (list_MoveToFront i xs) ix n"
proof (cases "map_of xs i")
  case None
  then show ?thesis using assms by (simp add: list_MoveToFront_def)
next
  case (Some e)
  then have mem: "(i, e) \<in> set xs" by (rule map_of_SomeD)
  have "f e \<noteq> f d" if "(j, d) \<in> set xs" "j \<noteq> i" for j d
    using assms mem that distinct_key_eq [of "f \<circ> snd" xs "(j, d)" "(i, e)"]
    by (auto simp: linked_def)
  with Some mem assms show ?thesis
    using index_of_MoveToFront [of xs f i e]
    by (auto simp: linked_def list_MoveToFront_def list_Remove_def distinct_drop_key list_all_iff)
       blast
qed

lemma index_of_SetValue:
  assumes "f v = f e" "map_of xs i = Some e" "distinct (map fst xs)"
  shows "index_of f (list_SetValue i v xs) = index_of f xs"
proof -
  have "map (\<lambda>(i, e). (f e, i)) (list_SetValue i v xs) = map (\<lambda>(i, e). (f e, i)) xs"
    using assms by (auto simp: list_SetValue_def dest: eq_key_imp_eq_value)
  then show ?thesis by (simp add: index_of_def)
qed

lemma map_key_SetValue:
  assumes "f v = f e" "map_of xs i = Some e" "distinct (map fst xs)"
  shows "map (f \<circ> snd) (list_SetValue i v xs) = map (f \<circ> snd) xs"
  using assms by (auto simp: list_SetValue_def dest: eq_key_imp_eq_value)

lemma linked_SetValue:
  assumes "linked f xs ix n" "map_of xs i = Some e" "f v = f e"
  shows "linked f (list_SetValue i v xs) ix n"
proof -
  have "list_all (\<lambda>x. fst x < n) (list_SetValue i v xs)"
    using assms(1) by (auto simp: linked_def list_SetValue_def list_all_iff)
  with assms show ?thesis
    using index_of_SetValue [of f v e xs i] map_key_SetValue [of f v e xs i]
    by (simp add: linked_def)
qed

lemmas linked_intros = linked_Nil linked_Remove linked_PushFront linked_MoveToFront linked_SetValue

end
