(* ===== verification/Store_Interface.thy ===== *)
theory Store_Interface
  imports Go_Prelude
begin

text \<open>
  What a client of a key/value store relies on, for stores whose operations may drop entries at
  any time (by eviction, by expiry or on request) but never invent one: every operation returns,
  keeps the store's invariant, and an entry found after an operation was there before or is the
  one the operation added. The LRU and the locked cache around it both promise this; what follows
  from it for whole runs of operations is proved here once.
\<close>

fun run_ops :: "('op \<Rightarrow> 's \<Rightarrow> 's option) \<Rightarrow> 'op list \<Rightarrow> 's \<Rightarrow> 's option" where
  "run_ops step [] s = Some s"
| "run_ops step (x # xs) s = (case step x s of None \<Rightarrow> None | Some s' \<Rightarrow> run_ops step xs s')"

lemma run_ops_append:
  "run_ops step (xs @ ys) s =
     (case run_ops step xs s of None \<Rightarrow> None | Some s' \<Rightarrow> run_ops step ys s')"
  by (induction xs arbitrary: s) (auto split: option.split)

locale lossy_store =
  fixes inv :: "'s \<Rightarrow> bool"
    and found :: "'s \<Rightarrow> 'k \<rightharpoonup> 'd"
    and step :: "'op \<Rightarrow> 's \<Rightarrow> 's option"
    and added :: "'op \<Rightarrow> 's \<Rightarrow> ('k \<times> 'd) option"
  assumes step_returns: "inv s \<Longrightarrow> \<exists>s'. step x s = Some s' \<and> inv s'"
    and step_found: "inv s \<Longrightarrow> step x s = Some s' \<Longrightarrow> found s' k = Some d \<Longrightarrow>
          found s k = Some d \<or> added x s = Some (k, d)"
begin

lemma step_inv: "inv s \<Longrightarrow> step x s = Some s' \<Longrightarrow> inv s'"
  using step_returns [of s x] by auto

lemma run_returns: "inv s \<Longrightarrow> \<exists>s'. run_ops step xs s = Some s' \<and> inv s'"
proof (induction xs arbitrary: s)
  case (Cons x xs)
  then obtain s' where "step x s = Some s'" "inv s'" using step_returns by blast
  with Cons.IH show ?case by simp
qed simp

lemma run_found:
  assumes "inv s" "run_ops step xs s = Some s'" "found s' k = Some d"
  shows "found s k = Some d \<or>
         (\<exists>pre x post u. xs = pre @ x # post \<and> run_ops step pre s = Some u \<and> added x u = Some (k, d))"
  using assms
proof (induction xs arbitrary: s)
  case (Cons x xs)
  then obtain t where t: "step x s = Some t" "run_ops step xs t = Some s'"
    by (auto split: option.splits)
  with Cons.IH [OF step_inv [OF Cons.prems(1) t(1)] t(2) Cons.prems(3)]
  consider "found t k = Some d"
    | pre y post u where "xs = pre @ y # post" "run_ops step pre t = Some u" "added y u = Some (k, d)"
    by blast
  then show ?case
  proof cases
    case 1
    with step_found [OF Cons.prems(1) t(1)] show ?thesis
      by (metis append_Nil run_ops.simps(1))
  next
    case 2
    with t(1) have "x # xs = (x # pre) @ y # post" "run_ops step (x # pre) s = Some u"
      by simp_all
    with 2(3) show ?thesis by blast
  qed
qed simp

lemma run_keeps:
  assumes "inv s" "run_ops step xs s = Some s'"
    and "\<And>k d. found s k = Some d \<Longrightarrow> P k d"
    and "\<And>x u k d. x \<in> set xs \<Longrightarrow> added x u = Some (k, d) \<Longrightarrow> P k d"
    and "found s' k = Some d"
  shows "P k d"
  using run_found [OF assms(1,2,5)] assms(3,4) by fastforce

end

end
