(* ===== verification/LRU.thy ===== *)
theory LRU
  imports Go_List Store_Interface "HOL-Library.Sublist"
begin

text \<open>
  The LRU cache of \<open>internal/cache/lru/lru.go\<close>: a doubly linked list of entries (\<open>Front\<close> is most
  recently used), an index from keys to list elements, a logical byte count, an optional removal
  callback and the persistent cursor of the expiry scan.

  The method \<open>Len\<close> of the interface \<open>Value\<close> is the field \<open>valueLen\<close>; the variables the callback
  closes over are the field \<open>captured\<close>. The eviction loop of \<open>AddUntil\<close> is a partial function:
  it does not return when the byte count exceeds the capacity of an empty list, which the
  invariant \<open>lru_inv\<close> excludes for a nonnegative capacity.
\<close>

section \<open>Data\<close>

record 'v entry =
  entry_key :: string
  entry_value :: 'v
  entry_expireAt :: gotime

record ('v, 'c) lru =
  bytesTotal :: int
  byteNow :: int
  ll :: "'v entry element list"
  index :: "string \<rightharpoonup> nat"
  onEvicted :: "(string \<Rightarrow> 'v \<Rightarrow> 'c \<Rightarrow> 'c) option"
  captured :: 'c
  valueLen :: "'v \<Rightarrow> nat"
  expireCursor :: "nat option"
  nextElem :: nat

section \<open>Operations\<close>

definition lru_New ::
  "('v \<Rightarrow> nat) \<Rightarrow> int \<Rightarrow> (string \<Rightarrow> 'v \<Rightarrow> 'c \<Rightarrow> 'c) option \<Rightarrow> 'c \<Rightarrow> ('v, 'c) lru" where
  "lru_New vlen cap cb env =
     \<lparr>bytesTotal = cap, byteNow = 0, ll = [], index = Map.empty, onEvicted = cb,
      captured = env, valueLen = vlen, expireCursor = None, nextElem = 0\<rparr>"

definition expired :: "gotime \<Rightarrow> 'v entry \<Rightarrow> bool" where
  "expired now kv \<longleftrightarrow> \<not> IsZero (entry_expireAt kv) \<and> \<not> After (entry_expireAt kv) now"

definition RemoveElement :: "nat \<Rightarrow> ('v, 'c) lru \<Rightarrow> ('v, 'c) lru" where
  "RemoveElement i c =
     (case map_of (ll c) i of
        None \<Rightarrow> c
      | Some kv \<Rightarrow>
          (let c1 = (if expireCursor c = Some i
                     then c\<lparr>expireCursor := list_Prev i (ll c)\<rparr> else c);
               c2 = c1\<lparr>ll := list_Remove i (ll c1)\<rparr>;
               c3 = c2\<lparr>index := (index c2)(entry_key kv := None)\<rparr>;
               c4 = c3\<lparr>byteNow := byteNow c3 -
                       (int (length (entry_key kv)) + int (valueLen c3 (entry_value kv)))\<rparr>
           in case onEvicted c4 of
                None \<Rightarrow> c4
              | Some f \<Rightarrow> c4\<lparr>captured := f (entry_key kv) (entry_value kv) (captured c4)\<rparr>))"

definition lru_Peek :: "gotime \<Rightarrow> string \<Rightarrow> ('v, 'c) lru \<Rightarrow> 'v option \<times> ('v, 'c) lru" where
  "lru_Peek now k c =
     (case index c k of
        None \<Rightarrow> (None, c)
      | Some e \<Rightarrow>
          (case map_of (ll c) e of
             None \<Rightarrow> (None, c)
           | Some kv \<Rightarrow> if expired now kv then (None, RemoveElement e c)
                        else (Some (entry_value kv), c)))"

definition lru_Get :: "gotime \<Rightarrow> string \<Rightarrow> ('v, 'c) lru \<Rightarrow> 'v option \<times> ('v, 'c) lru" where
  "lru_Get now k c =
     (case lru_Peek now k c of
        (None, c') \<Rightarrow> (None, c')
      | (Some v, c') \<Rightarrow>
          (Some v, case index c' k of
                     None \<Rightarrow> c'
                   | Some e \<Rightarrow> c'\<lparr>ll := list_MoveToFront e (ll c')\<rparr>))"

definition RemoveOldest :: "('v, 'c) lru \<Rightarrow> ('v, 'c) lru" where
  "RemoveOldest c =
     (case list_Back (ll c) of None \<Rightarrow> c | Some e \<Rightarrow> RemoveElement e c)"

definition lru_Remove :: "string \<Rightarrow> ('v, 'c) lru \<Rightarrow> ('v, 'c) lru" where
  "lru_Remove k c = (case index c k of None \<Rightarrow> c | Some e \<Rightarrow> RemoveElement e c)"

text \<open>
  \<open>clk n\<close> is the clock reading at the \<open>n\<close>-th evaluation of \<open>time.Now()\<close> inside
  \<open>PruneExpired\<close>: reading 0 fixes the deadline, reading \<open>Suc n\<close> guards the iteration that has
  checked \<open>n\<close> entries. The first argument of the loop is \<open>limit - checked\<close>.
\<close>

fun prune_loop ::
  "(nat \<Rightarrow> gotime) \<Rightarrow> gotime \<Rightarrow> gotime \<Rightarrow> nat \<Rightarrow> nat \<Rightarrow> nat \<Rightarrow> ('v, 'c) lru \<Rightarrow>
     nat \<times> nat \<times> ('v, 'c) lru" where
  "prune_loop clk deadline now 0 checked removed c = (checked, removed, c)"
| "prune_loop clk deadline now (Suc n) checked removed c =
     (if \<not> Before (clk (Suc checked)) deadline then (checked, removed, c)
      else
        (let cur = (if expireCursor c = None then list_Back (ll c) else expireCursor c)
         in case cur of
              None \<Rightarrow> (checked, removed, c\<lparr>expireCursor := None\<rparr>)
            | Some current \<Rightarrow>
                (let c1 = c\<lparr>expireCursor := list_Prev current (ll c)\<rparr>
                 in case map_of (ll c1) current of
                      None \<Rightarrow> (checked, removed, c1)
                    | Some item \<Rightarrow>
                        if expired now item
                        then prune_loop clk deadline now n (Suc checked) (Suc removed)
                               (RemoveElement current c1)
                        else prune_loop clk deadline now n (Suc checked) removed c1)))"

definition PruneExpired ::
  "(nat \<Rightarrow> gotime) \<Rightarrow> gotime \<Rightarrow> int \<Rightarrow> duration \<Rightarrow> ('v, 'c) lru \<Rightarrow> nat \<times> nat \<times> ('v, 'c) lru" where
  "PruneExpired clk now limit budget c =
     (if limit \<le> 0 \<or> budget \<le> 0 then (0, 0, c)
      else prune_loop clk (clk 0 + budget) now (min (nat limit) (length (ll c))) 0 0 c)"

partial_function (option) evict_loop :: "('v, 'c) lru \<Rightarrow> ('v, 'c) lru option" where
  "evict_loop c =
     (if bytesTotal c \<noteq> 0 \<and> byteNow c > bytesTotal c then evict_loop (RemoveOldest c)
      else Some c)"

definition lru_insert :: "string \<Rightarrow> 'v \<Rightarrow> gotime \<Rightarrow> ('v, 'c) lru \<Rightarrow> ('v, 'c) lru" where
  "lru_insert k v expireAt c =
     (case index c k of
        Some e \<Rightarrow>
          (case map_of (ll c) e of
             None \<Rightarrow> c
           | Some kv \<Rightarrow>
               c\<lparr>ll := list_SetValue e (kv\<lparr>entry_value := v, entry_expireAt := expireAt\<rparr>)
                         (list_MoveToFront e (ll c)),
                 byteNow := byteNow c - (int (valueLen c (entry_value kv)) - int (valueLen c v))\<rparr>)
      | None \<Rightarrow>
          c\<lparr>ll := list_PushFront (nextElem c)
                    \<lparr>entry_key = k, entry_value = v, entry_expireAt = expireAt\<rparr> (ll c),
            index := (index c)(k \<mapsto> nextElem c),
            byteNow := byteNow c + (int (length k) + int (valueLen c v)),
            nextElem := Suc (nextElem c)\<rparr>)"

definition AddUntil :: "string \<Rightarrow> 'v \<Rightarrow> gotime \<Rightarrow> ('v, 'c) lru \<Rightarrow> ('v, 'c) lru option" where
  "AddUntil k v expireAt c = evict_loop (lru_insert k v expireAt c)"

definition lru_Add :: "gotime \<Rightarrow> string \<Rightarrow> 'v \<Rightarrow> duration \<Rightarrow> ('v, 'c) lru \<Rightarrow> ('v, 'c) lru option" where
  "lru_Add now k v ttl c = AddUntil k v (if ttl > 0 then now + ttl else 0) c"

definition lru_Len :: "('v, 'c) lru \<Rightarrow> nat" where
  "lru_Len c = length (ll c)"

definition lru_Bytes :: "('v, 'c) lru \<Rightarrow> int" where
  "lru_Bytes c = byteNow c"

section \<open>Invariant and abstraction\<close>

text \<open>
  The abstract cache is the sequence of key, value and deadline from most to least recently
  used.
\<close>

type_synonym 'v item = "string \<times> 'v \<times> gotime"

definition item_of :: "'v entry element \<Rightarrow> 'v item" where
  "item_of x = (entry_key (snd x), entry_value (snd x), entry_expireAt (snd x))"

definition items :: "('v, 'c) lru \<Rightarrow> 'v item list" where
  "items c = map item_of (ll c)"

definition item_size :: "('v \<Rightarrow> nat) \<Rightarrow> 'v item \<Rightarrow> int" where
  "item_size vlen x = int (length (fst x)) + int (vlen (fst (snd x)))"

definition items_size :: "('v \<Rightarrow> nat) \<Rightarrow> 'v item list \<Rightarrow> int" where
  "items_size vlen xs = sum_list (map (item_size vlen) xs)"

definition lru_inv :: "('v, 'c) lru \<Rightarrow> bool" where
  "lru_inv c \<longleftrightarrow>
     linked entry_key (ll c) (index c) (nextElem c) \<and>
     byteNow c = items_size (valueLen c) (items c) \<and>
     (case expireCursor c of None \<Rightarrow> True | Some i \<Rightarrow> i \<in> set (map fst (ll c)))"

definition lru_fits :: "('v, 'c) lru \<Rightarrow> bool" where
  "lru_fits c \<longleftrightarrow> bytesTotal c = 0 \<or> byteNow c \<le> bytesTotal c"

definition resident :: "('v, 'c) lru \<Rightarrow> string \<rightharpoonup> 'v \<times> gotime" where
  "resident c = map_of (items c)"

text \<open>
  Reference operations on item sequences. Eviction keeps the longest prefix whose size is
  within the capacity, a capacity of zero meaning no bound.
\<close>

fun keep_fitting :: "('v \<Rightarrow> nat) \<Rightarrow> int \<Rightarrow> 'v item list \<Rightarrow> 'v item list" where
  "keep_fitting vlen room [] = []"
| "keep_fitting vlen room (x # xs) =
     (if item_size vlen x \<le> room then x # keep_fitting vlen (room - item_size vlen x) xs else [])"

definition spec_remove :: "string \<Rightarrow> 'v item list \<Rightarrow> 'v item list" where
  "spec_remove k xs = drop_key fst k xs"

definition spec_touch :: "string \<Rightarrow> 'v item list \<Rightarrow> 'v item list" where
  "spec_touch k xs =
     (case map_of xs k of None \<Rightarrow> xs | Some d \<Rightarrow> (k, d) # drop_key fst k xs)"

definition spec_add ::
  "('v \<Rightarrow> nat) \<Rightarrow> int \<Rightarrow> string \<Rightarrow> 'v \<Rightarrow> gotime \<Rightarrow> 'v item list \<Rightarrow> 'v item list" where
  "spec_add vlen cap k v t xs =
     (let ys = (k, v, t) # drop_key fst k xs
      in if cap = 0 then ys else keep_fitting vlen cap ys)"

definition item_expired :: "gotime \<Rightarrow> 'v item \<Rightarrow> bool" where
  "item_expired now x \<longleftrightarrow> snd (snd x) \<noteq> 0 \<and> snd (snd x) \<le> now"


section \<open>Removing an element\<close>

lemma RemoveElement_frame [simp]:
  "bytesTotal (RemoveElement i c) = bytesTotal c"
  "valueLen (RemoveElement i c) = valueLen c"
  "onEvicted (RemoveElement i c) = onEvicted c"
  "nextElem (RemoveElement i c) = nextElem c"
  by (simp_all add: RemoveElement_def Let_def split: option.split)

lemma RemoveElement_ll: "ll (RemoveElement i c) = list_Remove i (ll c)"
proof (cases "map_of (ll c) i")
  case None
  then have "i \<notin> fst ` set (ll c)"
    by (simp add: map_of_eq_None_iff)
  with None show ?thesis
    by (simp add: RemoveElement_def list_Remove_def drop_key_id)
qed (simp add: RemoveElement_def Let_def split: option.split)

lemma RemoveElement_found:
  assumes "map_of (ll c) i = Some kv"
  shows "index (RemoveElement i c) = (index c)(entry_key kv := None)"
    and "byteNow (RemoveElement i c) =
           byteNow c - (int (length (entry_key kv)) + int (valueLen c (entry_value kv)))"
    and "expireCursor (RemoveElement i c) =
           (if expireCursor c = Some i then list_Prev i (ll c) else expireCursor c)"
    and "captured (RemoveElement i c) =
           (case onEvicted c of None \<Rightarrow> captured c
            | Some f \<Rightarrow> f (entry_key kv) (entry_value kv) (captured c))"
  using assms by (simp_all add: RemoveElement_def Let_def split: option.split)

lemma items_distinct: "lru_inv c \<Longrightarrow> distinct (map fst (items c))"
  by (simp add: lru_inv_def linked_def items_def item_of_def comp_def)

lemma lru_index:
  assumes "lru_inv c" "index c k = Some i"
  obtains kv where "map_of (ll c) i = Some kv" "entry_key kv = k" "(i, kv) \<in> set (ll c)"
  using assms linked_lookupE [of entry_key "ll c" "index c" "nextElem c" k i]
  by (auto simp: lru_inv_def)

lemma map_item_of_Remove:
  assumes "lru_inv c" "(i, kv) \<in> set (ll c)"
  shows "map item_of (list_Remove i (ll c)) = spec_remove (entry_key kv) (items c)"
proof -
  have "fst x \<noteq> i \<longleftrightarrow> entry_key (snd x) \<noteq> entry_key kv" if "x \<in> set (ll c)" for x
    using assms that distinct_key_eq [of "entry_key \<circ> snd" "ll c" x "(i, kv)"]
      distinct_key_eq [of fst "ll c" x "(i, kv)"]
    by (cases x) (auto simp: lru_inv_def linked_def)
  then have "filter (\<lambda>x. fst x \<noteq> i) (ll c) = filter (\<lambda>x. entry_key (snd x) \<noteq> entry_key kv) (ll c)"
    by (rule filter_cong [OF refl])
  then show ?thesis
    by (simp add: list_Remove_def drop_key_def spec_remove_def items_def filter_map comp_def
        item_of_def)
qed

lemma items_size_remove:
  assumes "lru_inv c" "(i, kv) \<in> set (ll c)"
  shows "items_size vlen (spec_remove (entry_key kv) (items c)) =
         items_size vlen (items c) - item_size vlen (item_of (i, kv))"
proof -
  have "item_of (i, kv) \<in> set (items c)"
    using assms(2) by (auto simp: items_def)
  with sum_list_drop_key [OF items_distinct [OF assms(1)], of "item_of (i, kv)" "item_size vlen"]
  show ?thesis
    by (simp add: items_size_def spec_remove_def item_of_def)
qed

lemma RemoveElement_items:
  assumes "lru_inv c" "map_of (ll c) i = Some kv"
  shows "items (RemoveElement i c) = spec_remove (entry_key kv) (items c)"
  using map_item_of_Remove [OF assms(1)] map_of_SomeD [OF assms(2)]
  by (simp add: items_def RemoveElement_ll)

lemma RemoveElement_inv [inv_intros]:
  assumes "lru_inv c"
  shows "lru_inv (RemoveElement i c)"
proof (cases "map_of (ll c) i")
  case None
  then show ?thesis using assms by (simp add: RemoveElement_def)
next
  case (Some kv)
  note mem = map_of_SomeD [OF Some]
  have "linked entry_key (list_Remove i (ll c)) ((index c)(entry_key kv := None)) (nextElem c)"
    using assms mem by (intro linked_Remove) (simp_all add: lru_inv_def)
  moreover have "byteNow (RemoveElement i c) =
      items_size (valueLen c) (items (RemoveElement i c))"
    using assms items_size_remove [OF assms mem]
    by (simp add: RemoveElement_found [OF Some] RemoveElement_items [OF assms Some] lru_inv_def
        item_size_def item_of_def)
  moreover have "case expireCursor (RemoveElement i c) of None \<Rightarrow> True
      | Some j \<Rightarrow> j \<in> set (map fst (ll (RemoveElement i c)))"
    using assms list_Prev_mem [of i "ll c"] list_Prev_neq [of "ll c" i]
    by (auto simp: RemoveElement_found [OF Some] RemoveElement_ll lru_inv_def linked_def
        split: option.split option.splits)
  ultimately show ?thesis
    by (simp add: lru_inv_def RemoveElement_ll RemoveElement_found [OF Some])
qed


section \<open>Lookups\<close>

lemma resident_index:
  assumes "lru_inv c"
  shows "resident c k =
    (case index c k of None \<Rightarrow> None
     | Some i \<Rightarrow> map_option (\<lambda>kv. (entry_value kv, entry_expireAt kv)) (map_of (ll c) i))"
proof (cases "index c k")
  case None
  then have "k \<notin> fst ` set (items c)"
    using assms linked_lookup_None [of entry_key "ll c" "index c" "nextElem c" k]
    by (auto simp: lru_inv_def items_def item_of_def)
  with None show ?thesis by (simp add: resident_def map_of_eq_None_iff)
next
  case (Some i)
  then obtain kv where kv: "map_of (ll c) i = Some kv" "entry_key kv = k" "(i, kv) \<in> set (ll c)"
    using assms by (rule_tac lru_index)
  then have "(k, entry_value kv, entry_expireAt kv) \<in> set (items c)"
    by (force simp: items_def item_of_def)
  with Some kv show ?thesis
    using items_distinct [OF assms] by (simp add: resident_def)
qed

lemma resident_spec_remove: "map_of (spec_remove k xs) = (map_of xs)(k := None)"
  by (induction xs) (auto simp: spec_remove_def fun_eq_iff)

lemma spec_remove_absent: "map_of xs k = None \<Longrightarrow> spec_remove k xs = xs"
  by (simp add: spec_remove_def drop_key_id map_of_eq_None_iff)

text \<open>What a lookup returns: the resident value unless its deadline has passed.\<close>

definition live_value :: "gotime \<Rightarrow> ('v \<times> gotime) option \<Rightarrow> 'v option" where
  "live_value now r =
     (case r of None \<Rightarrow> None | Some (v, t) \<Rightarrow> if t \<noteq> 0 \<and> t \<le> now then None else Some v)"

lemma Peek_spec:
  assumes "lru_inv c"
  shows "fst (lru_Peek now k c) = live_value now (resident c k)"
    and "items (snd (lru_Peek now k c)) =
           (if live_value now (resident c k) = None then spec_remove k (items c) else items c)"
    and "lru_inv (snd (lru_Peek now k c))"
proof -
  have "fst (lru_Peek now k c) = live_value now (resident c k) \<and>
    items (snd (lru_Peek now k c)) =
      (if live_value now (resident c k) = None then spec_remove k (items c) else items c) \<and>
    lru_inv (snd (lru_Peek now k c))"
  proof (cases "index c k")
    case None
    then have "resident c k = None"
      by (simp add: resident_index [OF assms])
    moreover from this have "spec_remove k (items c) = items c"
      by (intro spec_remove_absent) (simp add: resident_def)
    ultimately show ?thesis
      using None assms by (simp add: lru_Peek_def live_value_def)
  next
    case (Some i)
    then obtain kv where kv: "map_of (ll c) i = Some kv" "entry_key kv = k"
      using assms by (rule_tac lru_index)
    with Some assms show ?thesis
      by (auto simp: lru_Peek_def live_value_def resident_index expired_def time_defs
          RemoveElement_items RemoveElement_inv)
  qed
  then show "fst (lru_Peek now k c) = live_value now (resident c k)"
    and "items (snd (lru_Peek now k c)) =
           (if live_value now (resident c k) = None then spec_remove k (items c) else items c)"
    and "lru_inv (snd (lru_Peek now k c))" by auto
qed

lemma Peek_live:
  "lru_Peek now k c = (Some v, c') \<Longrightarrow> c' = c"
  by (auto simp: lru_Peek_def split: option.splits if_splits)

lemma map_item_of_MoveToFront:
  assumes "lru_inv c" "map_of (ll c) i = Some kv"
  shows "map item_of (list_MoveToFront i (ll c)) = spec_touch (entry_key kv) (items c)"
proof -
  have "index c (entry_key kv) = Some i"
    using assms linked_lookup [of entry_key "ll c" "index c" "nextElem c" "entry_key kv" i]
    by (auto simp: lru_inv_def dest: map_of_SomeD)
  then have "map_of (items c) (entry_key kv) = Some (entry_value kv, entry_expireAt kv)"
    using assms resident_index [OF assms(1), of "entry_key kv"] by (simp add: resident_def)
  then show ?thesis
    using assms map_item_of_Remove [OF assms(1) map_of_SomeD [OF assms(2)]]
    by (simp add: list_MoveToFront_def spec_touch_def item_of_def spec_remove_def)
qed

lemma items_size_touch:
  assumes "distinct (map fst xs)"
  shows "items_size vlen (spec_touch k xs) = items_size vlen xs"
proof (cases "map_of xs k")
  case (Some d)
  then have "(k, d) \<in> set xs" by (rule map_of_SomeD)
  with Some sum_list_drop_key [OF assms this, of "item_size vlen"] show ?thesis
    by (simp add: spec_touch_def items_size_def)
qed (simp add: spec_touch_def)

lemma MoveToFront_inv:
  assumes "lru_inv c"
  shows "lru_inv (c\<lparr>ll := list_MoveToFront i (ll c)\<rparr>)"
proof (cases "map_of (ll c) i")
  case None
  then show ?thesis using assms by (simp add: list_MoveToFront_def)
next
  case (Some kv)
  have "items (c\<lparr>ll := list_MoveToFront i (ll c)\<rparr>) = spec_touch (entry_key kv) (items c)"
    using map_item_of_MoveToFront [OF assms Some] by (simp add: items_def)
  then show ?thesis
    using assms items_size_touch [OF items_distinct [OF assms]]
    by (auto simp: lru_inv_def linked_MoveToFront split: option.splits)
qed


lemma Get_spec:
  assumes "lru_inv c"
  shows "fst (lru_Get now k c) = live_value now (resident c k)"
    and "items (snd (lru_Get now k c)) =
           (if live_value now (resident c k) = None then spec_remove k (items c)
            else spec_touch k (items c))"
    and "lru_inv (snd (lru_Get now k c))"
proof -
  obtain r c' where p: "lru_Peek now k c = (r, c')" by (cases "lru_Peek now k c")
  note spec = Peek_spec [OF assms, of now k, unfolded p, simplified]
  have "fst (lru_Get now k c) = live_value now (resident c k) \<and>
    items (snd (lru_Get now k c)) =
      (if live_value now (resident c k) = None then spec_remove k (items c)
       else spec_touch k (items c)) \<and>
    lru_inv (snd (lru_Get now k c))"
  proof (cases r)
    case None
    with p spec show ?thesis by (simp add: lru_Get_def)
  next
    case (Some v)
    with p have [simp]: "c' = c" by (auto dest: Peek_live)
    from spec(1) Some have "resident c k \<noteq> None"
      by (auto simp: live_value_def split: option.splits)
    then obtain i where i: "index c k = Some i"
      by (cases "index c k") (auto simp: resident_index [OF assms])
    then obtain kv where kv: "map_of (ll c) i = Some kv" "entry_key kv = k"
      using assms by (rule_tac lru_index)
    from spec(1) Some have "live_value now (resident c k) = Some v" by simp
    with Some i kv p show ?thesis
      using map_item_of_MoveToFront [OF assms kv(1)] MoveToFront_inv [OF assms, of i]
      by (simp add: lru_Get_def items_def)
  qed
  then show "fst (lru_Get now k c) = live_value now (resident c k)"
    and "items (snd (lru_Get now k c)) =
           (if live_value now (resident c k) = None then spec_remove k (items c)
            else spec_touch k (items c))"
    and "lru_inv (snd (lru_Get now k c))" by auto
qed

lemma Remove_spec:
  assumes "lru_inv c"
  shows "items (lru_Remove k c) = spec_remove k (items c)" and "lru_inv (lru_Remove k c)"
proof -
  have "items (lru_Remove k c) = spec_remove k (items c) \<and> lru_inv (lru_Remove k c)"
  proof (cases "index c k")
    case None
    then have "map_of (items c) k = None"
      using resident_index [OF assms, of k] by (simp add: resident_def)
    with None assms show ?thesis
      by (simp add: lru_Remove_def spec_remove_absent)
  next
    case (Some i)
    then obtain kv where "map_of (ll c) i = Some kv" "entry_key kv = k"
      using assms by (rule_tac lru_index)
    with Some assms show ?thesis
      by (auto simp: lru_Remove_def RemoveElement_items RemoveElement_inv)
  qed
  then show "items (lru_Remove k c) = spec_remove k (items c)" and "lru_inv (lru_Remove k c)"
    by auto
qed

lemma Peek_frame [simp]:
  "bytesTotal (snd (lru_Peek now k c)) = bytesTotal c"
  "valueLen (snd (lru_Peek now k c)) = valueLen c"
  by (simp_all add: lru_Peek_def split: option.split)

lemma Get_frame [simp]:
  "bytesTotal (snd (lru_Get now k c)) = bytesTotal c"
  "valueLen (snd (lru_Get now k c)) = valueLen c"
  by (cases "lru_Peek now k c"; use Peek_frame [of now k c] in
      \<open>auto simp del: Peek_frame simp: lru_Get_def split: option.split\<close>)+

lemma Remove_frame [simp]:
  "bytesTotal (lru_Remove k c) = bytesTotal c"
  "valueLen (lru_Remove k c) = valueLen c"
  by (simp_all add: lru_Remove_def split: option.split)

section \<open>Eviction\<close>

lemma item_size_nonneg [simp]: "0 \<le> item_size vlen x"
  by (simp add: item_size_def)

lemma items_size_nonneg [simp]: "0 \<le> items_size vlen xs"
  by (auto simp: items_size_def intro!: sum_list_nonneg)

lemma items_size_Nil [simp]: "items_size vlen [] = 0"
  by (simp add: items_size_def)

lemma items_size_Cons [simp]: "items_size vlen (x # xs) = item_size vlen x + items_size vlen xs"
  by (simp add: items_size_def)

lemma keep_fitting_all: "items_size vlen xs \<le> room \<Longrightarrow> keep_fitting vlen room xs = xs"
proof (induction xs arbitrary: room)
  case (Cons x xs)
  have "item_size vlen x \<le> room"
    using Cons.prems [unfolded items_size_Cons] items_size_nonneg [of vlen xs] by linarith
  with Cons show ?case by simp
qed simp

lemma keep_fitting_snoc:
  "room < items_size vlen (xs @ [x]) \<Longrightarrow> keep_fitting vlen room (xs @ [x]) = keep_fitting vlen room xs"
  by (induction xs arbitrary: room) (auto simp: items_size_def)

lemma keep_fitting_size: "0 \<le> room \<Longrightarrow> items_size vlen (keep_fitting vlen room xs) \<le> room"
proof (induction xs arbitrary: room)
  case (Cons x xs)
  from Cons.IH [of "room - item_size vlen x"] Cons.prems show ?case by auto
qed simp

lemma RemoveOldest_items:
  assumes "lru_inv c" "ll c \<noteq> []"
  shows "items (RemoveOldest c) = butlast (items c)"
proof -
  obtain i kv where l: "last (ll c) = (i, kv)" by (cases "last (ll c)")
  have mem: "(i, kv) \<in> set (ll c)"
    using assms(2) l last_in_set by metis
  then have "map_of (ll c) i = Some kv"
    using assms(1) by (simp add: lru_inv_def linked_def)
  then have "items (RemoveOldest c) = spec_remove (entry_key kv) (items c)"
    using assms l by (simp add: RemoveOldest_def list_Back_def RemoveElement_items)
  also have "entry_key kv = fst (last (items c))"
    using assms(2) l by (simp add: items_def last_map item_of_def)
  finally show ?thesis
    using assms items_distinct [OF assms(1)]
    by (simp add: spec_remove_def drop_key_last items_def)
qed

lemma RemoveOldest_inv [inv_intros]: "lru_inv c \<Longrightarrow> lru_inv (RemoveOldest c)"
  by (simp add: RemoveOldest_def RemoveElement_inv split: option.split)

lemma RemoveOldest_frame [simp]:
  "bytesTotal (RemoveOldest c) = bytesTotal c" "valueLen (RemoveOldest c) = valueLen c"
  by (simp_all add: RemoveOldest_def split: option.split)

definition evicted_to :: "('v, 'c) lru \<Rightarrow> ('v, 'c) lru \<Rightarrow> bool" where
  "evicted_to c c' \<longleftrightarrow>
     lru_inv c' \<and> lru_fits c' \<and> bytesTotal c' = bytesTotal c \<and> valueLen c' = valueLen c \<and>
     items c' = (if bytesTotal c = 0 then items c
                 else keep_fitting (valueLen c) (bytesTotal c) (items c))"

lemma evict_loop_returns:
  assumes "lru_inv c" "0 \<le> bytesTotal c"
  shows "\<exists>c'. evict_loop c = Some c' \<and> evicted_to c c'"
  using assms
proof (induction "length (ll c)" arbitrary: c rule: less_induct)
  case less
  show ?case
  proof (cases "bytesTotal c \<noteq> 0 \<and> byteNow c > bytesTotal c")
    case False
    with less.prems show ?thesis
      by (subst evict_loop.simps)
        (auto simp: evicted_to_def lru_fits_def lru_inv_def keep_fitting_all)
  next
    case True
    with less.prems have ne: "ll c \<noteq> []"
      by (auto simp: lru_inv_def items_def items_size_def)
    have "items (RemoveOldest c) = butlast (items c)"
      using less.prems(1) ne by (rule RemoveOldest_items)
    moreover from this ne have "length (ll (RemoveOldest c)) < length (ll c)"
      by (metis items_def length_butlast length_greater_0_conv length_map diff_less zero_less_one)
    then obtain c' where c': "evict_loop (RemoveOldest c) = Some c'" "evicted_to (RemoveOldest c) c'"
      using less by (metis RemoveOldest_inv RemoveOldest_frame(1))
    moreover have "keep_fitting (valueLen c) (bytesTotal c) (items c) =
        keep_fitting (valueLen c) (bytesTotal c) (butlast (items c))"
      using keep_fitting_snoc [of "bytesTotal c" "valueLen c" "butlast (items c)" "last (items c)"]
        True ne less.prems(1) by (simp add: lru_inv_def items_def)
    ultimately show ?thesis
      using True by (subst evict_loop.simps) (auto simp: evicted_to_def)
  qed
qed


section \<open>Insertion\<close>

lemma lru_insert_frame [simp]:
  "bytesTotal (lru_insert k v t c) = bytesTotal c"
  "valueLen (lru_insert k v t c) = valueLen c"
  "expireCursor (lru_insert k v t c) = expireCursor c"
  by (simp_all add: lru_insert_def split: option.split)

lemma lru_insert_new:
  assumes "lru_inv c" "index c k = None"
  shows "items (lru_insert k v t c) = (k, v, t) # spec_remove k (items c)"
    and "lru_inv (lru_insert k v t c)"
proof -
  have "map_of (items c) k = None"
    using assms resident_index [OF assms(1), of k] by (simp add: resident_def)
  then show it: "items (lru_insert k v t c) = (k, v, t) # spec_remove k (items c)"
    using assms(2)
    by (simp add: lru_insert_def items_def list_PushFront_def item_of_def spec_remove_absent)
  let ?e = "\<lparr>entry_key = k, entry_value = v, entry_expireAt = t\<rparr>"
  have "linked entry_key (list_PushFront (nextElem c) ?e (ll c)) ((index c)(k \<mapsto> nextElem c))
      (Suc (nextElem c))"
    using assms linked_PushFront [of entry_key "ll c" "index c" "nextElem c" ?e]
    by (simp add: lru_inv_def)
  moreover have "spec_remove k (items c) = items c"
    using \<open>map_of (items c) k = None\<close> by (rule spec_remove_absent)
  ultimately show "lru_inv (lru_insert k v t c)"
    using assms it
    by (auto simp: lru_inv_def lru_insert_def list_PushFront_def item_size_def
        split: option.splits)
qed

lemma lru_insert_old:
  assumes "lru_inv c" "index c k = Some i"
  shows "items (lru_insert k v t c) = (k, v, t) # spec_remove k (items c)"
    and "lru_inv (lru_insert k v t c)"
proof -
  obtain kv where kv: "map_of (ll c) i = Some kv" "entry_key kv = k" "(i, kv) \<in> set (ll c)"
    using assms by (rule lru_index)
  let ?new = "kv\<lparr>entry_value := v, entry_expireAt := t\<rparr>"
  let ?l = "list_SetValue i ?new (list_MoveToFront i (ll c))"
  have dist: "distinct (map fst (ll c))"
    using assms(1) by (simp add: lru_inv_def linked_def)
  have l: "?l = (i, ?new) # list_Remove i (ll c)"
    using kv(1) by (auto simp: list_MoveToFront_def list_SetValue_def list_Remove_def intro: map_idI)
  then show it: "items (lru_insert k v t c) = (k, v, t) # spec_remove k (items c)"
    using assms kv map_item_of_Remove [OF assms(1) kv(3)]
    by (simp add: lru_insert_def items_def item_of_def)
  have "map_of (list_MoveToFront i (ll c)) i = Some kv"
    using kv(1) by (simp add: list_MoveToFront_def)
  then have "linked entry_key ?l (index c) (nextElem c)"
    using assms(1) by (intro linked_SetValue linked_MoveToFront) (simp_all add: lru_inv_def)
  moreover have "items_size (valueLen c) (spec_remove k (items c)) =
      items_size (valueLen c) (items c) - item_size (valueLen c) (item_of (i, kv))"
    using items_size_remove [OF assms(1) kv(3)] kv(2) by simp
  ultimately show "lru_inv (lru_insert k v t c)"
    using assms it kv
    by (auto simp: lru_inv_def lru_insert_def item_size_def item_of_def split: option.splits)
qed

lemma lru_insert_spec:
  assumes "lru_inv c"
  shows "items (lru_insert k v t c) = (k, v, t) # spec_remove k (items c)"
    and "lru_inv (lru_insert k v t c)"
  using lru_insert_new [OF assms] lru_insert_old [OF assms] by (cases "index c k"; simp)+

lemma AddUntil_returns:
  assumes "lru_inv c" "0 \<le> bytesTotal c"
  shows "\<exists>c'. AddUntil k v t c = Some c' \<and> lru_inv c' \<and> lru_fits c' \<and>
           bytesTotal c' = bytesTotal c \<and> valueLen c' = valueLen c \<and>
           items c' = spec_add (valueLen c) (bytesTotal c) k v t (items c)"
proof -
  obtain c' where "evict_loop (lru_insert k v t c) = Some c'" "evicted_to (lru_insert k v t c) c'"
    using evict_loop_returns [of "lru_insert k v t c"] assms lru_insert_spec(2) [OF assms(1)]
    by auto
  then show ?thesis
    using lru_insert_spec(1) [OF assms(1), of k v t]
    by (auto simp: AddUntil_def evicted_to_def spec_add_def spec_remove_def)
qed

lemma keep_fitting_prefix: "\<exists>ys. xs = keep_fitting vlen room xs @ ys"
  by (induction xs arbitrary: room) auto

lemma keep_fitting_map_of:
  "map_of (keep_fitting vlen room xs) k = Some d \<Longrightarrow> distinct (map fst xs) \<Longrightarrow> map_of xs k = Some d"
  using keep_fitting_prefix [of xs vlen room]
  by (metis map_add_Some_iff map_of_append map_of_is_SomeI map_of_SomeD Un_iff set_append)

lemma spec_add_resident:
  assumes "distinct (map fst xs)" "map_of (spec_add vlen cap k v t xs) j = Some d"
  shows "if j = k then d = (v, t) else map_of xs j = Some d"
proof -
  let ?ys = "(k, v, t) # drop_key fst k xs"
  have "distinct (map fst ?ys)"
    using assms(1) by (auto simp: distinct_drop_key)
  then have "map_of ?ys j = Some d"
    using assms(2) keep_fitting_map_of [of vlen cap ?ys j d]
    by (auto simp: spec_add_def Let_def split: if_splits)
  then show ?thesis
    using resident_spec_remove [of k xs] by (auto simp: spec_remove_def split: if_splits)
qed

lemma spec_add_own:
  assumes "item_size vlen (k, v, t) \<le> cap \<or> cap = 0"
  shows "map_of (spec_add vlen cap k v t xs) k = Some (v, t)"
  using assms by (auto simp: spec_add_def Let_def)


section \<open>Expiry scan\<close>

definition live :: "gotime \<Rightarrow> 'v entry element \<Rightarrow> bool" where
  "live now x \<longleftrightarrow> \<not> expired now (snd x)"

lemma item_expired_of [simp]: "item_expired now (item_of x) \<longleftrightarrow> expired now (snd x)"
  by (auto simp: item_expired_def expired_def item_of_def time_defs)

lemma cursor_inv: "lru_inv c \<Longrightarrow> lru_inv (c\<lparr>expireCursor := list_Prev i (ll c)\<rparr>)"
  using list_Prev_mem [of i "ll c"] by (auto simp: lru_inv_def items_def split: option.split)

lemma cursor_None_inv: "lru_inv c \<Longrightarrow> lru_inv (c\<lparr>expireCursor := None\<rparr>)"
  by (simp add: lru_inv_def items_def)

lemma items_cursor [simp]: "items (c\<lparr>expireCursor := x\<rparr>) = items c"
  by (simp add: items_def)

lemma filter_spec_remove:
  assumes "distinct (map fst xs)" "(k, d) \<in> set xs" "\<not> P (k, d)"
  shows "filter P (spec_remove k xs) = filter P xs"
  using assms by (induction xs) (auto simp: spec_remove_def drop_key_id image_iff)

definition pruned_to :: "gotime \<Rightarrow> nat \<Rightarrow> ('v, 'c) lru \<Rightarrow> ('v, 'c) lru \<Rightarrow> bool" where
  "pruned_to now gone c c' \<longleftrightarrow>
     lru_inv c' \<and> subseq (items c') (items c) \<and> length (items c') + gone = length (items c) \<and>
     filter (\<lambda>x. \<not> item_expired now x) (items c') = filter (\<lambda>x. \<not> item_expired now x) (items c) \<and>
     bytesTotal c' = bytesTotal c \<and> valueLen c' = valueLen c"

lemma pruned_to_refl: "lru_inv c \<Longrightarrow> pruned_to now 0 c c"
  by (simp add: pruned_to_def)

lemma pruned_to_step:
  assumes "lru_inv c" "map_of (ll c) i = Some item" "expired now item"
  shows "pruned_to now 1 c (RemoveElement i c)"
proof -
  have mem: "item_of (i, item) \<in> set (items c)"
    using map_of_SomeD [OF assms(2)] by (simp add: items_def)
  then have "Suc (length (spec_remove (entry_key item) (items c))) = length (items c)"
    unfolding spec_remove_def
    by (intro length_drop_key items_distinct assms(1)) (force simp: item_of_def)
  moreover have "filter (\<lambda>x. \<not> item_expired now x) (spec_remove (entry_key item) (items c)) =
      filter (\<lambda>x. \<not> item_expired now x) (items c)"
    using mem assms(3) items_distinct [OF assms(1)] item_expired_of [of now "(i, item)"]
    by (intro filter_spec_remove [where d = "snd (item_of (i, item))"]) (auto simp: item_of_def)
  moreover have "subseq (spec_remove (entry_key item) (items c)) (items c)"
    by (simp add: spec_remove_def drop_key_def)
  ultimately show ?thesis
    using assms by (simp add: pruned_to_def RemoveElement_items RemoveElement_inv)
qed

lemma pruned_to_trans:
  "pruned_to now a c c' \<Longrightarrow> pruned_to now b c' c'' \<Longrightarrow> pruned_to now (a + b) c c''"
  by (auto simp: pruned_to_def intro: subseq_order.trans)

lemma prune_loop_spec:
  assumes "lru_inv c" "prune_loop clk deadline now n checked removed c = (checked', removed', c')"
  shows "checked \<le> checked' \<and> checked' \<le> checked + n \<and> removed \<le> removed' \<and>
         removed' - removed \<le> checked' - checked \<and> pruned_to now (removed' - removed) c c'"
  using assms
proof (induction n arbitrary: checked removed c)
  case 0
  then show ?case by (simp add: pruned_to_refl)
next
  case (Suc n)
  let ?cur = "if expireCursor c = None then list_Back (ll c) else expireCursor c"
  consider (stop) "\<not> Before (clk (Suc checked)) deadline"
    | (empty) "Before (clk (Suc checked)) deadline" "?cur = None"
    | (scan) i where "Before (clk (Suc checked)) deadline" "?cur = Some i"
    by (cases ?cur) auto
  then show ?case
  proof cases
    case stop
    with Suc.prems show ?thesis by (simp add: pruned_to_refl)
  next
    case empty
    with Suc.prems show ?thesis
      by (auto simp: pruned_to_def cursor_None_inv split: if_splits)
  next
    case (scan i)
    let ?c1 = "c\<lparr>expireCursor := list_Prev i (ll c)\<rparr>"
    have inv1: "lru_inv ?c1" using Suc.prems(1) by (rule cursor_inv)
    have "i \<in> fst ` set (ll c)"
      using scan(2) Suc.prems(1) list_Back_mem [of "ll c" i]
      by (auto simp: lru_inv_def split: if_splits)
    then obtain item where item: "map_of (ll c) i = Some item"
      by (metis domD dom_map_of_conv_image_fst)
    have c1: "pruned_to now 0 c ?c1"
      using inv1 by (simp add: pruned_to_def)
    show ?thesis
    proof (cases "expired now item")
      case True
      have "pruned_to now 1 c (RemoveElement i ?c1)"
        using pruned_to_trans [OF c1 pruned_to_step [OF inv1 _ True]] item by simp
      moreover have "prune_loop clk deadline now n (Suc checked) (Suc removed) (RemoveElement i ?c1) =
          (checked', removed', c')"
        using Suc.prems(2) scan item True by (simp add: Let_def)
      moreover have "lru_inv (RemoveElement i ?c1)" using inv1 by (rule RemoveElement_inv)
      ultimately show ?thesis
        using Suc.IH [of "RemoveElement i ?c1" "Suc checked" "Suc removed"]
          pruned_to_trans [of now 1 c "RemoveElement i ?c1" "removed' - Suc removed" c']
        by (auto simp: Suc_diff_Suc Suc_le_eq)
    next
      case False
      have "prune_loop clk deadline now n (Suc checked) removed ?c1 = (checked', removed', c')"
        using Suc.prems(2) scan item False by (simp add: Let_def)
      then show ?thesis
        using Suc.IH [OF inv1, of "Suc checked" removed]
          pruned_to_trans [OF c1, of "removed' - removed" c']
        by auto
    qed
  qed
qed


text \<open>
  A scan over a segment \<open>H\<close> of the list, from its last element to its first, removes exactly the
  expired elements of \<open>H\<close>. The cursor stands at the last element of \<open>F @ H\<close>, or is unset with
  \<open>H\<close> reaching the back of the list.
\<close>

definition cursor_at :: "('v, 'c) lru \<Rightarrow> 'v entry element list \<Rightarrow> 'v entry element list \<Rightarrow> bool" where
  "cursor_at c pre suf \<longleftrightarrow>
     expireCursor c = (if pre = [] then None else Some (fst (last pre))) \<or>
     (expireCursor c = None \<and> suf = [])"

lemma cursor_at_current:
  assumes "cursor_at c (pre @ [x]) suf" "ll c = (pre @ [x]) @ suf"
  shows "(if expireCursor c = None then list_Back (ll c) else expireCursor c) = Some (fst x)"
  using assms by (auto simp: cursor_at_def list_Back_def)

lemma list_Prev_mid:
  "distinct (map fst (pre @ x # suf)) \<Longrightarrow>
     list_Prev (fst x) (pre @ x # suf) = (if pre = [] then None else Some (fst (last pre)))"
proof (cases pre rule: rev_cases)
  case (snoc ys y)
  then show "distinct (map fst (pre @ x # suf)) \<Longrightarrow> ?thesis"
    using list_Prev_split [of ys y x suf] by simp
qed (use list_Prev_front [of x suf] in simp)

lemma prune_loop_scan:
  assumes clock: "\<And>j. Before (clk j) deadline"
    and "lru_inv c" "ll c = F @ H @ G" "cursor_at c (F @ H) G"
  shows "\<exists>c'. prune_loop clk deadline now (length H + m) checked removed c =
            prune_loop clk deadline now m (checked + length H)
              (removed + length (filter (\<lambda>x. \<not> live now x) H)) c' \<and>
          lru_inv c' \<and> ll c' = F @ filter (live now) H @ G \<and>
          cursor_at c' F (filter (live now) H @ G)"
  using assms(2-)
proof (induction H arbitrary: c checked removed G rule: rev_induct)
  case Nil
  then show ?case by auto
next
  case (snoc x H)
  obtain i item where x: "x = (i, item)" by (cases x)
  let ?c1 = "c\<lparr>expireCursor := list_Prev i (ll c)\<rparr>"
  have inv1: "lru_inv ?c1" using snoc.prems(1) by (rule cursor_inv)
  have dist: "distinct (map fst ((F @ H) @ x # G))"
    using snoc.prems(1,2) by (simp add: lru_inv_def linked_def)
  have cur: "(if expireCursor c = None then list_Back (ll c) else expireCursor c) = Some i"
    using cursor_at_current [of c "F @ H" x G] snoc.prems(2,3) x by simp
  have item: "map_of (ll c) i = Some item"
    using snoc.prems(1,2) x by (intro map_of_is_SomeI) (simp_all add: lru_inv_def linked_def)
  have prev: "list_Prev i (ll c) = (if F @ H = [] then None else Some (fst (last (F @ H))))"
    using list_Prev_mid [OF dist] snoc.prems(2) x by simp
  show ?case
  proof (cases "live now x")
    case True
    have "ll ?c1 = F @ H @ (x # G)" "cursor_at ?c1 (F @ H) (x # G)"
      using snoc.prems(2) prev by (simp_all add: cursor_at_def)
    from snoc.IH [OF inv1 this, of "Suc checked" removed]
    obtain c' where "prune_loop clk deadline now (length H + m) (Suc checked) removed ?c1 =
        prune_loop clk deadline now m (Suc checked + length H)
          (removed + length (filter (\<lambda>x. \<not> live now x) H)) c'"
      "lru_inv c'" "ll c' = F @ filter (live now) H @ x # G"
      "cursor_at c' F (filter (live now) H @ x # G)" by blast
    moreover from True x have "\<not> expired now item" by (simp add: live_def)
    ultimately show ?thesis
      using True cur item clock by (auto simp: Let_def)
  next
    case False
    let ?c2 = "RemoveElement i ?c1"
    have "ll ?c2 = F @ H @ G"
      using drop_key_split [OF dist] snoc.prems(2) x
      by (simp add: RemoveElement_ll list_Remove_def)
    moreover have "expireCursor ?c2 = list_Prev i (ll c)"
      using item list_Prev_neq [of "ll c" i i] snoc.prems(1)
      by (auto simp: RemoveElement_found(3) [of ?c1 i item] lru_inv_def linked_def)
    then have "cursor_at ?c2 (F @ H) G"
      using prev by (simp add: cursor_at_def)
    ultimately obtain c' where
      "prune_loop clk deadline now (length H + m) (Suc checked) (Suc removed) ?c2 =
        prune_loop clk deadline now m (Suc checked + length H)
          (Suc removed + length (filter (\<lambda>x. \<not> live now x) H)) c'"
      "lru_inv c'" "ll c' = F @ filter (live now) H @ G"
      "cursor_at c' F (filter (live now) H @ G)"
      using snoc.IH [OF RemoveElement_inv [OF inv1], of i G "Suc checked" "Suc removed"] by blast
    moreover from False x have "expired now item" by (simp add: live_def)
    ultimately show ?thesis
      using False cur item clock by (auto simp: Let_def)
  qed
qed

lemma prune_loop_full:
  assumes clock: "\<And>j. Before (clk j) deadline" and inv: "lru_inv c"
  shows "\<exists>c'. prune_loop clk deadline now (length (ll c)) 0 0 c =
            (length (ll c), length (filter (item_expired now) (items c)), c') \<and>
          lru_inv c' \<and> items c' = filter (\<lambda>x. \<not> item_expired now x) (items c)"
proof -
  obtain H B where HB: "ll c = H @ B" "cursor_at c H B"
  proof (cases "expireCursor c")
    case None
    then show ?thesis using that [of "ll c" "[]"] by (simp add: cursor_at_def)
  next
    case (Some i)
    then obtain x where "x \<in> set (ll c)" "fst x = i"
      using inv by (auto simp: lru_inv_def)
    then obtain ys zs where "ll c = (ys @ [x]) @ zs" using split_list by fastforce
    with that [of "ys @ [x]" zs] Some \<open>fst x = i\<close> show ?thesis by (simp add: cursor_at_def)
  qed
  let ?gone = "\<lambda>xs. length (filter (\<lambda>x. \<not> live now x) xs)"
  obtain c1 where c1: "prune_loop clk deadline now (length H + length B) 0 0 c =
      prune_loop clk deadline now (length B) (length H) (?gone H) c1"
    "lru_inv c1" "ll c1 = filter (live now) H @ B" "cursor_at c1 [] (filter (live now) H @ B)"
    using prune_loop_scan [where clk = clk, OF clock inv, where F = "[]" and H = H and G = B and now = now
        and m = "length B" and checked = 0 and removed = 0] HB by auto
  have "cursor_at c1 (filter (live now) H @ B) []"
    using c1(4) by (auto simp: cursor_at_def)
  then obtain c2 where "prune_loop clk deadline now (length B) (length H) (?gone H) c1 =
      (length H + length B, ?gone H + ?gone B, c2)"
    "lru_inv c2" "ll c2 = filter (live now) H @ filter (live now) B"
    using prune_loop_scan [where clk = clk, OF clock c1(2), where F = "filter (live now) H" and H = B and G = "[]"
        and now = now and m = 0 and checked = "length H" and removed = "?gone H"] c1(3) by auto
  with c1 HB show ?thesis
    by (auto simp: items_def filter_map comp_def live_def [abs_def])
qed


section \<open>Runs of operations\<close>

datatype 'v lru_op =
    OpGet gotime string
  | OpPeek gotime string
  | OpRemove string
  | OpRemoveOldest
  | OpAddUntil string 'v gotime
  | OpPrune "nat \<Rightarrow> gotime" gotime int duration

fun lru_step :: "'v lru_op \<Rightarrow> ('v, 'c) lru \<Rightarrow> ('v, 'c) lru option" where
  "lru_step (OpGet now k) c = Some (snd (lru_Get now k c))"
| "lru_step (OpPeek now k) c = Some (snd (lru_Peek now k c))"
| "lru_step (OpRemove k) c = Some (lru_Remove k c)"
| "lru_step OpRemoveOldest c = Some (RemoveOldest c)"
| "lru_step (OpAddUntil k v t) c = AddUntil k v t c"
| "lru_step (OpPrune clk now limit budget) c = Some (snd (snd (PruneExpired clk now limit budget c)))"

fun lru_added :: "'v lru_op \<Rightarrow> ('v, 'c) lru \<Rightarrow> (string \<times> 'v \<times> gotime) option" where
  "lru_added (OpAddUntil k v t) c = Some (k, v, t)"
| "lru_added _ c = None"

definition lru_ok :: "('v, 'c) lru \<Rightarrow> bool" where
  "lru_ok c \<longleftrightarrow> lru_inv c \<and> lru_fits c \<and> 0 \<le> bytesTotal c"

lemma items_size_subseq: "subseq xs ys \<Longrightarrow> items_size vlen xs \<le> items_size vlen ys"
proof (induction rule: list_emb.induct)
  case (list_emb_Cons xs ys y)
  from list_emb_Cons.IH item_size_nonneg [of vlen y]
  have "items_size vlen xs \<le> item_size vlen y + items_size vlen ys" by linarith
  then show ?case by simp
qed simp_all

lemma subseq_butlast: "subseq (butlast xs) xs"
  by (simp add: butlast_conv_take prefix_imp_subseq take_is_prefix)

lemma lru_ok_shrink:
  assumes "lru_ok c" "lru_inv c'" "bytesTotal c' = bytesTotal c" "valueLen c' = valueLen c"
    and "items_size (valueLen c) (items c') \<le> items_size (valueLen c) (items c)"
  shows "lru_ok c'"
  using assms by (auto simp: lru_ok_def lru_fits_def lru_inv_def)

lemma items_size_remove_le: "items_size vlen (spec_remove k xs) \<le> items_size vlen xs"
  by (rule items_size_subseq) (simp add: spec_remove_def drop_key_def)

lemma PruneExpired_pruned:
  assumes "lru_inv c" "PruneExpired clk now limit budget c = (checked, removed, c')"
  shows "checked \<le> min (nat limit) (length (ll c)) \<and> removed \<le> checked \<and> pruned_to now removed c c'"
  using assms prune_loop_spec [OF assms(1), of clk "clk 0 + budget" now
      "min (nat limit) (length (ll c))" 0 0 checked removed c']
  by (auto simp: PruneExpired_def pruned_to_refl split: if_splits)

lemma lru_step_ok:
  assumes "lru_ok c"
  shows "\<exists>c'. lru_step x c = Some c' \<and> lru_ok c'"
proof -
  from assms have inv: "lru_inv c" and cap: "0 \<le> bytesTotal c" by (simp_all add: lru_ok_def)
  have touch: "items_size (valueLen c) (spec_touch k (items c)) = items_size (valueLen c) (items c)" for k
    by (rule items_size_touch [OF items_distinct [OF inv]])
  show ?thesis
  proof (cases x)
    case (OpGet now k)
    then show ?thesis
      using Get_spec [OF inv, of now k] items_size_remove_le [of "valueLen c" k "items c"] touch [of k]
      by (auto intro!: lru_ok_shrink [OF assms])
  next
    case (OpPeek now k)
    then show ?thesis
      using Peek_spec [OF inv, of now k] items_size_remove_le [of "valueLen c" k "items c"]
      by (auto intro!: lru_ok_shrink [OF assms])
  next
    case (OpRemove k)
    then show ?thesis
      using Remove_spec [OF inv, of k] items_size_remove_le [of "valueLen c" k "items c"]
      by (auto intro!: lru_ok_shrink [OF assms])
  next
    case OpRemoveOldest
    have "items_size (valueLen c) (items (RemoveOldest c)) \<le> items_size (valueLen c) (items c)"
    proof (cases "ll c = []")
      case True
      then show ?thesis by (simp add: RemoveOldest_def list_Back_def)
    next
      case False
      then show ?thesis
        by (simp add: RemoveOldest_items [OF inv] items_size_subseq subseq_butlast)
    qed
    then show ?thesis
      using OpRemoveOldest RemoveOldest_inv [OF inv] by (auto intro!: lru_ok_shrink [OF assms])
  next
    case (OpAddUntil k v t)
    then show ?thesis
      using AddUntil_returns [OF inv cap, of k v t] cap by (auto simp: lru_ok_def)
  next
    case (OpPrune clk now limit budget)
    then show ?thesis
      using PruneExpired_pruned [OF inv, of clk now limit budget]
      by (cases "PruneExpired clk now limit budget c")
        (auto simp: pruned_to_def intro!: lru_ok_shrink [OF assms] items_size_subseq)
  qed
qed

lemma resident_subseq:
  assumes "subseq xs ys" "distinct (map fst ys)" "map_of xs k = Some d"
  shows "map_of ys k = Some d"
proof -
  have "set xs \<subseteq> set ys"
    using assms(1) by (induction rule: list_emb.induct) auto
  with map_of_SomeD [OF assms(3)] have "(k, d) \<in> set ys" by blast
  with assms(2) show ?thesis by simp
qed

lemma resident_touch: "distinct (map fst xs) \<Longrightarrow> map_of (spec_touch k xs) = map_of xs"
  by (auto simp: spec_touch_def fun_eq_iff resident_spec_remove [unfolded spec_remove_def]
      split: option.split)

lemma lru_step_resident:
  assumes "lru_ok c" "lru_step x c = Some c'" "resident c' k = Some d"
  shows "resident c k = Some d \<or> lru_added x c = Some (k, d)"
proof -
  from assms(1) have inv: "lru_inv c" and cap: "0 \<le> bytesTotal c" by (simp_all add: lru_ok_def)
  note dist = items_distinct [OF inv]
  show ?thesis
  proof (cases x)
    case (OpGet now j)
    then show ?thesis
      using assms Get_spec(2) [OF inv, of now j] resident_touch [OF dist, of j]
      by (auto simp: resident_def resident_spec_remove split: if_splits)
  next
    case (OpPeek now j)
    then show ?thesis
      using assms Peek_spec(2) [OF inv, of now j]
      by (auto simp: resident_def resident_spec_remove split: if_splits)
  next
    case (OpRemove j)
    then show ?thesis
      using assms Remove_spec(1) [OF inv, of j]
      by (auto simp: resident_def resident_spec_remove split: if_splits)
  next
    case OpRemoveOldest
    show ?thesis
    proof (cases "ll c = []")
      case True
      then show ?thesis
        using assms OpRemoveOldest by (simp add: RemoveOldest_def list_Back_def)
    next
      case False
      then have "subseq (items c') (items c)"
        using assms OpRemoveOldest by (auto simp: RemoveOldest_items [OF inv] subseq_butlast)
      with assms dist show ?thesis
        unfolding resident_def by (blast dest: resident_subseq)
    qed
  next
    case (OpAddUntil j v t)
    then show ?thesis
      using assms AddUntil_returns [OF inv cap, of j v t]
        spec_add_resident [OF dist, of "valueLen c" "bytesTotal c" j v t k d]
      by (auto simp: resident_def split: if_splits)
  next
    case (OpPrune clk now limit budget)
    then have "subseq (items c') (items c)"
      using assms PruneExpired_pruned [OF inv, of clk now limit budget]
      by (cases "PruneExpired clk now limit budget c") (auto simp: pruned_to_def)
    with assms dist show ?thesis
      unfolding resident_def by (blast dest: resident_subseq)
  qed
qed

interpretation lru_store: lossy_store lru_ok resident lru_step lru_added
proof
  show "\<exists>c'. lru_step x c = Some c' \<and> lru_ok c'" if "lru_ok c"
    for x :: "'a lru_op" and c :: "('a, 'b) lru"
    using that by (rule lru_step_ok)
  show "resident c k = Some d \<or> lru_added x c = Some (k, d)"
    if "lru_ok c" "lru_step x c = Some c'" "resident c' k = Some d"
    for x :: "'a lru_op" and c c' :: "('a, 'b) lru" and k d
    using that by (rule lru_step_resident)
qed

lemma lru_New_ok: "0 \<le> cap \<Longrightarrow> lru_ok (lru_New vlen cap cb env)"
  by (simp add: lru_ok_def lru_New_def lru_inv_def lru_fits_def items_def)


section \<open>Properties\<close>

text \<open>
  C10: starting from a new cache with a nonnegative capacity, every sequence of lookups, insertions,
  removals and expiry scans returns (the eviction loop never spins), and leaves the index, the
  list, the byte count and the scan cursor consistent and the byte count within the capacity.
\<close>

theorem lru_run_safe:
  assumes "0 \<le> cap"
  shows "\<exists>c. run_ops lru_step ops (lru_New vlen cap cb env) = Some c \<and> lru_inv c \<and> lru_fits c"
  using lru_store.run_returns [OF lru_New_ok [OF assms], of ops vlen cb env]
  by (auto simp: lru_ok_def)

theorem lru_run_safe_witness:
  "(0::int) \<le> 8 \<and>
   (\<exists>c. run_ops lru_step
          [OpAddUntil ''a'' ''12345'' 9, OpAddUntil ''b'' ''123'' 0, OpGet 3 ''a'',
           OpPrune (\<lambda>j. int j) 9 4 7]
          (lru_New length 8 (Some (\<lambda>_ _ n. n + 1)) (0::nat)) = Some c \<and> lru_inv c \<and> lru_fits c)"
  by (intro conjI lru_run_safe) simp_all

text \<open>
  C4: inserting or updating an entry refines the reference operation on item sequences: the call
  returns, the entry moves to the front with its new value and deadline, every other entry keeps
  its place, and exactly the least recently used suffix that does not fit is dropped; an entry no
  larger than the capacity is found afterwards.
\<close>

theorem AddUntil_refines:
  assumes "lru_inv c" "0 \<le> bytesTotal c"
  shows "\<exists>c'. AddUntil k v t c = Some c' \<and> lru_inv c' \<and> lru_fits c' \<and>
           items c' = spec_add (valueLen c) (bytesTotal c) k v t (items c) \<and>
           (int (length k + valueLen c v) \<le> bytesTotal c \<or> bytesTotal c = 0 \<longrightarrow>
              resident c' k = Some (v, t))"
  using AddUntil_returns [OF assms, of k v t]
    spec_add_own [of "valueLen c" k v t "bytesTotal c" "items c"]
  by (auto simp: resident_def item_size_def)

definition lru_example :: "(string, nat) lru" where
  "lru_example =
     \<lparr>bytesTotal = 8, byteNow = 7,
      ll = [(1, \<lparr>entry_key = ''b'', entry_value = ''12'', entry_expireAt = 50\<rparr>),
            (0, \<lparr>entry_key = ''a'', entry_value = ''123'', entry_expireAt = 20\<rparr>)],
      index = [''b'' \<mapsto> 1, ''a'' \<mapsto> 0], onEvicted = Some (\<lambda>_ _ n. n + 1), captured = 0,
      valueLen = length, expireCursor = Some 1, nextElem = 2\<rparr>"

lemma lru_example_inv: "lru_inv lru_example"
  by (simp add: lru_example_def lru_inv_def linked_def items_def item_of_def items_size_def
      item_size_def fun_upd_twist)

theorem AddUntil_refines_witness:
  "lru_inv lru_example \<and>
   (\<exists>c'. AddUntil ''c'' ''1'' 70 lru_example = Some c' \<and>
     items c' = [(''c'', ''1'', 70), (''b'', ''12'', 50)] \<and>
     resident c' ''c'' = Some (''1'', 70))"
  using AddUntil_refines [OF lru_example_inv, of "''c''" "''1''" 70] lru_example_inv
  by (auto simp: lru_example_def spec_add_def items_def item_of_def item_size_def)

text \<open>
  C13: a lookup returns the resident value exactly when its deadline is unset or still ahead; a hit
  moves the entry to the front and changes no deadline, an expired entry is removed, and nothing
  else changes.
\<close>

theorem Get_refines:
  assumes "lru_inv c"
  shows "lru_inv (snd (lru_Get now k c)) \<and>
         fst (lru_Get now k c) = live_value now (resident c k) \<and>
         items (snd (lru_Get now k c)) =
           (if live_value now (resident c k) = None then spec_remove k (items c)
            else spec_touch k (items c))"
  using Get_spec [OF assms] by simp

theorem Get_refines_witness:
  "fst (lru_Get 20 ''a'' lru_example) = None \<and>
   items (snd (lru_Get 20 ''a'' lru_example)) = [(''b'', ''12'', 50)] \<and>
   fst (lru_Get 19 ''a'' lru_example) = Some ''123'' \<and>
   items (snd (lru_Get 19 ''a'' lru_example)) = [(''a'', ''123'', 20), (''b'', ''12'', 50)]"
  using Get_refines [OF lru_example_inv, of 20 "''a''"] Get_refines [OF lru_example_inv, of 19 "''a''"]
  by (simp add: lru_example_def live_value_def resident_def items_def item_of_def spec_remove_def
      spec_touch_def)

text \<open>
  C14: an expiry scan checks at most the given number of entries and at most one pass over the list,
  removes only expired entries, and keeps every unexpired entry in its place; a scan that has the
  budget for a full pass removes exactly the expired entries, wherever its cursor starts.
\<close>

theorem PruneExpired_exact:
  assumes "lru_inv c" "PruneExpired clk now limit budget c = (checked, removed, c')"
  shows "checked \<le> min (nat limit) (length (ll c)) \<and> removed \<le> checked \<and> pruned_to now removed c c' \<and>
         (0 < limit \<and> int (length (ll c)) \<le> limit \<and> 0 < budget \<and> (\<forall>j. clk j < clk 0 + budget) \<longrightarrow>
            items c' = filter (\<lambda>x. \<not> item_expired now x) (items c))"
proof -
  have "items c' = filter (\<lambda>x. \<not> item_expired now x) (items c)"
    if "0 < limit" "int (length (ll c)) \<le> limit" "0 < budget" "\<And>j. clk j < clk 0 + budget"
  proof -
    have "min (nat limit) (length (ll c)) = length (ll c)" using that(2) by linarith
    then show ?thesis
      using prune_loop_full [of clk "clk 0 + budget" c now] that assms
      by (auto simp: PruneExpired_def Before_def)
  qed
  then show ?thesis using PruneExpired_pruned [OF assms] by blast
qed

theorem PruneExpired_exact_witness:
  "items (snd (snd (PruneExpired (\<lambda>_. 100) 30 128 2000000 lru_example))) = [(''b'', ''12'', 50)]"
  using PruneExpired_exact [OF lru_example_inv, of "\<lambda>_. 100" 30 128 2000000
      "fst (PruneExpired (\<lambda>_. 100) 30 128 2000000 lru_example)"
      "fst (snd (PruneExpired (\<lambda>_. 100) 30 128 2000000 lru_example))"
      "snd (snd (PruneExpired (\<lambda>_. 100) 30 128 2000000 lru_example))"]
  by (simp add: lru_example_def items_def item_of_def item_expired_def)

end
