(* ===== verification/Cache_Errors.thy ===== *)
theory Cache_Errors
  imports Go_Text
begin

text \<open>
  \<open>internal/cache/errors.go\<close>: the value bound, the classification of errors into metric results,
  and the validation every key passes before it reaches the cache or a source.
\<close>

definition MaxValueBytes :: nat where
  "MaxValueBytes = 2 ^ 20"

definition Result :: "goerror option \<Rightarrow> string" where
  "Result err =
     (case err of
        None \<Rightarrow> ''ok''
      | Some e \<Rightarrow>
          if errors_Is e ErrNotFound then ''not_found''
          else if errors_Is e ErrOverloaded then ''overloaded''
          else if errors_Is e ErrStaleVersion then ''stale_version''
          else if errors_Is e ErrPreconditionFailed then ''precondition_failed''
          else if errors_Is e DeadlineExceeded \<or> errors_Is e Canceled then ''timeout''
          else ''error'')"

definition ValidateKey :: "string \<Rightarrow> goerror option" where
  "ValidateKey key =
     (if length key = 0 \<or> length key > 256 \<or> \<not> ValidString key \<or> char_of (0::nat) \<in> set key
      then Some ErrInvalidKey else None)"

lemma ValidateKey_error: "ValidateKey key = Some e \<Longrightarrow> e = ErrInvalidKey"
  by (simp add: ValidateKey_def split: if_splits)

lemma ValidateKey_None:
  "ValidateKey key = None \<longleftrightarrow>
     1 \<le> length key \<and> length key \<le> 256 \<and> ValidString key \<and> char_of (0::nat) \<notin> set key"
  by (auto simp: ValidateKey_def Suc_le_eq)

lemma Result_ok: "Result err = ''ok'' \<longleftrightarrow> err = None"
  by (simp add: Result_def split: option.split)

end
