(* ===== verification/Cache_Store.thy ===== *)
theory Cache_Store
  imports LRU Cache_Errors
begin

text \<open>
  \<open>internal/cache/cache.go\<close>: immutable byte views and the locked, byte-limited cache around the
  LRU. Each method runs under \<open>cache.mu\<close>, so each is one atomic state change; the argument
  \<open>busy\<close> of \<open>cleanExpired\<close> says whether another goroutine holds the lock. The counter
  \<open>evictions\<close> is the variable captured by the removal callback, so it lives in the LRU the
  callback was given to and is zero before that LRU exists.
\<close>

section \<open>Byte views\<close>

record ByteView =
  view_b :: bytes
  view_expiresAt :: gotime
  view_version :: int

definition emptyView :: ByteView where
  "emptyView = \<lparr>view_b = [], view_expiresAt = 0, view_version = 0\<rparr>"

definition Version :: "ByteView \<Rightarrow> int" where
  "Version bv = view_version bv"

definition RemainingTTL :: "gotime \<Rightarrow> ByteView \<Rightarrow> duration" where
  "RemainingTTL now bv =
     (if IsZero (view_expiresAt bv) then 0 else max 0 (view_expiresAt bv - now))"

definition viewLen :: "ByteView \<Rightarrow> nat" where
  "viewLen bv = length (view_b bv)"

definition cloneBytes :: "bytes \<Rightarrow> bytes" where
  "cloneBytes input = input"

definition ByteSlice :: "ByteView \<Rightarrow> bytes" where
  "ByteSlice bv = cloneBytes (view_b bv)"

text \<open>
  \<open>WriteTo\<close> hands the bytes to a writer, a function from the bytes to the count it wrote and
  its error; a short write without an error becomes \<open>io.ErrShortWrite\<close>.
\<close>

definition WriteTo :: "(bytes \<Rightarrow> nat \<times> goerror option) \<Rightarrow> ByteView \<Rightarrow> int \<times> goerror option" where
  "WriteTo w bv =
     (case w (view_b bv) of
        (n, err) \<Rightarrow>
          (int n, if err = None \<and> n < length (view_b bv) then Some (NewError ''short write'') else err))"

section \<open>The locked cache\<close>

record cache =
  cache_lru :: "(ByteView, 64 word) lru option"
  cacheBytes :: int

definition evictions :: "cache \<Rightarrow> 64 word" where
  "evictions c = (case cache_lru c of None \<Rightarrow> 0 | Some l \<Rightarrow> captured l)"

definition cache_remove :: "string \<Rightarrow> cache \<Rightarrow> cache" where
  "cache_remove key c =
     (case cache_lru c of None \<Rightarrow> c | Some l \<Rightarrow> c\<lparr>cache_lru := Some (lru_Remove key l)\<rparr>)"

definition lazy_lru :: "cache \<Rightarrow> (ByteView, 64 word) lru" where
  "lazy_lru c =
     (case cache_lru c of
        None \<Rightarrow> lru_New viewLen (cacheBytes c) (Some (\<lambda>_ _ n. n + 1)) 0
      | Some l \<Rightarrow> l)"

text \<open>The two clock readings of \<open>add\<close>: the first fixes the deadline, the second checks it.\<close>

definition cache_add ::
  "gotime \<Rightarrow> gotime \<Rightarrow> string \<Rightarrow> ByteView \<Rightarrow> duration \<Rightarrow> cache \<Rightarrow> (ByteView \<times> cache) option" where
  "cache_add t1 t2 key value ttl c =
     (if int (length key + viewLen value) > cacheBytes c
      then Some (value\<lparr>view_expiresAt := 0\<rparr>, cache_remove key c)
      else
        (let d = t1 + ttl;
             deadline = (if \<not> IsZero (view_expiresAt value) \<and> Before (view_expiresAt value) d
                         then view_expiresAt value else d)
         in if \<not> After deadline t2 then Some (value, cache_remove key c)
            else
              (let value' = value\<lparr>view_expiresAt := deadline\<rparr>
               in case AddUntil key value' deadline (lazy_lru c) of
                    None \<Rightarrow> None
                  | Some l \<Rightarrow> Some (value', c\<lparr>cache_lru := Some l\<rparr>))))"

record Stats =
  VersionRecords :: nat
  VersionCapacity :: nat
  VersionEvictions :: "64 word"
  stats_Bytes :: int
  stats_Capacity :: int
  stats_Entries :: nat
  stats_Removals :: "64 word"

definition cache_stats :: "cache \<Rightarrow> Stats" where
  "cache_stats c =
     \<lparr>VersionRecords = 0, VersionCapacity = 0, VersionEvictions = 0,
      stats_Bytes = (case cache_lru c of None \<Rightarrow> 0 | Some l \<Rightarrow> lru_Bytes l),
      stats_Capacity = cacheBytes c,
      stats_Entries = (case cache_lru c of None \<Rightarrow> 0 | Some l \<Rightarrow> lru_Len l),
      stats_Removals = evictions c\<rparr>"

definition cache_get :: "gotime \<Rightarrow> string \<Rightarrow> cache \<Rightarrow> ByteView option \<times> cache" where
  "cache_get now key c =
     (case cache_lru c of
        None \<Rightarrow> (None, c)
      | Some l \<Rightarrow> (case lru_Get now key l of (v, l') \<Rightarrow> (v, c\<lparr>cache_lru := Some l'\<rparr>)))"

definition cache_version :: "gotime \<Rightarrow> string \<Rightarrow> cache \<Rightarrow> int \<times> cache" where
  "cache_version now key c =
     (case cache_lru c of
        None \<Rightarrow> (0, c)
      | Some l \<Rightarrow>
          (case lru_Peek now key l of
             (v, l') \<Rightarrow> (case v of None \<Rightarrow> 0 | Some x \<Rightarrow> Version x, c\<lparr>cache_lru := Some l'\<rparr>)))"

definition cleanupBudget :: duration where
  "cleanupBudget = 2 * Millisecond"

definition cleanExpired ::
  "bool \<Rightarrow> (nat \<Rightarrow> gotime) \<Rightarrow> gotime \<Rightarrow> int \<Rightarrow> cache \<Rightarrow> (nat \<times> nat \<times> bool) \<times> cache" where
  "cleanExpired busy clk now limit c =
     (if busy then ((0, 0, True), c)
      else
        (case cache_lru c of
           None \<Rightarrow> ((0, 0, False), c)
         | Some l \<Rightarrow>
             (case PruneExpired clk now limit cleanupBudget l of
                (checked, removed, l') \<Rightarrow>
                  ((checked, removed, False), c\<lparr>cache_lru := Some l'\<rparr>))))"

section \<open>Invariant\<close>

text \<open>
  The LRU exists with the configured capacity or not at all, and every stored view carries the
  deadline its LRU entry has.
\<close>

definition cached :: "cache \<Rightarrow> string \<rightharpoonup> ByteView \<times> gotime" where
  "cached c = (case cache_lru c of None \<Rightarrow> Map.empty | Some l \<Rightarrow> resident l)"

definition cache_inv :: "cache \<Rightarrow> bool" where
  "cache_inv c \<longleftrightarrow>
     0 \<le> cacheBytes c \<and>
     (case cache_lru c of
        None \<Rightarrow> True
      | Some l \<Rightarrow> lru_ok l \<and> bytesTotal l = cacheBytes c \<and> valueLen l = viewLen) \<and>
     (\<forall>k v t. cached c k = Some (v, t) \<longrightarrow> view_expiresAt v = t)"

definition live_view :: "gotime \<Rightarrow> string \<Rightarrow> cache \<Rightarrow> ByteView option" where
  "live_view now key c = live_value now (cached c key)"

definition live_version :: "gotime \<Rightarrow> string \<Rightarrow> cache \<Rightarrow> int" where
  "live_version now key c = (case live_view now key c of None \<Rightarrow> 0 | Some v \<Rightarrow> Version v)"

section \<open>Operations on the cached entries\<close>

text \<open>
  Every method is one call of the LRU, or leaves the LRU alone. \<open>over_lru\<close> states this once; the
  invariant and what is cached afterwards then follow from the laws of the LRU.
\<close>

definition over_lru :: "ByteView lru_op \<Rightarrow> cache \<Rightarrow> cache option" where
  "over_lru x c = map_option (\<lambda>l. c\<lparr>cache_lru := Some l\<rparr>) (lru_step x (lazy_lru c))"

lemma cache_inv_New: "0 \<le> n \<Longrightarrow> cache_inv \<lparr>cache_lru = None, cacheBytes = n\<rparr>"
  by (simp add: cache_inv_def cached_def)

lemma lru_New_empty: "resident (lru_New vlen cap cb env) = Map.empty"
  by (simp add: lru_New_def resident_def items_def)

lemma lazy_lru_ok:
  assumes "cache_inv c"
  shows "lru_ok (lazy_lru c)" "bytesTotal (lazy_lru c) = cacheBytes c" "valueLen (lazy_lru c) = viewLen"
    and "resident (lazy_lru c) = cached c"
proof -
  have "lru_ok (lazy_lru c) \<and> bytesTotal (lazy_lru c) = cacheBytes c \<and> valueLen (lazy_lru c) = viewLen"
    using assms lru_New_ok [of "cacheBytes c" viewLen]
    by (auto simp: lazy_lru_def cache_inv_def lru_New_def split: option.splits)
  then show "lru_ok (lazy_lru c)" "bytesTotal (lazy_lru c) = cacheBytes c" "valueLen (lazy_lru c) = viewLen"
    by auto
  show "resident (lazy_lru c) = cached c"
    by (simp add: lazy_lru_def cached_def lru_New_empty split: option.split)
qed

lemma PruneExpired_frame:
  assumes "lru_inv l"
  shows "bytesTotal (snd (snd (PruneExpired clk now limit budget l))) = bytesTotal l"
    and "valueLen (snd (snd (PruneExpired clk now limit budget l))) = valueLen l"
  using PruneExpired_pruned [OF assms, of clk now limit budget]
  by (cases "PruneExpired clk now limit budget l"; simp add: pruned_to_def)+

lemma lru_step_frame:
  assumes "lru_ok l" "lru_step x l = Some l'"
  shows "bytesTotal l' = bytesTotal l \<and> valueLen l' = valueLen l"
proof (cases x)
  case (OpAddUntil k v t)
  with assms show ?thesis using AddUntil_returns [of l k v t] by (auto simp: lru_ok_def)
qed (use assms PruneExpired_frame [of l] in \<open>auto simp: lru_ok_def\<close>)

lemma over_lru_inv:
  assumes "cache_inv c" "\<And>k v t. lru_added x (lazy_lru c) = Some (k, v, t) \<Longrightarrow> view_expiresAt v = t"
  shows "\<exists>c'. over_lru x c = Some c' \<and> cache_inv c' \<and> cacheBytes c' = cacheBytes c \<and>
           (\<forall>k d. cached c' k = Some d \<longrightarrow> cached c k = Some d \<or> lru_added x (lazy_lru c) = Some (k, d))"
proof -
  note lazy = lazy_lru_ok [OF assms(1)]
  obtain l where l: "lru_step x (lazy_lru c) = Some l" "lru_ok l"
    using lru_step_ok [OF lazy(1)] by blast
  have frame: "bytesTotal l = cacheBytes c" "valueLen l = viewLen"
    using lru_step_frame [OF lazy(1) l(1)] lazy by simp_all
  have orig: "cached c k = Some d \<or> lru_added x (lazy_lru c) = Some (k, d)" if "resident l k = Some d" for k d
    using lru_step_resident [OF lazy(1) l(1) that] lazy(4) by simp
  have "view_expiresAt v = t" if "resident l k = Some (v, t)" for k v t
    using orig [OF that] assms by (auto simp: cache_inv_def)
  with l frame orig assms(1) show ?thesis
    by (auto simp: over_lru_def cache_inv_def cached_def)
qed

lemmas over_lru_defs = over_lru_def lazy_lru_def

lemma cache_get_over:
  "cache_lru c \<noteq> None \<Longrightarrow> over_lru (OpGet now key) c = Some (snd (cache_get now key c))"
  by (auto simp: over_lru_defs cache_get_def split: prod.split)

lemma cache_version_over:
  "cache_lru c \<noteq> None \<Longrightarrow> over_lru (OpPeek now key) c = Some (snd (cache_version now key c))"
  by (auto simp: over_lru_defs cache_version_def split: prod.split)

lemma cache_remove_over:
  "cache_lru c \<noteq> None \<Longrightarrow> over_lru (OpRemove key) c = Some (cache_remove key c)"
  by (auto simp: over_lru_defs cache_remove_def)

lemma cleanExpired_over:
  "cache_lru c \<noteq> None \<Longrightarrow> \<not> busy \<Longrightarrow>
     over_lru (OpPrune clk now limit cleanupBudget) c = Some (snd (cleanExpired busy clk now limit c))"
  by (auto simp: over_lru_defs cleanExpired_def split: prod.split)

definition keeps :: "cache \<Rightarrow> cache \<Rightarrow> bool" where
  "keeps c c' \<longleftrightarrow> cache_inv c' \<and> cacheBytes c' = cacheBytes c \<and> cached c' \<subseteq>\<^sub>m cached c"

lemma keeps_refl: "cache_inv c \<Longrightarrow> keeps c c"
  by (simp add: keeps_def)

lemma keeps_trans: "keeps a b \<Longrightarrow> keeps b c \<Longrightarrow> keeps a c"
  using map_le_trans by (auto simp: keeps_def)

lemma over_lru_keeps:
  assumes "cache_inv c" "lru_added x (lazy_lru c) = None" "over_lru x c = Some c'"
  shows "keeps c c'"
  using over_lru_inv [OF assms(1), of x] assms(2,3)
  by (auto simp: keeps_def map_le_def dom_def)

lemma cache_get_keeps [inv_intros]: "cache_inv c \<Longrightarrow> keeps c (snd (cache_get now key c))"
proof (cases "cache_lru c = None")
  case True
  then show "cache_inv c \<Longrightarrow> ?thesis" by (auto simp: keeps_refl cache_get_def)
next
  case False
  then show "cache_inv c \<Longrightarrow> ?thesis" by (auto intro!: over_lru_keeps [OF _ _ cache_get_over] simp del: not_None_eq)
qed

lemma cache_version_keeps [inv_intros]: "cache_inv c \<Longrightarrow> keeps c (snd (cache_version now key c))"
proof (cases "cache_lru c = None")
  case True
  then show "cache_inv c \<Longrightarrow> ?thesis" by (auto simp: keeps_refl cache_version_def)
next
  case False
  then show "cache_inv c \<Longrightarrow> ?thesis" by (auto intro!: over_lru_keeps [OF _ _ cache_version_over] simp del: not_None_eq)
qed

lemma cache_remove_keeps [inv_intros]: "cache_inv c \<Longrightarrow> keeps c (cache_remove key c)"
proof (cases "cache_lru c = None")
  case True
  then show "cache_inv c \<Longrightarrow> ?thesis" by (auto simp: keeps_refl cache_remove_def)
next
  case False
  then show "cache_inv c \<Longrightarrow> ?thesis" by (auto intro!: over_lru_keeps [OF _ _ cache_remove_over] simp del: not_None_eq)
qed

lemma cleanExpired_keeps [inv_intros]: "cache_inv c \<Longrightarrow> keeps c (snd (cleanExpired busy clk now limit c))"
proof (cases "cache_lru c = None \<or> busy")
  case True
  then show "cache_inv c \<Longrightarrow> ?thesis" by (auto simp: keeps_refl cleanExpired_def)
next
  case False
  then show "cache_inv c \<Longrightarrow> ?thesis" by (auto intro!: over_lru_keeps [OF _ _ cleanExpired_over] simp del: not_None_eq)
qed

lemma cached_upd [simp]: "cached (c\<lparr>cache_lru := Some l\<rparr>) = resident l"
  by (simp add: cached_def)

lemma cache_inv_lru: "cache_inv c \<Longrightarrow> cache_lru c = Some l \<Longrightarrow> lru_ok l \<and> lru_inv l \<and> resident l = cached c"
  by (simp add: cache_inv_def lru_ok_def cached_def)

lemma cache_get_view: "cache_inv c \<Longrightarrow> fst (cache_get now key c) = live_view now key c"
proof (cases "cache_lru c")
  case (Some l)
  assume "cache_inv c"
  from cache_inv_lru [OF this Some] Some show ?thesis
    using Get_spec(1) [of l now key] by (auto simp: cache_get_def live_view_def split: prod.splits)
qed (auto simp: cache_get_def live_view_def cached_def live_value_def)

lemma cache_version_live: "cache_inv c \<Longrightarrow> fst (cache_version now key c) = live_version now key c"
proof (cases "cache_lru c")
  case (Some l)
  assume "cache_inv c"
  from cache_inv_lru [OF this Some] Some show ?thesis
    using Peek_spec(1) [of l now key]
    by (auto simp: cache_version_def live_version_def live_view_def split: prod.splits option.splits)
qed (auto simp: cache_version_def live_version_def live_view_def cached_def live_value_def)

definition drop_dead :: "gotime \<Rightarrow> string \<Rightarrow> (string \<rightharpoonup> ByteView \<times> gotime) \<Rightarrow> (string \<rightharpoonup> ByteView \<times> gotime)" where
  "drop_dead now key m = (if live_value now (m key) = None then m(key := None) else m)"

lemma cache_get_cached: "cache_inv c \<Longrightarrow> cached (snd (cache_get now key c)) = drop_dead now key (cached c)"
proof (cases "cache_lru c")
  case (Some l)
  assume "cache_inv c"
  note l = cache_inv_lru [OF this Some]
  then show ?thesis
    using Some Get_spec [of l now key] resident_touch [OF items_distinct, of l key]
    by (auto simp: cache_get_def drop_dead_def resident_def resident_spec_remove split: prod.splits)
qed (auto simp: cache_get_def drop_dead_def cached_def)

lemma cache_version_cached:
  "cache_inv c \<Longrightarrow> cached (snd (cache_version now key c)) = drop_dead now key (cached c)"
proof (cases "cache_lru c")
  case (Some l)
  assume "cache_inv c"
  note l = cache_inv_lru [OF this Some]
  then show ?thesis
    using Some Peek_spec [of l now key]
    by (auto simp: cache_version_def drop_dead_def resident_def resident_spec_remove split: prod.splits)
qed (auto simp: cache_version_def drop_dead_def cached_def)

lemma cache_remove_cached: "cache_inv c \<Longrightarrow> cached (cache_remove key c) = (cached c)(key := None)"
proof (cases "cache_lru c")
  case (Some l)
  assume "cache_inv c"
  note l = cache_inv_lru [OF this Some]
  then show ?thesis
    using Some Remove_spec(1) [of l key]
    by (auto simp: cache_remove_def resident_def resident_spec_remove)
qed (auto simp: cache_remove_def cached_def)

lemma live_value_drop_dead [simp]: "live_value now (drop_dead now key m key) = live_value now (m key)"
  by (simp add: drop_dead_def live_value_def)

lemma drop_dead_le: "drop_dead now key m \<subseteq>\<^sub>m m"
  by (auto simp: drop_dead_def map_le_def)

section \<open>Insertion\<close>

text \<open>The deadline \<open>add\<close> computes, and the branch it takes.\<close>

definition add_deadline :: "gotime \<Rightarrow> duration \<Rightarrow> ByteView \<Rightarrow> gotime" where
  "add_deadline t1 ttl value =
     (if view_expiresAt value \<noteq> 0 \<and> view_expiresAt value < t1 + ttl
      then view_expiresAt value else t1 + ttl)"

definition add_stores :: "gotime \<Rightarrow> gotime \<Rightarrow> string \<Rightarrow> ByteView \<Rightarrow> duration \<Rightarrow> cache \<Rightarrow> bool" where
  "add_stores t1 t2 key value ttl c \<longleftrightarrow>
     int (length key + viewLen value) \<le> cacheBytes c \<and> t2 < add_deadline t1 ttl value"

lemma viewLen_deadline [simp]: "viewLen (v\<lparr>view_expiresAt := t\<rparr>) = viewLen v"
  by (simp add: viewLen_def)

lemma Version_deadline [simp]: "Version (v\<lparr>view_expiresAt := t\<rparr>) = Version v"
  by (simp add: Version_def)

lemma cache_add_skips:
  assumes "\<not> add_stores t1 t2 key value ttl c"
  shows "\<exists>t. cache_add t1 t2 key value ttl c = Some (value\<lparr>view_expiresAt := t\<rparr>, cache_remove key c)"
  using assms
  by (auto simp: add_stores_def add_deadline_def cache_add_def Let_def time_defs not_less
      intro: exI [of _ "view_expiresAt value"])

lemma cache_add_stores:
  assumes "add_stores t1 t2 key value ttl c"
  defines "t \<equiv> add_deadline t1 ttl value"
  shows "cache_add t1 t2 key value ttl c =
           map_option (\<lambda>c'. (value\<lparr>view_expiresAt := t\<rparr>, c'))
             (over_lru (OpAddUntil key (value\<lparr>view_expiresAt := t\<rparr>) t) c)"
  using assms
  by (auto simp: add_stores_def add_deadline_def cache_add_def over_lru_def Let_def time_defs
      split: option.split)

lemma cache_add_returns:
  assumes "cache_inv c"
  shows "\<exists>t c'. cache_add t1 t2 key value ttl c = Some (value\<lparr>view_expiresAt := t\<rparr>, c') \<and>
           cache_inv c' \<and> cacheBytes c' = cacheBytes c \<and>
           (\<forall>j. j \<noteq> key \<longrightarrow> cached c' j = cached c j \<or> cached c' j = None) \<and>
           (if add_stores t1 t2 key value ttl c
            then t = add_deadline t1 ttl value \<and> cached c' key = Some (value\<lparr>view_expiresAt := t\<rparr>, t)
            else cached c' key = None)"
proof (cases "add_stores t1 t2 key value ttl c")
  case False
  with cache_add_skips [OF this] cache_remove_keeps [OF assms, of key] cache_remove_cached [OF assms, of key]
  show ?thesis by (auto simp: keeps_def)
next
  case True
  define t where "t = add_deadline t1 ttl value"
  let ?v = "value\<lparr>view_expiresAt := t\<rparr>"
  obtain c' where c': "over_lru (OpAddUntil key ?v t) c = Some c'" "cache_inv c'" "cacheBytes c' = cacheBytes c"
    and orig: "\<And>k d. cached c' k = Some d \<Longrightarrow> cached c k = Some d \<or> (k, d) = (key, ?v, t)"
    using over_lru_inv [OF assms, of "OpAddUntil key ?v t"] by auto
  note lazy = lazy_lru_ok [OF assms]
  have "cached c' key = Some (?v, t)"
    using AddUntil_returns [of "lazy_lru c" key ?v t] lazy c'(1) True
      spec_add_own [of viewLen key ?v t "cacheBytes c" "items (lazy_lru c)"]
    by (auto simp: over_lru_def lru_ok_def resident_def item_size_def add_stores_def)
  moreover have "cached c' j = cached c j \<or> cached c' j = None" if "j \<noteq> key" for j
    using orig [of j] that by (cases "cached c' j") auto
  ultimately show ?thesis
    using cache_add_stores [OF True] c' True by (auto simp: t_def)
qed

section \<open>The cache as a store\<close>

datatype cache_op =
    CGet gotime string
  | CVersion gotime string
  | CRemove string
  | CAdd gotime gotime string ByteView duration
  | CClean bool "nat \<Rightarrow> gotime" gotime int

fun cache_step :: "cache_op \<Rightarrow> cache \<Rightarrow> cache option" where
  "cache_step (CGet now k) c = Some (snd (cache_get now k c))"
| "cache_step (CVersion now k) c = Some (snd (cache_version now k c))"
| "cache_step (CRemove k) c = Some (cache_remove k c)"
| "cache_step (CAdd t1 t2 k v ttl) c = map_option snd (cache_add t1 t2 k v ttl c)"
| "cache_step (CClean busy clk now limit) c = Some (snd (cleanExpired busy clk now limit c))"

fun cache_added :: "cache_op \<Rightarrow> cache \<Rightarrow> (string \<times> ByteView \<times> gotime) option" where
  "cache_added (CAdd t1 t2 k v ttl) c =
     (if add_stores t1 t2 k v ttl c
      then Some (k, v\<lparr>view_expiresAt := add_deadline t1 ttl v\<rparr>, add_deadline t1 ttl v) else None)"
| "cache_added _ c = None"

lemma keeps_found: "keeps c c' \<Longrightarrow> cached c' k = Some d \<Longrightarrow> cached c k = Some d"
  by (auto simp: keeps_def map_le_def domI dest!: bspec [of _ _ k])

lemma keeps_live: "keeps c c' \<Longrightarrow> live_view now key c = None \<Longrightarrow> live_view now key c' = None"
  by (cases "cached c' key") (auto simp: live_view_def live_value_def dest: keeps_found)

lemma cache_step_spec:
  assumes "cache_inv c"
  shows "\<exists>c'. cache_step x c = Some c' \<and> cache_inv c' \<and> cacheBytes c' = cacheBytes c \<and>
           (\<forall>k d. cached c' k = Some d \<longrightarrow> cached c k = Some d \<or> cache_added x c = Some (k, d))"
proof -
  have shrink: "?thesis" if "cache_step x c = Some c'" "keeps c c'" for c'
    using that keeps_found [OF that(2)] by (auto simp: keeps_def)
  show ?thesis
  proof (cases x)
    case (CAdd t1 t2 key v ttl)
    obtain t c' where add: "cache_add t1 t2 key v ttl c = Some (v\<lparr>view_expiresAt := t\<rparr>, c')" "cache_inv c'"
        "cacheBytes c' = cacheBytes c"
      and oth: "\<And>j. j \<noteq> key \<Longrightarrow> cached c' j = cached c j \<or> cached c' j = None"
      and own: "if add_stores t1 t2 key v ttl c
                then t = add_deadline t1 ttl v \<and> cached c' key = Some (v\<lparr>view_expiresAt := t\<rparr>, t)
                else cached c' key = None"
      using cache_add_returns [OF assms, of t1 t2 key v ttl] by blast
    have "cached c k = Some d \<or> cache_added x c = Some (k, d)" if "cached c' k = Some d" for k d
      using oth [of k] own that CAdd by (cases "k = key") (auto split: if_splits)
    with add CAdd show ?thesis by auto
  qed (rule shrink, simp, simp add: assms cache_get_keeps cache_version_keeps cache_remove_keeps
      cleanExpired_keeps)+
qed

interpretation cache_store: lossy_store cache_inv cached cache_step cache_added
proof
  show "\<exists>c'. cache_step x c = Some c' \<and> cache_inv c'" if "cache_inv c" for x c
    using cache_step_spec [OF that, of x] by blast
  show "cached c k = Some d \<or> cache_added x c = Some (k, d)"
    if "cache_inv c" "cache_step x c = Some c'" "cached c' k = Some d" for x c c' k d
    using cache_step_spec [OF that(1), of x] that(2,3) by (cases d) auto
qed

section \<open>Properties\<close>

definition newCache :: "int \<Rightarrow> cache" where
  "newCache capacity = \<lparr>cache_lru = None, cacheBytes = capacity\<rparr>"

lemma newCache_inv: "0 \<le> capacity \<Longrightarrow> cache_inv (newCache capacity)"
  by (simp add: newCache_def cache_inv_New)

lemma newCache_cached [simp]: "cached (newCache capacity) = Map.empty"
  by (simp add: newCache_def cached_def)

lemma live_view_cached:
  "live_view now key c = Some v \<Longrightarrow> \<exists>t. cached c key = Some (v, t) \<and> (t = 0 \<or> now < t)"
  by (auto simp: live_view_def live_value_def split: option.splits if_splits)

lemma cache_added_CAdd:
  assumes "cache_added x c = Some (key, v, t)"
  shows "\<exists>t1 t2 w ttl. x = CAdd t1 t2 key w ttl \<and> add_stores t1 t2 key w ttl c \<and>
           t = add_deadline t1 ttl w \<and> v = w\<lparr>view_expiresAt := t\<rparr>"
  using assms by (cases x) (auto split: if_splits)

lemma cache_add_finds:
  assumes "cache_inv c" "0 \<le> t2" "int (length key + viewLen v) \<le> cacheBytes c \<and> t2 < add_deadline t1 ttl v"
  shows "\<exists>w c'. cache_add t1 t2 key v ttl c = Some (w, c') \<and> fst (cache_get t2 key c') = Some w"
proof -
  obtain t c' where add: "cache_add t1 t2 key v ttl c = Some (v\<lparr>view_expiresAt := t\<rparr>, c')" "cache_inv c'"
      "t = add_deadline t1 ttl v" "cached c' key = Some (v\<lparr>view_expiresAt := t\<rparr>, t)"
    using cache_add_returns [OF assms(1), of t1 t2 key v ttl] assms(3) by (auto simp: add_stores_def)
  with cache_get_view [OF add(2), of t2 key] assms(2,3) show ?thesis
    by (simp add: live_view_def live_value_def)
qed

text \<open>
  C11: what a lookup finds was put there. After any sequence of lookups, insertions, removals and
  expiry scans on a new cache, a view that a lookup at time \<open>now\<close> returns has the bytes and the
  version of an earlier insertion under the same key, and its deadline, which is at most the
  insertion time plus the time to live, has not passed.
\<close>

theorem cache_get_provenance:
  assumes "0 \<le> capacity" "run_ops cache_step ops (newCache capacity) = Some c"
    and "fst (cache_get now key c) = Some v"
    and "\<forall>x \<in> set ops. \<forall>t1 t2 k w ttl. x = CAdd t1 t2 k w ttl \<longrightarrow> 0 \<le> t2"
  shows "\<exists>t1 t2 w ttl. CAdd t1 t2 key w ttl \<in> set ops \<and> view_b v = view_b w \<and> Version v = Version w \<and>
           now < view_expiresAt v \<and> view_expiresAt v \<le> t1 + ttl"
proof -
  note inv = newCache_inv [OF assms(1)]
  have "cache_inv c"
    using cache_store.run_returns [OF inv, of ops] assms(2) by simp
  then have "live_view now key c = Some v"
    using assms(3) by (simp add: cache_get_view)
  then obtain t where t: "cached c key = Some (v, t)" "t = 0 \<or> now < t"
    using live_view_cached by blast
  obtain pre x post u where x: "ops = pre @ x # post" "cache_added x u = Some (key, v, t)"
    using cache_store.run_found [OF inv assms(2) t(1)] by auto
  then obtain t1 t2 w ttl where w: "x = CAdd t1 t2 key w ttl" "add_stores t1 t2 key w ttl u"
      "t = add_deadline t1 ttl w" "v = w\<lparr>view_expiresAt := t\<rparr>"
    using cache_added_CAdd by blast
  with x assms(4) have "0 \<le> t2" by auto
  with w t(2) x(1) show ?thesis
    by (intro exI [of _ t1] exI [of _ t2] exI [of _ w] exI [of _ ttl])
      (auto simp: add_stores_def add_deadline_def split: if_splits)
qed

definition sampleView :: ByteView where
  "sampleView = \<lparr>view_b = ''abc'', view_expiresAt = 0, view_version = 7\<rparr>"

text \<open>
  C12: an insertion that fits and is not already expired is found by every lookup before its deadline
  and by none from the deadline on; the deadline is the earlier of the time to live and the deadline
  the view came with. Insertions that do not fit or come too late leave no entry under the key.
  Every insertion returns, keeps the invariant and leaves the other keys' entries alone or evicts them.
\<close>

theorem cache_add_then_get:
  assumes "cache_inv c" "0 \<le> t2"
  shows "\<exists>v c'. cache_add t1 t2 key value ttl c = Some (v, c') \<and> cache_inv c' \<and>
           view_b v = view_b value \<and> Version v = Version value \<and>
           (if int (length key + viewLen value) \<le> cacheBytes c \<and> t2 < add_deadline t1 ttl value
            then view_expiresAt v = add_deadline t1 ttl value \<and>
                 (\<forall>now. fst (cache_get now key c') = (if now < add_deadline t1 ttl value then Some v else None))
            else \<forall>now. fst (cache_get now key c') = None) \<and>
           (\<forall>j now. j \<noteq> key \<longrightarrow> fst (cache_get now j c') \<in> {fst (cache_get now j c), None})"
proof -
  obtain t c' where add: "cache_add t1 t2 key value ttl c = Some (value\<lparr>view_expiresAt := t\<rparr>, c')" "cache_inv c'"
    and oth: "\<And>j. j \<noteq> key \<Longrightarrow> cached c' j = cached c j \<or> cached c' j = None"
    and own: "if add_stores t1 t2 key value ttl c
              then t = add_deadline t1 ttl value \<and> cached c' key = Some (value\<lparr>view_expiresAt := t\<rparr>, t)
              else cached c' key = None"
    using cache_add_returns [OF assms(1), of t1 t2 key "value" ttl] by blast
  have found: "fst (cache_get now j c') = live_value now (cached c' j)" for now j
    using cache_get_view [OF add(2)] by (simp add: live_view_def)
  have found_c: "fst (cache_get now j c) = live_value now (cached c j)" for now j
    using cache_get_view [OF assms(1)] by (simp add: live_view_def)
  have "fst (cache_get now j c') \<in> {fst (cache_get now j c), None}" if "j \<noteq> key" for now j
    using oth [OF that] by (auto simp: found found_c live_value_def [of _ None])
  moreover have "if add_stores t1 t2 key value ttl c
      then t = add_deadline t1 ttl value \<and>
        (\<forall>now. fst (cache_get now key c') = (if now < t then Some (value\<lparr>view_expiresAt := t\<rparr>) else None))
      else \<forall>now. fst (cache_get now key c') = None"
    using own assms(2) by (auto simp: found live_value_def add_stores_def split: if_splits)
  ultimately show ?thesis
    using add by (auto simp: add_stores_def Version_def split: if_splits)
qed

theorem cache_add_then_get_witness:
  "\<exists>v c'. cache_add 100 101 ''k'' sampleView 50 (newCache 64) = Some (v, c') \<and> cache_inv c' \<and>
     view_expiresAt v = 150 \<and> fst (cache_get 149 ''k'' c') = Some v \<and> fst (cache_get 150 ''k'' c') = None"
proof -
  have "int (length ''k'' + viewLen sampleView) \<le> cacheBytes (newCache 64)"
    "add_deadline 100 50 sampleView = 150"
    by (simp_all add: sampleView_def viewLen_def newCache_def add_deadline_def)
  then show ?thesis
    using cache_add_then_get [OF newCache_inv [of 64], of 101 100 "''k''" sampleView 50] by auto
qed

theorem cache_get_provenance_witness:
  "\<exists>c v. run_ops cache_step [CAdd 100 101 ''k'' sampleView 50, CVersion 120 ''k'', CRemove ''j''] (newCache 64) = Some c \<and>
     fst (cache_get 149 ''k'' c) = Some v \<and> view_b v = ''abc'' \<and> Version v = 7 \<and> 149 < view_expiresAt v"
proof -
  let ?ops = "[CAdd 100 101 ''k'' sampleView 50, CVersion 120 ''k'', CRemove ''j'']"
  obtain v c1 where c1: "cache_add 100 101 ''k'' sampleView 50 (newCache 64) = Some (v, c1)" "cache_inv c1"
      "cached c1 ''k'' = Some (v, 150)"
    using cache_add_returns [OF newCache_inv [of 64], of 100 101 "''k''" sampleView 50]
    by (auto simp: add_stores_def sampleView_def viewLen_def newCache_def add_deadline_def)
  define c2 where "c2 = snd (cache_version 120 ''k'' c1)"
  have c2: "cache_inv c2" "cached c2 ''k'' = Some (v, 150)"
    using cache_version_keeps [OF c1(2), of 120 "''k''"] cache_version_cached [OF c1(2), of 120 "''k''"] c1(3)
    by (simp_all add: c2_def keeps_def drop_dead_def live_value_def)
  define c3 where "c3 = cache_remove ''j'' c2"
  have c3: "cache_inv c3" "cached c3 ''k'' = Some (v, 150)"
    using cache_remove_keeps [OF c2(1), of "''j''"] cache_remove_cached [OF c2(1), of "''j''"] c2(2)
    by (simp_all add: c3_def keeps_def)
  have run: "run_ops cache_step ?ops (newCache 64) = Some c3"
    by (simp add: c1 c2_def c3_def)
  have got: "fst (cache_get 149 ''k'' c3) = Some v"
    by (simp add: cache_get_view [OF c3(1)] live_view_def c3 live_value_def)
  from cache_get_provenance [OF _ run got] run got show ?thesis
    by (auto simp: sampleView_def Version_def)
qed

end
