(* ===== verification/Admission.thy ===== *)
theory Admission
  imports Go_Prelude
begin

text \<open>
  \<open>internal/cache/admission.go\<close>: the limiter in front of the source. A buffered channel used as a
  semaphore is its occupancy and its capacity. \<open>acquire\<close> may block in its last \<open>select\<close>, so
  it is split there: \<open>acquire_start\<close> runs up to the blocking point, \<open>acquire_wake\<close> is one
  attempt of the \<open>select\<close>, and \<open>acquire_leave\<close> is the deferred receive that gives up the place
  in the queue. \<open>limiter_step\<close> interleaves any number of callers.
\<close>

section \<open>The limiter\<close>

record SourceLimiter =
  slots :: nat
  slots_cap :: nat
  waiting :: nat
  waiting_cap :: nat

definition DefaultSourcePending :: int where
  "DefaultSourcePending = 128"

definition NewSourceLimiterWithQueue :: "int \<Rightarrow> int \<Rightarrow> string + SourceLimiter" where
  "NewSourceLimiterWithQueue limit maxPending =
     (if limit \<le> 0 \<or> maxPending < 0 then Inl ''invalid source concurrency or queue capacity''
      else Inr \<lparr>slots = 0, slots_cap = nat limit, waiting = 0, waiting_cap = nat maxPending\<rparr>)"

definition NewSourceLimiter :: "int \<Rightarrow> string + SourceLimiter" where
  "NewSourceLimiter limit = NewSourceLimiterWithQueue limit DefaultSourcePending"

datatype acquire_phase = Returned "goerror option" | Queued

definition acquire_start :: "gocontext \<Rightarrow> gotime \<Rightarrow> SourceLimiter \<Rightarrow> acquire_phase \<times> SourceLimiter" where
  "acquire_start ctx now l =
     (case ctx_Err ctx now of
        Some err \<Rightarrow> (Returned (Some err), l)
      | None \<Rightarrow>
          if slots l < slots_cap l then (Returned None, l\<lparr>slots := slots l + 1\<rparr>)
          else if waiting l < waiting_cap l then (Queued, l\<lparr>waiting := waiting l + 1\<rparr>)
          else (Returned (Some ErrOverloaded), l))"

text \<open>
  When a slot is free and the context is done, Go picks a case at random: \<open>slotFirst\<close> is that
  choice. \<^term>\<open>None\<close> means that neither case is ready and the caller stays blocked.
\<close>

definition acquire_wake ::
  "gocontext \<Rightarrow> gotime \<Rightarrow> bool \<Rightarrow> SourceLimiter \<Rightarrow> (goerror option \<times> SourceLimiter) option" where
  "acquire_wake ctx now slotFirst l =
     (if slots l < slots_cap l \<and> (slotFirst \<or> ctx_Err ctx now = None)
      then Some (None, l\<lparr>slots := slots l + 1\<rparr>)
      else case ctx_Err ctx now of
             Some err \<Rightarrow> Some (Some err, l)
           | None \<Rightarrow> None)"

text \<open>A receive from a buffered channel; \<^term>\<open>None\<close> when it is empty and the receive blocks.\<close>

definition acquire_leave :: "SourceLimiter \<Rightarrow> SourceLimiter option" where
  "acquire_leave l = (if waiting l = 0 then None else Some (l\<lparr>waiting := waiting l - 1\<rparr>))"

definition limiter_release :: "SourceLimiter \<Rightarrow> SourceLimiter option" where
  "limiter_release l = (if slots l = 0 then None else Some (l\<lparr>slots := slots l - 1\<rparr>))"

text \<open>
  One whole call: \<open>others\<close> is what the other goroutines do to the limiter while this caller is
  queued, until the wake-up at \<open>now'\<close>.
\<close>

definition acquire ::
  "gocontext \<Rightarrow> gotime \<Rightarrow> (SourceLimiter \<Rightarrow> SourceLimiter) \<Rightarrow> gotime \<Rightarrow> bool \<Rightarrow> SourceLimiter \<Rightarrow>
   (goerror option \<times> SourceLimiter) option" where
  "acquire ctx now others now' slotFirst l =
     (case acquire_start ctx now l of
        (Returned err, l') \<Rightarrow> Some (err, l')
      | (Queued, l') \<Rightarrow>
          (case acquire_wake ctx now' slotFirst (others l') of
             None \<Rightarrow> None
           | Some (err, l'') \<Rightarrow> map_option (Pair err) (acquire_leave l'')))"

section \<open>Interleaved callers\<close>

datatype caller =
    Fresh
  | Waiting gocontext
  | Leaving "goerror option"
  | Holding
  | Finished "goerror option"

fun holds :: "caller \<Rightarrow> bool" where
  "holds Holding = True"
| "holds (Leaving None) = True"
| "holds _ = False"

fun queues :: "caller \<Rightarrow> bool" where
  "queues (Waiting _) = True"
| "queues (Leaving _) = True"
| "queues _ = False"

fun returned :: "goerror option \<Rightarrow> caller" where
  "returned None = Holding"
| "returned (Some err) = Finished (Some err)"

inductive limiter_step :: "SourceLimiter \<times> caller list \<Rightarrow> SourceLimiter \<times> caller list \<Rightarrow> bool" where
  start_returned: "\<lbrakk> i < length cs; cs ! i = Fresh; acquire_start ctx now l = (Returned err, l') \<rbrakk>
    \<Longrightarrow> limiter_step (l, cs) (l', cs[i := returned err])"
| start_queued: "\<lbrakk> i < length cs; cs ! i = Fresh; acquire_start ctx now l = (Queued, l') \<rbrakk>
    \<Longrightarrow> limiter_step (l, cs) (l', cs[i := Waiting ctx])"
| wake: "\<lbrakk> i < length cs; cs ! i = Waiting ctx; acquire_wake ctx now slotFirst l = Some (err, l') \<rbrakk>
    \<Longrightarrow> limiter_step (l, cs) (l', cs[i := Leaving err])"
| leave: "\<lbrakk> i < length cs; cs ! i = Leaving err; acquire_leave l = Some l' \<rbrakk>
    \<Longrightarrow> limiter_step (l, cs) (l', cs[i := returned err])"
| release: "\<lbrakk> i < length cs; cs ! i = Holding; limiter_release l = Some l' \<rbrakk>
    \<Longrightarrow> limiter_step (l, cs) (l', cs[i := Finished None])"

definition how_many :: "('a \<Rightarrow> bool) \<Rightarrow> 'a list \<Rightarrow> nat" where
  "how_many P xs = length (filter P xs)"

lemma how_many_update:
  "i < length xs \<Longrightarrow>
     how_many P (xs[i := x]) + (if P (xs ! i) then 1 else 0) = how_many P xs + (if P x then 1 else 0)"
proof (induction xs arbitrary: i)
  case (Cons a xs)
  then show ?case by (cases i) (auto simp: how_many_def)
qed simp

lemma how_many_replicate [simp]: "how_many P (replicate n x) = (if P x then n else 0)"
  by (simp add: how_many_def)

lemma how_many_pos: "i < length xs \<Longrightarrow> P (xs ! i) \<Longrightarrow> 0 < how_many P xs"
  by (metis filter_empty_conv how_many_def length_greater_0_conv nth_mem)

definition limiter_inv :: "SourceLimiter \<times> caller list \<Rightarrow> bool" where
  "limiter_inv s \<longleftrightarrow>
     (case s of (l, cs) \<Rightarrow>
        slots l = how_many holds cs \<and> waiting l = how_many queues cs \<and>
        slots l \<le> slots_cap l \<and> waiting l \<le> waiting_cap l)"

lemma returned_simps [simp]: "holds (returned err) \<longleftrightarrow> err = None" "\<not> queues (returned err)"
  by (cases err; simp)+

lemma holds_Leaving [simp]: "holds (Leaving err) \<longleftrightarrow> err = None"
  by (cases err) simp_all

lemmas limiter_defs = acquire_start_def acquire_wake_def acquire_leave_def limiter_release_def

lemma limiter_step_inv:
  assumes "limiter_step s s'" "limiter_inv s"
  shows "limiter_inv s'"
  using assms
proof (induction rule: limiter_step.induct)
  case (start_returned i cs ctx now l err l')
  then show ?case
    using how_many_update [of i cs holds "returned err"] how_many_update [of i cs queues "returned err"]
    by (auto simp: limiter_inv_def limiter_defs split: option.splits if_splits)
next
  case (start_queued i cs ctx now l l')
  then show ?case
    using how_many_update [of i cs holds "Waiting ctx"] how_many_update [of i cs queues "Waiting ctx"]
    by (auto simp: limiter_inv_def limiter_defs split: option.splits if_splits)
next
  case (wake i cs ctx now slotFirst l err l')
  then show ?case
    using how_many_update [of i cs holds "Leaving err"] how_many_update [of i cs queues "Leaving err"]
    by (auto simp: limiter_inv_def limiter_defs split: option.splits if_splits)
next
  case (leave i cs err l l')
  then show ?case
    using how_many_update [of i cs holds "returned err"] how_many_update [of i cs queues "returned err"]
    by (auto simp: limiter_inv_def limiter_defs split: option.splits if_splits)
next
  case (release i cs l l')
  then show ?case
    using how_many_update [of i cs holds "Finished None"] how_many_update [of i cs queues "Finished None"]
    by (auto simp: limiter_inv_def limiter_defs split: option.splits if_splits)
qed

lemma limiter_step_caps:
  "limiter_step s s' \<Longrightarrow> slots_cap (fst s') = slots_cap (fst s) \<and> waiting_cap (fst s') = waiting_cap (fst s)"
  by (induction rule: limiter_step.induct)
    (auto simp: limiter_defs split: option.splits if_splits)

lemma limiter_reachable_inv:
  assumes "limiter_step\<^sup>*\<^sup>* s s'" "limiter_inv s"
  shows "limiter_inv s' \<and> slots_cap (fst s') = slots_cap (fst s) \<and> waiting_cap (fst s') = waiting_cap (fst s)"
  using assms by (induction rule: rtranclp_induct) (auto dest: limiter_step_inv limiter_step_caps)

section \<open>Properties\<close>

text \<open>
  C8: however any number of callers interleave, the limiter never lets more than \<open>limit\<close> of them
  execute nor more than \<open>maxPending\<close> of them wait, its two channels hold exactly one token per
  executing and per waiting caller, so that a release or the deferred receive never blocks, and
  when every caller has finished both channels are empty again.
\<close>

theorem limiter_bounds:
  assumes "NewSourceLimiterWithQueue limit maxPending = Inr l0"
    and "limiter_step\<^sup>*\<^sup>* (l0, replicate n Fresh) (l, cs)"
  shows "int (how_many holds cs) \<le> limit \<and> int (how_many queues cs) \<le> maxPending \<and>
         (\<forall>i < length cs. cs ! i = Holding \<longrightarrow> limiter_release l \<noteq> None) \<and>
         (\<forall>i < length cs. \<forall>err. cs ! i = Leaving err \<longrightarrow> acquire_leave l \<noteq> None) \<and>
         ((\<forall>c \<in> set cs. c = Fresh \<or> (\<exists>err. c = Finished err)) \<longrightarrow> slots l = 0 \<and> waiting l = 0)"
proof -
  have l0: "l0 = \<lparr>slots = 0, slots_cap = nat limit, waiting = 0, waiting_cap = nat maxPending\<rparr>"
    "0 < limit" "0 \<le> maxPending"
    using assms(1) by (auto simp: NewSourceLimiterWithQueue_def split: if_splits)
  then have "limiter_inv (l0, replicate n Fresh)"
    by (simp add: limiter_inv_def)
  from limiter_reachable_inv [OF assms(2) this] l0
  have inv: "slots l = how_many holds cs" "waiting l = how_many queues cs"
    "int (slots l) \<le> limit" "int (waiting l) \<le> maxPending"
    by (auto simp: limiter_inv_def)
  have "limiter_release l \<noteq> None" if "i < length cs" "cs ! i = Holding" for i
    using how_many_pos [of i cs holds] that inv by (simp add: limiter_release_def)
  moreover have "acquire_leave l \<noteq> None" if "i < length cs" "cs ! i = Leaving err" for i err
    using how_many_pos [of i cs queues] that inv by (simp add: acquire_leave_def)
  moreover have "slots l = 0 \<and> waiting l = 0" if "\<forall>c \<in> set cs. c = Fresh \<or> (\<exists>err. c = Finished err)"
  proof -
    have "filter holds cs = []" "filter queues cs = []"
      using that by (auto simp: filter_empty_conv)
    with inv show ?thesis by (simp add: how_many_def)
  qed
  ultimately show ?thesis using inv by auto
qed

text \<open>
  The run of the witness: with one slot and one queue place, the first caller executes, the second
  waits and the third is turned away.
\<close>

lemma limiter_example_run:
  defines "l0 \<equiv> \<lparr>slots = 0, slots_cap = 1, waiting = 0, waiting_cap = 1\<rparr>"
  shows "limiter_step\<^sup>*\<^sup>* (l0, replicate 3 Fresh)
           (l0\<lparr>slots := 1, waiting := 1\<rparr>, [Holding, Waiting Background, Finished (Some ErrOverloaded)])"
proof -
  let ?l1 = "l0\<lparr>slots := 1\<rparr>" and ?l2 = "l0\<lparr>slots := 1, waiting := 1\<rparr>"
  have "limiter_step (l0, [Fresh, Fresh, Fresh]) (?l1, [Fresh, Fresh, Fresh][0 := returned None])"
    by (rule start_returned [where ctx = Background and now = 0])
      (simp_all add: acquire_start_def l0_def Background_def ctx_Err_def)
  moreover have "limiter_step (?l1, [Holding, Fresh, Fresh]) (?l2, [Holding, Fresh, Fresh][1 := Waiting Background])"
    by (rule start_queued [where now = 0]) (simp_all add: acquire_start_def l0_def Background_def ctx_Err_def)
  moreover have "limiter_step (?l2, [Holding, Waiting Background, Fresh])
      (?l2, [Holding, Waiting Background, Fresh][2 := returned (Some ErrOverloaded)])"
    by (rule start_returned [where ctx = Background and now = 0])
      (simp_all add: acquire_start_def l0_def Background_def ctx_Err_def)
  ultimately show ?thesis
    by (simp add: numeral_3_eq_3)
qed

theorem limiter_bounds_witness:
  "\<exists>l0 l cs. NewSourceLimiterWithQueue 1 1 = Inr l0 \<and> limiter_step\<^sup>*\<^sup>* (l0, replicate 3 Fresh) (l, cs) \<and>
     how_many holds cs = 1 \<and> how_many queues cs = 1 \<and> limiter_release l \<noteq> None"
proof -
  let ?l0 = "\<lparr>slots = 0, slots_cap = 1, waiting = 0, waiting_cap = 1\<rparr>"
  let ?cs = "[Holding, Waiting Background, Finished (Some ErrOverloaded)]"
  have new: "NewSourceLimiterWithQueue 1 1 = Inr ?l0"
    by (simp add: NewSourceLimiterWithQueue_def)
  from limiter_bounds [OF new limiter_example_run]
  have "limiter_release (?l0\<lparr>slots := 1, waiting := 1\<rparr>) \<noteq> None" by force
  moreover have "how_many holds ?cs = 1" "how_many queues ?cs = 1"
    by (simp_all add: how_many_def)
  ultimately show ?thesis
    using new limiter_example_run by blast
qed

end
