(* ===== verification/Bloom.thy ===== *)
theory Bloom
  imports Go_Prelude
begin

text \<open>
  \<open>internal/cache/bloomfilter.go\<close>: the filter that rejects keys outside the configured key set.
  Indices and hashes are 64-bit words, so the probe positions wrap around as in the code. An index
  outside the bitset is a panic, here \<^term>\<open>None\<close>. The two floating-point formulas of
  \<open>newBloomForKeys\<close> are arguments: \<open>ceilBits n\<close> is the rounded-up bit count for \<open>n\<close> keys and
  \<open>roundHashes bits n\<close> the rounded probe count; the code's clamps on both are kept.
\<close>

unbundle bit_operations_syntax

record BloomFilter =
  bitset :: "64 word list"
  bloom_size :: "64 word"
  bloom_hashes :: "64 word"

definition NewBloomFilter :: "64 word \<Rightarrow> 64 word \<Rightarrow> string + BloomFilter" where
  "NewBloomFilter sz hashes =
     (if sz = 0 \<or> hashes = 0 then Inl ''Bloom filter size and hash count must be positive''
      else Inr \<lparr>bitset = replicate (unat ((sz - 1) div 64 + 1)) 0,
                bloom_size = sz, bloom_hashes = hashes\<rparr>)"

section \<open>Hashing\<close>

definition fnv_offset :: "64 word" where
  "fnv_offset = 14695981039346656037"

definition fnv_prime :: "64 word" where
  "fnv_prime = 1099511628211"

text \<open>The standard library's FNV-1a and FNV-1 over 64 bits.\<close>

fun fnv64a :: "64 word \<Rightarrow> bytes \<Rightarrow> 64 word" where
  "fnv64a hash [] = hash"
| "fnv64a hash (b # bs) = fnv64a ((hash XOR of_char b) * fnv_prime) bs"

fun fnv64 :: "64 word \<Rightarrow> bytes \<Rightarrow> 64 word" where
  "fnv64 hash [] = hash"
| "fnv64 hash (b # bs) = fnv64 ((hash * fnv_prime) XOR of_char b) bs"

definition bloomHashes :: "string \<Rightarrow> 64 word \<times> 64 word" where
  "bloomHashes key = (fnv64a fnv_offset key, fnv64 fnv_offset key OR 1)"

section \<open>Operations\<close>

definition probe :: "BloomFilter \<Rightarrow> 64 word \<Rightarrow> 64 word \<Rightarrow> nat \<Rightarrow> 64 word" where
  "probe bf h1 h2 i = (h1 + of_nat i * h2) mod bloom_size bf"

definition setBit :: "64 word \<Rightarrow> 64 word list \<Rightarrow> 64 word list option" where
  "setBit idx bs =
     (let w = unat (idx div 64)
      in if w < length bs then Some (bs[w := bs ! w OR push_bit (unat (idx mod 64)) 1]) else None)"

definition testBit :: "64 word \<Rightarrow> 64 word list \<Rightarrow> bool option" where
  "testBit idx bs =
     (let w = unat (idx div 64)
      in if w < length bs then Some (bs ! w AND push_bit (unat (idx mod 64)) 1 \<noteq> 0) else None)"

text \<open>The loops count the probes that are left; \<open>i\<close> is the loop variable.\<close>

fun add_probes :: "64 word \<Rightarrow> 64 word \<Rightarrow> nat \<Rightarrow> nat \<Rightarrow> BloomFilter \<Rightarrow> BloomFilter option" where
  "add_probes h1 h2 i 0 bf = Some bf"
| "add_probes h1 h2 i (Suc n) bf =
     (case setBit (probe bf h1 h2 i) (bitset bf) of
        None \<Rightarrow> None
      | Some bs \<Rightarrow> add_probes h1 h2 (Suc i) n (bf\<lparr>bitset := bs\<rparr>))"

definition bloom_Add :: "string \<Rightarrow> BloomFilter \<Rightarrow> BloomFilter option" where
  "bloom_Add key bf =
     (case bloomHashes key of (h1, h2) \<Rightarrow> add_probes h1 h2 0 (unat (bloom_hashes bf)) bf)"

fun contains_probes :: "64 word \<Rightarrow> 64 word \<Rightarrow> nat \<Rightarrow> nat \<Rightarrow> BloomFilter \<Rightarrow> bool option" where
  "contains_probes h1 h2 i 0 bf = Some True"
| "contains_probes h1 h2 i (Suc n) bf =
     (case testBit (probe bf h1 h2 i) (bitset bf) of
        None \<Rightarrow> None
      | Some isset \<Rightarrow> if \<not> isset then Some False else contains_probes h1 h2 (Suc i) n bf)"

definition bloom_Contains :: "BloomFilter \<Rightarrow> string \<Rightarrow> bool option" where
  "bloom_Contains bf key =
     (case bloomHashes key of (h1, h2) \<Rightarrow> contains_probes h1 h2 0 (unat (bloom_hashes bf)) bf)"

fun add_all :: "string list \<Rightarrow> BloomFilter \<Rightarrow> BloomFilter option" where
  "add_all [] bf = Some bf"
| "add_all (key # keys) bf = (case bloom_Add key bf of None \<Rightarrow> None | Some bf' \<Rightarrow> add_all keys bf')"

definition newBloomForKeys ::
  "(nat \<Rightarrow> 64 word) \<Rightarrow> (64 word \<Rightarrow> nat \<Rightarrow> int) \<Rightarrow> string list \<Rightarrow> BloomFilter option" where
  "newBloomForKeys ceilBits roundHashes keys =
     (let n = length keys;
          bits = (if ceilBits n < 64 then 64 else ceilBits n);
          hashes = (if n > 0 then word_of_int (max 1 (roundHashes bits n)) else 1)
      in case NewBloomFilter bits hashes of Inl _ \<Rightarrow> None | Inr bf \<Rightarrow> add_all keys bf)"

section \<open>Lemmas\<close>

definition bloom_inv :: "BloomFilter \<Rightarrow> bool" where
  "bloom_inv bf \<longleftrightarrow> bloom_size bf \<noteq> 0 \<and> length (bitset bf) = unat ((bloom_size bf - 1) div 64 + 1)"

lemma word_index_bound:
  fixes sz idx :: "64 word"
  assumes "idx < sz"
  shows "unat (idx div 64) < unat ((sz - 1) div 64 + 1)"
proof -
  define s where "s = unat sz"
  have s: "unat idx < s" "s < 2 ^ 64"
    using assms unsigned_less [of sz, where ?'a = nat] by (simp_all add: word_less_nat_alt s_def)
  have "unat (sz - 1) = s - 1"
    using assms by (simp add: unat_sub word_less_nat_alt s_def word_le_nat_alt)
  then have d: "unat ((sz - 1) div 64) = (s - 1) div 64"
    by (simp add: unat_div_distrib)
  then have "unat ((sz - 1) div 64 + 1) = (s - 1) div 64 + 1"
    using s by (simp add: unat_word_ariths)
  moreover have "unat (idx div 64) = unat idx div 64"
    by (simp add: unat_div_distrib)
  moreover have "unat idx div 64 \<le> (s - 1) div 64"
    using s by (intro div_le_mono) simp
  ultimately show ?thesis by simp
qed

lemma probe_in_range: "bloom_inv bf \<Longrightarrow> unat (probe bf h1 h2 i div 64) < length (bitset bf)"
  by (simp add: bloom_inv_def probe_def word_index_bound word_mod_less_divisor word_gt_0)

definition bit_hit :: "64 word list \<Rightarrow> 64 word \<Rightarrow> bool" where
  "bit_hit bs idx \<longleftrightarrow> unat (idx div 64) < length bs \<and> bit (bs ! unat (idx div 64)) (unat (idx mod 64))"

lemma idx_mod_64: "unat ((idx :: 64 word) mod 64) < 64"
  by (simp add: unat_mod_distrib)

lemma and_one_bit: "n < 64 \<Longrightarrow> (w AND push_bit n 1 \<noteq> (0 :: 64 word)) \<longleftrightarrow> bit w n"
  by (auto simp: bit_eq_iff [where ?'a = "64 word"] bit_and_iff bit_exp_iff push_bit_of_1)

lemma testBit_hit: "unat (idx div 64) < length bs \<Longrightarrow> testBit idx bs = Some (bit_hit bs idx)"
  by (simp add: testBit_def bit_hit_def Let_def and_one_bit [unfolded push_bit_of_1] idx_mod_64)

lemma setBit_hits:
  assumes "setBit idx bs = Some bs'"
  shows "bit_hit bs' idx" "bit_hit bs j \<Longrightarrow> bit_hit bs' j" "length bs' = length bs"
  using assms idx_mod_64 [of idx]
  by (auto simp: setBit_def bit_hit_def Let_def nth_list_update bit_or_iff bit_exp_iff
      split: if_splits)

lemma add_probes_spec:
  assumes "bloom_inv bf"
  shows "\<exists>bf'. add_probes h1 h2 i n bf = Some bf' \<and> bloom_inv bf' \<and>
           bloom_size bf' = bloom_size bf \<and> bloom_hashes bf' = bloom_hashes bf \<and>
           (\<forall>j. bit_hit (bitset bf) j \<longrightarrow> bit_hit (bitset bf') j) \<and>
           (\<forall>m. i \<le> m \<and> m < i + n \<longrightarrow> bit_hit (bitset bf') (probe bf h1 h2 m))"
  using assms
proof (induction n arbitrary: i bf)
  case (Suc n)
  obtain bs where bs: "setBit (probe bf h1 h2 i) (bitset bf) = Some bs"
    using probe_in_range [OF Suc.prems] by (auto simp: setBit_def Let_def)
  note hits = setBit_hits [OF bs]
  let ?b = "bf\<lparr>bitset := bs\<rparr>"
  have probe: "probe ?b h1 h2 m = probe bf h1 h2 m" for m by (simp add: probe_def)
  from Suc.prems hits(3) have "bloom_inv ?b" by (simp add: bloom_inv_def)
  from Suc.IH [OF this, of "Suc i"] obtain bf' where
    "add_probes h1 h2 (Suc i) n ?b = Some bf'" "bloom_inv bf'" "bloom_size bf' = bloom_size bf"
    "bloom_hashes bf' = bloom_hashes bf" "\<forall>j. bit_hit bs j \<longrightarrow> bit_hit (bitset bf') j"
    "\<forall>m. Suc i \<le> m \<and> m < Suc i + n \<longrightarrow> bit_hit (bitset bf') (probe bf h1 h2 m)"
    by (auto simp: probe)
  with bs hits show ?case
    by (auto simp: le_eq_less_or_eq [of i] Suc_le_eq)
qed auto

lemma contains_probes_spec:
  assumes "bloom_inv bf"
  shows "contains_probes h1 h2 i n bf =
           Some (\<forall>m. i \<le> m \<and> m < i + n \<longrightarrow> bit_hit (bitset bf) (probe bf h1 h2 m))"
proof (induction n arbitrary: i)
  case (Suc n)
  have "(\<forall>m. i \<le> m \<and> m < i + Suc n \<longrightarrow> bit_hit (bitset bf) (probe bf h1 h2 m)) \<longleftrightarrow>
        bit_hit (bitset bf) (probe bf h1 h2 i) \<and>
        (\<forall>m. Suc i \<le> m \<and> m < Suc i + n \<longrightarrow> bit_hit (bitset bf) (probe bf h1 h2 m))"
    by (auto simp: le_eq_less_or_eq [of i] Suc_le_eq)
  with Suc.IH [of "Suc i"] show ?case
    by (simp add: testBit_hit probe_in_range [OF assms])
qed auto

definition bloom_member :: "BloomFilter \<Rightarrow> string \<Rightarrow> bool" where
  "bloom_member bf key \<longleftrightarrow>
     (\<forall>m < unat (bloom_hashes bf).
        bit_hit (bitset bf) (probe bf (fst (bloomHashes key)) (snd (bloomHashes key)) m))"

lemma bloom_Contains_member: "bloom_inv bf \<Longrightarrow> bloom_Contains bf key = Some (bloom_member bf key)"
  by (simp add: bloom_Contains_def bloom_member_def contains_probes_spec split: prod.split)

lemma bloom_Add_spec:
  assumes "bloom_inv bf"
  shows "\<exists>bf'. bloom_Add key bf = Some bf' \<and> bloom_inv bf' \<and> bloom_member bf' key \<and>
           (\<forall>k. bloom_member bf k \<longrightarrow> bloom_member bf' k)"
  using add_probes_spec [OF assms, of "fst (bloomHashes key)" "snd (bloomHashes key)" 0
      "unat (bloom_hashes bf)"]
  by (auto simp: bloom_Add_def bloom_member_def probe_def split: prod.split)

lemma add_all_spec:
  assumes "bloom_inv bf"
  shows "\<exists>bf'. add_all keys bf = Some bf' \<and> bloom_inv bf' \<and>
           (\<forall>k. k \<in> set keys \<or> bloom_member bf k \<longrightarrow> bloom_member bf' k)"
  using assms
proof (induction keys arbitrary: bf)
  case (Cons key keys)
  obtain b where b: "bloom_Add key bf = Some b" "bloom_inv b" "bloom_member b key"
      "\<forall>k. bloom_member bf k \<longrightarrow> bloom_member b k"
    using bloom_Add_spec [OF Cons.prems] by blast
  from Cons.IH [OF b(2)] b show ?case by auto
qed auto

lemma NewBloomFilter_inv: "NewBloomFilter sz hashes = Inr bf \<Longrightarrow> bloom_inv bf"
  by (auto simp: NewBloomFilter_def bloom_inv_def split: if_splits)

lemma newBloomForKeys_spec:
  assumes "\<And>bits n. roundHashes bits n < 2 ^ 64"
  shows "\<exists>bf. newBloomForKeys ceilBits roundHashes keys = Some bf \<and> bloom_inv bf \<and>
           (\<forall>k \<in> set keys. bloom_member bf k)"
proof -
  have "word_of_int (max 1 (roundHashes bits n)) \<noteq> (0 :: 64 word)" for bits n
    using assms [of bits n] by (simp add: word_of_int_eq_0_iff zdvd_not_zless max_def)
  then have new: "\<exists>bf. NewBloomFilter bits (if n > 0 then word_of_int (max 1 (roundHashes bits n)) else 1) = Inr bf"
    if "bits \<noteq> 0" for bits and n :: nat
    using that by (simp add: NewBloomFilter_def)
  define bits where "bits = (if ceilBits (length keys) < 64 then 64 else ceilBits (length keys))"
  have "bits \<noteq> 0" by (auto simp: bits_def)
  from new [OF this, of "length keys"] obtain bf where
    bf: "NewBloomFilter bits (if length keys > 0 then word_of_int (max 1 (roundHashes bits (length keys))) else 1) = Inr bf"
    by blast
  with add_all_spec [OF NewBloomFilter_inv [OF bf], of keys] show ?thesis
    by (auto simp: newBloomForKeys_def Let_def bits_def [symmetric])
qed

lemma newBloomForKeys_inv:
  assumes "newBloomForKeys ceilBits roundHashes keys = Some bf"
  shows "bloom_inv bf"
proof -
  obtain sz hashes bf0 where "NewBloomFilter sz hashes = Inr bf0" "add_all keys bf0 = Some bf"
    using assms by (auto simp: newBloomForKeys_def Let_def split: sum.splits)
  with add_all_spec [OF NewBloomFilter_inv, of sz hashes bf0 keys] show ?thesis by simp
qed

section \<open>Properties\<close>

text \<open>
  C9: the filter built for a key set never rejects a key of the set, whatever the floating-point
  formulas for its size and probe count return, and no probe of any key, in the set or not, leaves
  the bitset.
\<close>

theorem bloom_no_false_negatives:
  assumes "\<forall>bits n. roundHashes bits n < 2 ^ 64"
  shows "\<exists>bf. newBloomForKeys ceilBits roundHashes keys = Some bf \<and>
           (\<forall>key \<in> set keys. bloom_Contains bf key = Some True) \<and>
           (\<forall>key. bloom_Contains bf key \<noteq> None)"
  using newBloomForKeys_spec [of roundHashes ceilBits keys] assms
  by (auto simp: bloom_Contains_member)

theorem bloom_no_false_negatives_witness:
  "(\<forall>bits n. (\<lambda>_ _. 7 :: int) bits (n :: nat) < (2 :: int) ^ 64) \<and>
   (\<exists>bf. newBloomForKeys (\<lambda>n. of_nat (10 * n)) (\<lambda>_ _. 7) [''a'', ''b''] = Some bf \<and>
      bloom_Contains bf ''a'' = Some True \<and> bloom_Contains bf ''b'' = Some True)"
proof -
  have "\<forall>bits n. (\<lambda>_ _. 7 :: int) (bits :: 64 word) (n :: nat) < (2 :: int) ^ 64" by simp
  from bloom_no_false_negatives [OF this, of "\<lambda>n. of_nat (10 * n)" "[''a'', ''b'']"]
  show ?thesis by auto
qed

end
