(* ===== verification/Versions.thy ===== *)
theory Versions
  imports Cache_Store Admission Bloom
begin

text \<open>
  \<open>internal/cache/group.go\<close> and \<open>internal/cache/versions.go\<close>: the state of a cache group, its
  options, the bounded table of version floors, the invalidation epochs, and the operations under
  \<open>epochMu\<close>. An operation that takes \<open>epochMu\<close> for its whole body is one function on the group;
  its clock readings (the LRU compares deadlines with the clock) are arguments. What the group's
  observer is told is the list \<open>events\<close>, oldest first.
\<close>

section \<open>State\<close>

record readFence =
  fence_epoch :: "64 word"
  fence_minimum :: int

definition withMinimum :: "int \<Rightarrow> readFence \<Rightarrow> readFence" where
  "withMinimum minimum f = f\<lparr>fence_minimum := max (fence_minimum f) minimum\<rparr>"

definition DefaultVersionRecords :: nat where
  "DefaultVersionRecords = 1024"

record versionRecord =
  rec_key :: string
  rec_version :: int

text \<open>\<open>floor_next\<close> is the identity the next list element gets, as in the model of the LRU's list.\<close>

record versionFloors =
  floor_capacity :: nat
  floor_entries :: "string \<rightharpoonup> nat"
  advanced :: "versionRecord element list"
  floor_evictions :: "64 word"
  floor_next :: nat

text \<open>The observer is absent, or has the two required methods, or \<open>Cleanup\<close> as well.\<close>

datatype observer = NoObserver | PlainObserver | CleanupObserver

record Options =
  opt_TTL :: duration
  opt_KnownKeys :: "string list option"
  opt_SourceTimeout :: duration
  opt_Limiter :: "SourceLimiter option"
  opt_Lifecycle :: "gocontext option"
  opt_Observer :: observer
  opt_EpochBuckets :: int
  opt_MaxMissWaiters :: int
  opt_CleanupInterval :: duration
  opt_CleanupBatch :: int

datatype event =
    Observe string string duration
  | Inflight int
  | Cleanup nat nat duration bool

record Group =
  group_name :: string
  mainCache :: cache
  group_bloom :: "BloomFilter option"
  floors :: versionFloors
  epochs :: "64 word list"
  group_opts :: Options
  apiWaiters :: nat
  group_limiter :: SourceLimiter
  group_lifecycle :: gocontext
  events :: "event list"

definition observe :: "string \<Rightarrow> string \<Rightarrow> duration \<Rightarrow> Group \<Rightarrow> Group" where
  "observe operation res elapsed g =
     (if opt_Observer (group_opts g) \<noteq> NoObserver
      then g\<lparr>events := events g @ [Observe operation res elapsed]\<rparr> else g)"

section \<open>Construction\<close>

definition defaultSourceTimeout :: duration where
  "defaultSourceTimeout = 800 * Millisecond"

definition DefaultMissWaiters :: int where
  "DefaultMissWaiters = 128"

text \<open>\<open>n & (n-1) != 0\<close> on a machine integer.\<close>

definition powerOfTwo :: "int \<Rightarrow> bool" where
  "powerOfTwo n \<longleftrightarrow> and n (n - 1) = 0"

definition normalizeOptions :: "Options \<Rightarrow> string + Options" where
  "normalizeOptions opts =
     (if opt_TTL opts < 0 \<or> opt_SourceTimeout opts < 0 then Inl ''negative cache duration''
      else
        (let o1 = (if opt_TTL opts = 0 then opts\<lparr>opt_TTL := Minute\<rparr> else opts);
             o2 = (if opt_SourceTimeout o1 = 0 then o1\<lparr>opt_SourceTimeout := defaultSourceTimeout\<rparr> else o1);
             o3 = (if opt_Lifecycle o2 = None then o2\<lparr>opt_Lifecycle := Some Background\<rparr> else o2);
             o4 = (if opt_Limiter o3 = None
                   then (case NewSourceLimiter 32 of Inl _ \<Rightarrow> o3 | Inr l \<Rightarrow> o3\<lparr>opt_Limiter := Some l\<rparr>)
                   else o3);
             o5 = (if opt_EpochBuckets o4 = 0 then o4\<lparr>opt_EpochBuckets := 256\<rparr> else o4)
         in if opt_EpochBuckets o5 < 1 \<or> opt_EpochBuckets o5 > 256 \<or> \<not> powerOfTwo (opt_EpochBuckets o5)
            then Inl ''epoch buckets must be a power of two between 1 and 256''
            else
              (let o6 = (if opt_MaxMissWaiters o5 = 0 then o5\<lparr>opt_MaxMissWaiters := DefaultMissWaiters\<rparr> else o5);
                   o7 = (if opt_CleanupInterval o6 = 0 then o6\<lparr>opt_CleanupInterval := Second\<rparr> else o6);
                   o8 = (if opt_CleanupBatch o7 = 0 then o7\<lparr>opt_CleanupBatch := 128\<rparr> else o7)
               in if opt_MaxMissWaiters o8 < 1 \<or> opt_CleanupInterval o8 < 0 \<or> opt_CleanupBatch o8 < 1
                  then Inl ''invalid admission or cleanup options''
                  else Inr o8)))"

definition NewGroup ::
  "(nat \<Rightarrow> 64 word) \<Rightarrow> (64 word \<Rightarrow> nat \<Rightarrow> int) \<Rightarrow> string \<Rightarrow> int \<Rightarrow> bool \<Rightarrow> Options \<Rightarrow> string + Group" where
  "NewGroup ceilBits roundHashes name capacity hasGetter options =
     (if name = '''' \<or> capacity \<le> 0 \<or> \<not> hasGetter then Inl ''group requires name, capacity and getter''
      else case normalizeOptions options of
        Inl p \<Rightarrow> Inl p
      | Inr opts \<Rightarrow>
          (let g = \<lparr>group_name = name, mainCache = newCache capacity, group_bloom = None,
                    floors = \<lparr>floor_capacity = DefaultVersionRecords, floor_entries = Map.empty,
                              advanced = [], floor_evictions = 0, floor_next = 0\<rparr>,
                    epochs = replicate 256 0, group_opts = opts, apiWaiters = 0,
                    group_limiter = the (opt_Limiter opts), group_lifecycle = the (opt_Lifecycle opts),
                    events = []\<rparr>
           in case opt_KnownKeys opts of
                None \<Rightarrow> Inr g
              | Some keys \<Rightarrow>
                  (case newBloomForKeys ceilBits roundHashes keys of
                     None \<Rightarrow> Inl ''Bloom filter size and hash count must be positive''
                   | Some bf \<Rightarrow> Inr (g\<lparr>group_bloom := Some bf\<rparr>))))"

definition group_Stats :: "Group \<Rightarrow> Stats" where
  "group_Stats g =
     (cache_stats (mainCache g))
       \<lparr>VersionRecords := card (dom (floor_entries (floors g))),
        VersionCapacity := floor_capacity (floors g),
        VersionEvictions := floor_evictions (floors g)\<rparr>"

section \<open>Version and epoch operations\<close>

fun epoch_hash :: "64 word \<Rightarrow> string \<Rightarrow> 64 word" where
  "epoch_hash hash [] = hash"
| "epoch_hash hash (c # cs) = epoch_hash ((hash XOR of_char c) * 1099511628211) cs"

definition epochBucket :: "Group \<Rightarrow> string \<Rightarrow> nat" where
  "epochBucket g key =
     unat (epoch_hash 14695981039346656037 key AND word_of_int (opt_EpochBuckets (group_opts g) - 1))"

definition floor_at :: "versionFloors \<Rightarrow> string \<Rightarrow> int" where
  "floor_at f key =
     (case floor_entries f key of
        None \<Rightarrow> 0
      | Some i \<Rightarrow> (case map_of (advanced f) i of None \<Rightarrow> 0 | Some r \<Rightarrow> rec_version r))"

definition knownVersionLocked :: "gotime \<Rightarrow> string \<Rightarrow> Group \<Rightarrow> int \<times> Group" where
  "knownVersionLocked now key g =
     (case cache_version now key (mainCache g) of
        (v, c) \<Rightarrow> (max (floor_at (floors g) key) v, g\<lparr>mainCache := c\<rparr>))"

text \<open>Retiring the oldest floor also advances the epoch of its stripe.\<close>

definition bumpEpoch :: "string \<Rightarrow> Group \<Rightarrow> Group" where
  "bumpEpoch key g = g\<lparr>epochs := (epochs g)[epochBucket g key := epochs g ! epochBucket g key + 1]\<rparr>"

definition retireOldest :: "Group \<Rightarrow> Group" where
  "retireOldest g =
     (let f = floors g
      in case list_Back (advanced f) of
           None \<Rightarrow> g
         | Some old \<Rightarrow>
             (case map_of (advanced f) old of
                None \<Rightarrow> g
              | Some r \<Rightarrow>
                  bumpEpoch (rec_key r)
                    (g\<lparr>floors := f\<lparr>floor_entries := (floor_entries f)(rec_key r := None),
                                   advanced := list_Remove old (advanced f),
                                   floor_evictions := floor_evictions f + 1\<rparr>\<rparr>)))"

definition rememberVersionLocked :: "string \<Rightarrow> int \<Rightarrow> Group \<Rightarrow> Group" where
  "rememberVersionLocked key version g =
     (if version \<le> 0 then g
      else case floor_entries (floors g) key of
        Some e \<Rightarrow>
          (case map_of (advanced (floors g)) e of
             None \<Rightarrow> g
           | Some r \<Rightarrow>
               if version > rec_version r
               then g\<lparr>floors := (floors g)
                        \<lparr>advanced := list_MoveToFront e
                            (list_SetValue e (r\<lparr>rec_version := version\<rparr>) (advanced (floors g)))\<rparr>\<rparr>
               else g)
      | None \<Rightarrow>
          (let g1 = (if card (dom (floor_entries (floors g))) = floor_capacity (floors g)
                     then retireOldest g else g);
               f = floors g1
           in g1\<lparr>floors := f\<lparr>floor_entries := (floor_entries f)(key \<mapsto> floor_next f),
                             advanced := list_PushFront (floor_next f)
                                           \<lparr>rec_key = key, rec_version = version\<rparr> (advanced f),
                             floor_next := floor_next f + 1\<rparr>\<rparr>))"

text \<open>
  The last locked statement of \<open>InvalidateVersion\<close>; the condition is short-circuited, so a forced
  invalidation does not look at the resident version.
\<close>

definition purge :: "gotime \<Rightarrow> string \<Rightarrow> int \<Rightarrow> int \<Rightarrow> cache \<Rightarrow> cache" where
  "purge t2 key version minimum c =
     (if version = 0 then cache_remove key c
      else case cache_version t2 key c of (v, c') \<Rightarrow> if v < minimum then cache_remove key c' else c')"

text \<open>The two clock readings are those of the two calls of the cache's \<open>version\<close>.\<close>

definition InvalidateVersion ::
  "gotime \<Rightarrow> gotime \<Rightarrow> string \<Rightarrow> int \<Rightarrow> Group \<Rightarrow> goerror option \<times> Group" where
  "InvalidateVersion t1 t2 key version g =
     (case ValidateKey key of
        Some err \<Rightarrow> (Some err, g)
      | None \<Rightarrow>
          if version < 0 then (Some ErrInvalidVersion, g)
          else case knownVersionLocked t1 key g of (known, g1) \<Rightarrow>
            (let g2 = rememberVersionLocked key (max known version) g1;
                 applied = (version = 0 \<or> version > known);
                 g3 = (if applied then bumpEpoch key g2 else g2);
                 minimum = max known version;
                 g4 = g3\<lparr>mainCache := purge t2 key version minimum (mainCache g3)\<rparr>;
                 g5 = observe ''invalidate'' ''ok'' 0 g4
             in (None, if version > 0
                       then observe ''version_event'' (if applied then ''applied'' else ''ignored'') 0 g5
                       else g5)))"

definition Invalidate :: "gotime \<Rightarrow> gotime \<Rightarrow> string \<Rightarrow> Group \<Rightarrow> goerror option \<times> Group" where
  "Invalidate t1 t2 key g = InvalidateVersion t1 t2 key 0 g"

definition currentEpoch :: "string \<Rightarrow> Group \<Rightarrow> 64 word" where
  "currentEpoch key g = epochs g ! epochBucket g key"

definition readBarrier :: "gotime \<Rightarrow> string \<Rightarrow> Group \<Rightarrow> readFence \<times> Group" where
  "readBarrier now key g =
     (case knownVersionLocked now key g of
        (known, g') \<Rightarrow> (\<lparr>fence_epoch = currentEpoch key g, fence_minimum = known\<rparr>, g'))"

section \<open>Maintenance\<close>

text \<open>One expiry pass; \<open>start\<close> and \<open>stop\<close> are the readings around it.\<close>

definition CleanExpired ::
  "bool \<Rightarrow> (nat \<Rightarrow> gotime) \<Rightarrow> gotime \<Rightarrow> gotime \<Rightarrow> gotime \<Rightarrow> Group \<Rightarrow> Group" where
  "CleanExpired busy clk start now stop g =
     (case cleanExpired busy clk now (opt_CleanupBatch (group_opts g)) (mainCache g) of
        ((checked, removed, b), c) \<Rightarrow>
          (let g' = g\<lparr>mainCache := c\<rparr>
           in if opt_Observer (group_opts g) = CleanupObserver
              then g'\<lparr>events := events g' @ [Cleanup checked removed (stop - start) b]\<rparr> else g'))"

text \<open>
  The worker loop: each wake-up is the context's end or a tick, with the clock readings of that
  turn. The mutex makes a second concurrent worker return at once.
\<close>

datatype wakeup = CtxDone | Tick gotime bool "nat \<Rightarrow> gotime" gotime gotime gotime

fun maintenance_loop :: "gocontext \<Rightarrow> wakeup list \<Rightarrow> Group \<Rightarrow> Group" where
  "maintenance_loop ctx [] g = g"
| "maintenance_loop ctx (CtxDone # ws) g = g"
| "maintenance_loop ctx (Tick t busy clk start now stop # ws) g =
     (if ctx_Err ctx t \<noteq> None then g else maintenance_loop ctx ws (CleanExpired busy clk start now stop g))"

definition RunMaintenance :: "bool \<Rightarrow> gocontext \<Rightarrow> wakeup list \<Rightarrow> Group \<Rightarrow> Group" where
  "RunMaintenance held ctx ws g = (if held then g else maintenance_loop ctx ws g)"

section \<open>Invariant\<close>

definition floors_inv :: "versionFloors \<Rightarrow> bool" where
  "floors_inv f \<longleftrightarrow>
     linked rec_key (advanced f) (floor_entries f) (floor_next f) \<and>
     0 < floor_capacity f \<and> length (advanced f) \<le> floor_capacity f \<and>
     (\<forall>x \<in> set (advanced f). 0 < rec_version (snd x))"

definition group_inv :: "Group \<Rightarrow> bool" where
  "group_inv g \<longleftrightarrow>
     cache_inv (mainCache g) \<and> floors_inv (floors g) \<and> length (epochs g) = 256 \<and>
     1 \<le> opt_EpochBuckets (group_opts g) \<and> opt_EpochBuckets (group_opts g) \<le> 256 \<and>
     (case group_bloom g of None \<Rightarrow> True | Some bf \<Rightarrow> bloom_inv bf)"

lemma unat_word_of_int: "0 \<le> n \<Longrightarrow> n < 2 ^ 64 \<Longrightarrow> unat (word_of_int n :: 64 word) = nat n"
  by (simp add: unsigned_of_int take_bit_int_eq_self)

lemma epochBucket_less:
  assumes "group_inv g"
  shows "epochBucket g key < length (epochs g)"
proof -
  let ?m = "word_of_int (opt_EpochBuckets (group_opts g) - 1) :: 64 word"
  let ?h = "epoch_hash 14695981039346656037 key"
  have "?h AND ?m \<le> ?m" by (rule word_and_le1)
  then have "unat (?h AND ?m) \<le> unat ?m" by (simp add: word_le_nat_alt)
  moreover have "unat ?m = nat (opt_EpochBuckets (group_opts g) - 1)"
    using assms by (intro unat_word_of_int) (auto simp: group_inv_def)
  ultimately show ?thesis
    using assms by (auto simp: epochBucket_def group_inv_def)
qed

lemma epochBucket_opts: "group_opts g = group_opts g' \<Longrightarrow> epochBucket g = epochBucket g'"
  by (simp add: epochBucket_def fun_eq_iff)

subsection \<open>Floors\<close>

lemma linked_card:
  assumes "linked f xs ix n"
  shows "card (dom ix) = length xs"
proof -
  have "dom ix = (f \<circ> snd) ` set xs"
    using linked_lookup_None [OF assms] by (auto simp: dom_def image_iff)
  with assms show ?thesis
    using distinct_card [of "map (f \<circ> snd) xs"] by (simp add: linked_def)
qed

lemma floor_at_record:
  assumes "floors_inv f" "(i, r) \<in> set (advanced f)"
  shows "floor_at f (rec_key r) = rec_version r"
proof -
  have "linked rec_key (advanced f) (floor_entries f) (floor_next f)"
    using assms by (simp add: floors_inv_def)
  then have "floor_entries f (rec_key r) = Some i" "map_of (advanced f) i = Some r"
    using assms(2) linked_lookup [of rec_key "advanced f"] by (auto simp: linked_def)
  then show ?thesis by (simp add: floor_at_def)
qed

lemma floor_at_absent:
  "floors_inv f \<Longrightarrow> \<forall>x \<in> set (advanced f). rec_key (snd x) \<noteq> key \<Longrightarrow> floor_at f key = 0"
  using linked_lookup_None [of rec_key "advanced f" "floor_entries f" "floor_next f" key]
  by (simp add: floors_inv_def floor_at_def)

lemma floor_at_cases:
  assumes "floors_inv f"
  obtains "floor_entries f key = None" "floor_at f key = 0"
    | i r where "floor_entries f key = Some i" "map_of (advanced f) i = Some r" "rec_key r = key"
        "(i, r) \<in> set (advanced f)" "floor_at f key = rec_version r" "0 < rec_version r"
proof (cases "floor_entries f key")
  case None
  then show ?thesis using that(1) by (simp add: floor_at_def)
next
  case (Some i)
  then obtain r where r: "map_of (advanced f) i = Some r" "rec_key r = key" "(i, r) \<in> set (advanced f)"
    using assms linked_lookupE [of rec_key "advanced f" "floor_entries f" "floor_next f" key i]
    by (auto simp: floors_inv_def)
  then show ?thesis
    using that(2) Some assms floor_at_record [OF assms r(3)] by (auto simp: floors_inv_def)
qed

lemma floor_at_nonneg: "floors_inv f \<Longrightarrow> 0 \<le> floor_at f key"
  by (erule floor_at_cases [where key = key]) auto

text \<open>Two tables with the same records have the same floors.\<close>

lemma floor_at_set:
  assumes "floors_inv f" "floors_inv f'"
    and "\<And>i r. rec_key r = key \<Longrightarrow> (i, r) \<in> set (advanced f) \<longleftrightarrow> (i, r) \<in> set (advanced f')"
  shows "floor_at f' key = floor_at f key"
proof (rule floor_at_cases [OF assms(1), of key])
  assume *: "floor_entries f key = None" "floor_at f key = 0"
  then have "\<forall>x \<in> set (advanced f). rec_key (snd x) \<noteq> key"
    using assms(1) linked_lookup_None [of rec_key "advanced f" "floor_entries f" "floor_next f" key]
    by (simp add: floors_inv_def)
  then have "\<forall>x \<in> set (advanced f'). rec_key (snd x) \<noteq> key"
    using assms(3) by force
  with * show ?thesis using floor_at_absent [OF assms(2)] by simp
next
  fix i r
  assume "rec_key r = key" "(i, r) \<in> set (advanced f)" "floor_at f key = rec_version r"
  then show ?thesis using assms(3) floor_at_record [OF assms(2)] by fastforce
qed

lemma floors_advance:
  assumes "floors_inv f" "map_of (advanced f) e = Some r" "rec_version r < version"
  defines "f' \<equiv> f\<lparr>advanced := list_MoveToFront e (list_SetValue e (r\<lparr>rec_version := version\<rparr>) (advanced f))\<rparr>"
  shows "floors_inv f'" "floor_at f' (rec_key r) = version"
    and "j \<noteq> rec_key r \<Longrightarrow> floor_at f' j = floor_at f j"
proof -
  let ?r = "r\<lparr>rec_version := version\<rparr>" and ?xs = "list_SetValue e (r\<lparr>rec_version := version\<rparr>) (advanced f)"
  have mem: "(e, r) \<in> set (advanced f)" using assms(2) by (rule map_of_SomeD)
  have lk: "linked rec_key (advanced f) (floor_entries f) (floor_next f)"
    and d: "distinct (map fst (advanced f))"
    using assms(1) by (simp_all add: floors_inv_def linked_def)
  have uniq: "s = r" if "(e, s) \<in> set (advanced f)" for s
    using that d assms(2) by simp
  have xs: "set ?xs = insert (e, ?r) {x \<in> set (advanced f). fst x \<noteq> e}"
    by (rule set_list_SetValue [OF mem])
  have "distinct (map fst ?xs)" using d by simp
  then have "map_of ?xs e = Some ?r" using xs by simp
  then have set: "set (advanced f') = set ?xs"
    using xs by (auto simp: f'_def list_MoveToFront_def list_Remove_def)
  have len: "length (advanced f') = length (advanced f)"
    using length_MoveToFront [OF \<open>distinct (map fst ?xs)\<close>, of e] by (simp add: f'_def)
  have frame: "floor_capacity f' = floor_capacity f" "floor_entries f' = floor_entries f"
    "floor_next f' = floor_next f"
    by (simp_all add: f'_def)
  have pos: "\<forall>x \<in> set (advanced f). 0 < rec_version (snd x)"
    and "length (advanced f) \<le> floor_capacity f" "0 < floor_capacity f"
    using assms(1) by (simp_all add: floors_inv_def)
  moreover have "0 < rec_version ?r" using bspec [OF pos mem] assms(3) by simp
  moreover have "linked rec_key (advanced f') (floor_entries f) (floor_next f)"
    unfolding f'_def by (simp add: linked_MoveToFront linked_SetValue [OF lk assms(2)])
  ultimately show inv: "floors_inv f'"
    using len frame by (simp add: floors_inv_def set xs)
  show "floor_at f' (rec_key r) = version"
    using floor_at_record [OF inv, of e ?r] set xs by simp
  have other: "(i, s) \<in> set (advanced f) \<longleftrightarrow> (i, s) \<in> set (advanced f')" if "rec_key s \<noteq> rec_key r" for i s
    using set xs uniq that by auto
  show "j \<noteq> rec_key r \<Longrightarrow> floor_at f' j = floor_at f j"
    using other by (intro floor_at_set [OF assms(1) inv]) auto
qed

lemma floors_insert:
  assumes "floors_inv f" "floor_entries f key = None" "0 < version"
    and "length (advanced f) < floor_capacity f"
  defines "f' \<equiv> f\<lparr>floor_entries := (floor_entries f)(key \<mapsto> floor_next f),
                   advanced := list_PushFront (floor_next f) \<lparr>rec_key = key, rec_version = version\<rparr> (advanced f),
                   floor_next := floor_next f + 1\<rparr>"
  shows "floors_inv f'" "floor_at f' key = version" "j \<noteq> key \<Longrightarrow> floor_at f' j = floor_at f j"
proof -
  let ?r = "\<lparr>rec_key = key, rec_version = version\<rparr>"
  have lk: "linked rec_key (advanced f) (floor_entries f) (floor_next f)"
    using assms(1) by (simp add: floors_inv_def)
  have "linked rec_key (advanced f') (floor_entries f') (floor_next f')"
    using linked_PushFront [OF lk, of ?r] assms(2) by (simp add: f'_def)
  moreover have set: "set (advanced f') = insert (floor_next f, ?r) (set (advanced f))"
    and "length (advanced f') = Suc (length (advanced f))" "floor_capacity f' = floor_capacity f"
    by (simp_all add: f'_def list_PushFront_def)
  ultimately show inv: "floors_inv f'"
    using assms(1,3,4) by (simp add: floors_inv_def)
  show "floor_at f' key = version"
    using floor_at_record [OF inv, of "floor_next f" ?r] set by simp
  show "j \<noteq> key \<Longrightarrow> floor_at f' j = floor_at f j"
    using set by (intro floor_at_set [OF assms(1) inv]) auto
qed

lemma floors_forget:
  assumes "floors_inv f" "(i, r) \<in> set (advanced f)"
  defines "f' \<equiv> f\<lparr>floor_entries := (floor_entries f)(rec_key r := None),
                   advanced := list_Remove i (advanced f), floor_evictions := floor_evictions f + 1\<rparr>"
  shows "floors_inv f'" "j \<noteq> rec_key r \<Longrightarrow> floor_at f' j = floor_at f j" "floor_at f' (rec_key r) = 0"
    and "length (advanced f') < length (advanced f)"
proof -
  have lk: "linked rec_key (advanced f) (floor_entries f) (floor_next f)"
    and d: "distinct (map fst (advanced f))"
    using assms(1) by (simp_all add: floors_inv_def linked_def)
  show less: "length (advanced f') < length (advanced f)"
    using length_drop_key [OF d, of i] assms(2) by (simp add: f'_def list_Remove_def rev_image_eqI)
  have set: "set (advanced f') = {x \<in> set (advanced f). fst x \<noteq> i}"
    by (simp add: f'_def)
  show inv: "floors_inv f'"
    using assms(1) less linked_Remove [OF lk assms(2)] by (auto simp: floors_inv_def f'_def)
  have uniq: "s = r" if "(i, s) \<in> set (advanced f)" for s
    using that d assms(2) eq_key_imp_eq_value by fast
  show "j \<noteq> rec_key r \<Longrightarrow> floor_at f' j = floor_at f j"
    using set uniq by (intro floor_at_set [OF assms(1) inv]) auto
  show "floor_at f' (rec_key r) = 0"
    by (simp add: f'_def floor_at_def)
qed

subsection \<open>Retirement and insertion of floors\<close>

lemma bumpEpoch_frame [simp]:
  "mainCache (bumpEpoch key g) = mainCache g" "floors (bumpEpoch key g) = floors g"
  "group_opts (bumpEpoch key g) = group_opts g" "group_bloom (bumpEpoch key g) = group_bloom g"
  "length (epochs (bumpEpoch key g)) = length (epochs g)"
  "group_limiter (bumpEpoch key g) = group_limiter g" "apiWaiters (bumpEpoch key g) = apiWaiters g"
  "group_lifecycle (bumpEpoch key g) = group_lifecycle g"
  by (simp_all add: bumpEpoch_def)

lemma retireOldest_spec:
  assumes "group_inv g" "advanced (floors g) \<noteq> []"
  shows "\<exists>old. floors_inv (floors (retireOldest g)) \<and>
           floor_at (floors (retireOldest g)) old = 0 \<and>
           (\<forall>j. j \<noteq> old \<longrightarrow> floor_at (floors (retireOldest g)) j = floor_at (floors g) j) \<and>
           length (advanced (floors (retireOldest g))) < length (advanced (floors g)) \<and>
           (\<forall>key. floor_entries (floors g) key = None \<longrightarrow> floor_entries (floors (retireOldest g)) key = None) \<and>
           floor_capacity (floors (retireOldest g)) = floor_capacity (floors g) \<and>
           epochs (retireOldest g) = epochs (bumpEpoch old g) \<and>
           retireOldest g = g\<lparr>floors := floors (retireOldest g), epochs := epochs (retireOldest g)\<rparr>"
proof -
  let ?f = "floors g"
  have inv: "floors_inv ?f" using assms(1) by (simp add: group_inv_def)
  obtain i where bk: "list_Back (advanced ?f) = Some i" using assms(2) by fastforce
  then obtain r where mem: "(i, r) \<in> set (advanced ?f)" using list_Back_mem by fastforce
  then have r: "map_of (advanced ?f) i = Some r"
    using inv by (simp add: floors_inv_def linked_def)
  note forget = floors_forget [OF inv mem]
  show ?thesis
    by (rule exI [of _ "rec_key r"])
      (use forget in \<open>auto simp: retireOldest_def bk r Let_def bumpEpoch_def epochBucket_def\<close>)
qed

lemma rememberVersionLocked_nonpos [simp]: "version \<le> 0 \<Longrightarrow> rememberVersionLocked key version g = g"
  by (simp add: rememberVersionLocked_def)

lemma remember_frame [simp]:
  "mainCache (rememberVersionLocked key version g) = mainCache g"
  "group_opts (rememberVersionLocked key version g) = group_opts g"
  "group_bloom (rememberVersionLocked key version g) = group_bloom g"
  "group_limiter (rememberVersionLocked key version g) = group_limiter g"
  "apiWaiters (rememberVersionLocked key version g) = apiWaiters g"
  "group_lifecycle (rememberVersionLocked key version g) = group_lifecycle g"
  "length (epochs (rememberVersionLocked key version g)) = length (epochs g)"
  by (auto simp: rememberVersionLocked_def retireOldest_def bumpEpoch_def Let_def split: option.split)

lemma remember_spec:
  fixes key :: string
  assumes "group_inv g" "0 < version"
  defines "g' \<equiv> rememberVersionLocked key version g"
  shows "floors_inv (floors g') \<and> floor_at (floors g') key = max (floor_at (floors g) key) version \<and>
         (epochs g' = epochs g \<and> (\<forall>j. j \<noteq> key \<longrightarrow> floor_at (floors g') j = floor_at (floors g) j) \<or>
          (\<exists>old. epochs g' = epochs (bumpEpoch old g) \<and>
             (\<forall>j. j \<noteq> key \<and> j \<noteq> old \<longrightarrow> floor_at (floors g') j = floor_at (floors g) j) \<and>
             (old \<noteq> key \<longrightarrow> floor_at (floors g') old = 0)))"
proof -
  let ?f = "floors g"
  have inv: "floors_inv ?f" using assms(1) by (simp add: group_inv_def)
  show ?thesis
  proof (rule floor_at_cases [OF inv, of key])
    fix e r
    assume e: "floor_entries ?f key = Some e" "map_of (advanced ?f) e = Some r" "rec_key r = key"
      "floor_at ?f key = rec_version r"
    show ?thesis
    proof (cases "rec_version r < version")
      case True
      with floors_advance [OF inv e(2) True] e assms(2) show ?thesis
        by (auto simp: g'_def rememberVersionLocked_def)
    next
      case False
      with e inv assms(2) show ?thesis by (auto simp: g'_def rememberVersionLocked_def)
    qed
  next
    assume none: "floor_entries ?f key = None" "floor_at ?f key = 0"
    have card: "card (dom (floor_entries ?f)) = length (advanced ?f)"
      using inv linked_card by (auto simp: floors_inv_def)
    show ?thesis
    proof (cases "length (advanced ?f) = floor_capacity ?f")
      case False
      with inv have "length (advanced ?f) < floor_capacity ?f" by (simp add: floors_inv_def)
      from floors_insert [OF inv none(1) assms(2) this] none False card assms(2) show ?thesis
        by (auto simp: g'_def rememberVersionLocked_def Let_def)
    next
      case True
      with inv have "advanced ?f \<noteq> []" by (auto simp: floors_inv_def)
      then obtain old where old: "floors_inv (floors (retireOldest g))"
        "floor_at (floors (retireOldest g)) old = 0"
        "\<forall>j. j \<noteq> old \<longrightarrow> floor_at (floors (retireOldest g)) j = floor_at ?f j"
        "length (advanced (floors (retireOldest g))) < floor_capacity (floors (retireOldest g))"
        "floor_entries (floors (retireOldest g)) key = None"
        "epochs (retireOldest g) = epochs (bumpEpoch old g)"
        using retireOldest_spec [OF assms(1)] none True by auto
      note ins = floors_insert [OF old(1,5) assms(2) old(4)]
      have g': "floors g' = (floors (retireOldest g))
            \<lparr>floor_entries := (floor_entries (floors (retireOldest g)))(key \<mapsto> floor_next (floors (retireOldest g))),
             advanced := list_PushFront (floor_next (floors (retireOldest g)))
               \<lparr>rec_key = key, rec_version = version\<rparr> (advanced (floors (retireOldest g))),
             floor_next := floor_next (floors (retireOldest g)) + 1\<rparr>"
        "epochs g' = epochs (bumpEpoch old g)"
        using none True card assms(2) old(6) by (simp_all add: g'_def rememberVersionLocked_def Let_def)
      from ins old none assms(2) show ?thesis
        unfolding g' by (auto intro!: exI [of _ old])
    qed
  qed
qed

subsection \<open>Operations under the epoch lock\<close>

lemma bumpEpoch_nth:
  "b < length (epochs g) \<Longrightarrow>
     epochs (bumpEpoch key g) ! b = epochs g ! b + of_nat (if b = epochBucket g key then 1 else 0)"
  by (simp add: bumpEpoch_def nth_list_update)

lemma observe_frame [simp]:
  "mainCache (observe op res d g) = mainCache g" "floors (observe op res d g) = floors g"
  "epochs (observe op res d g) = epochs g" "group_opts (observe op res d g) = group_opts g"
  "group_bloom (observe op res d g) = group_bloom g" "group_limiter (observe op res d g) = group_limiter g"
  "apiWaiters (observe op res d g) = apiWaiters g" "group_lifecycle (observe op res d g) = group_lifecycle g"
  by (simp_all add: observe_def)

lemma group_inv_cong:
  assumes "group_inv g" "cache_inv (mainCache g')" "floors_inv (floors g')" "length (epochs g') = length (epochs g)"
    and "group_opts g' = group_opts g" "group_bloom g' = group_bloom g"
  shows "group_inv g'"
  using assms by (simp add: group_inv_def)

lemma observe_inv [simp]: "group_inv (observe op res d g) \<longleftrightarrow> group_inv g"
  by (simp add: group_inv_def)

definition known_at :: "gotime \<Rightarrow> string \<Rightarrow> Group \<Rightarrow> int" where
  "known_at now key g = max (floor_at (floors g) key) (live_version now key (mainCache g))"

lemma knownVersionLocked_spec:
  assumes "group_inv g"
  shows "\<exists>c. knownVersionLocked now key g = (known_at now key g, g\<lparr>mainCache := c\<rparr>) \<and>
           keeps (mainCache g) c \<and> cached c = drop_dead now key (cached (mainCache g)) \<and>
           group_inv (g\<lparr>mainCache := c\<rparr>)"
proof -
  have ci: "cache_inv (mainCache g)" using assms by (simp add: group_inv_def)
  obtain v c where vc: "cache_version now key (mainCache g) = (v, c)"
    by (cases "cache_version now key (mainCache g)")
  have "v = live_version now key (mainCache g)" "keeps (mainCache g) c"
    "cached c = drop_dead now key (cached (mainCache g))"
    using cache_version_live [OF ci, of now key] cache_version_keeps [OF ci, of now key]
      cache_version_cached [OF ci, of now key] vc by simp_all
  with assms vc show ?thesis
    by (auto simp: knownVersionLocked_def known_at_def group_inv_def keeps_def)
qed

definition epochs_grew :: "Group \<Rightarrow> (nat \<Rightarrow> nat) \<Rightarrow> Group \<Rightarrow> bool" where
  "epochs_grew g d g' \<longleftrightarrow>
     length (epochs g') = length (epochs g) \<and>
     (\<forall>b < length (epochs g). epochs g' ! b = epochs g ! b + of_nat (d b))"

lemma epochs_grew_refl: "epochs g' = epochs g \<Longrightarrow> epochs_grew g (\<lambda>_. 0) g'"
  by (simp add: epochs_grew_def)

lemma epochs_grew_bump:
  "epochs g' = epochs (bumpEpoch key g) \<Longrightarrow> epochs_grew g (\<lambda>b. if b = epochBucket g key then 1 else 0) g'"
  by (simp add: epochs_grew_def bumpEpoch_nth)

lemma epochs_grew_trans:
  "epochs_grew g d g' \<Longrightarrow> epochs_grew g' d' g'' \<Longrightarrow> epochs_grew g (\<lambda>b. d b + d' b) g''"
  by (auto simp: epochs_grew_def)

lemma remember_epochs:
  fixes key :: string and version :: int
  assumes "group_inv g"
  defines "g' \<equiv> rememberVersionLocked key version g"
  shows "group_inv g' \<and> 
         floor_at (floors g') key = (if 0 < version then max (floor_at (floors g) key) version
                                     else floor_at (floors g) key) \<and>
         (\<exists>d. epochs_grew g d g' \<and> (\<forall>b. d b \<le> 1) \<and>
            (\<forall>j. j \<noteq> key \<longrightarrow> floor_at (floors g') j = floor_at (floors g) j \<or>
                  floor_at (floors g') j = 0 \<and> 0 < d (epochBucket g j)))"
proof (cases "0 < version")
  case False
  with assms show ?thesis by (auto intro!: exI [of _ "\<lambda>_. 0"] epochs_grew_refl)
next
  case True
  from remember_spec [OF assms(1) True, of key, folded g'_def]
  have spec: "floors_inv (floors g')" "floor_at (floors g') key = max (floor_at (floors g) key) version"
    and "epochs g' = epochs g \<and> (\<forall>j. j \<noteq> key \<longrightarrow> floor_at (floors g') j = floor_at (floors g) j) \<or>
          (\<exists>old. epochs g' = epochs (bumpEpoch old g) \<and>
             (\<forall>j. j \<noteq> key \<and> j \<noteq> old \<longrightarrow> floor_at (floors g') j = floor_at (floors g) j) \<and>
             (old \<noteq> key \<longrightarrow> floor_at (floors g') old = 0))"
    by auto
  then have "\<exists>d. epochs_grew g d g' \<and> (\<forall>b. d b \<le> 1) \<and>
      (\<forall>j. j \<noteq> key \<longrightarrow> floor_at (floors g') j = floor_at (floors g) j \<or>
            floor_at (floors g') j = 0 \<and> 0 < d (epochBucket g j))"
  proof (elim disjE exE conjE)
    assume "epochs g' = epochs g" "\<forall>j. j \<noteq> key \<longrightarrow> floor_at (floors g') j = floor_at (floors g) j"
    then show ?thesis by (intro exI [of _ "\<lambda>_. 0"]) (simp add: epochs_grew_refl)
  next
    fix old
    assume "epochs g' = epochs (bumpEpoch old g)"
      "\<forall>j. j \<noteq> key \<and> j \<noteq> old \<longrightarrow> floor_at (floors g') j = floor_at (floors g) j"
      "old \<noteq> key \<longrightarrow> floor_at (floors g') old = 0"
    then show ?thesis
      by (intro exI [of _ "\<lambda>b. if b = epochBucket g old then 1 else 0"]) (auto simp: epochs_grew_bump)
  qed
  moreover have "group_inv g'"
    by (rule group_inv_cong [OF assms(1)]) (use assms(1) spec in \<open>simp_all add: g'_def group_inv_def\<close>)
  ultimately show ?thesis using spec True by simp
qed

text \<open>What an accepted invalidation leaves: the cache part first, then the whole call.\<close>

lemma purge_spec:
  fixes key :: string and t2 :: gotime
  assumes "cache_inv c" "0 \<le> version" "version \<le> minimum"
  defines "c' \<equiv> purge t2 key version minimum c"
  shows "keeps c c'" "j \<noteq> key \<Longrightarrow> cached c' j = cached c j"
    and "cached c' key = Some (v, t) \<Longrightarrow> cached c key = Some (v, t) \<and> version \<noteq> 0 \<and> minimum \<le> Version v"
proof -
  obtain v1 c1 where v1: "cache_version t2 key c = (v1, c1)" by (cases "cache_version t2 key c")
  have c1: "v1 = live_version t2 key c" "keeps c c1" "cached c1 = drop_dead t2 key (cached c)"
    using cache_version_live [OF assms(1), of t2 key] cache_version_keeps [OF assms(1), of t2 key]
      cache_version_cached [OF assms(1), of t2 key] v1 by simp_all
  then have i1: "cache_inv c1" by (simp add: keeps_def)
  note rem = cache_remove_keeps [OF assms(1), of key] cache_remove_cached [OF assms(1), of key]
  note rem1 = cache_remove_keeps [OF i1, of key] cache_remove_cached [OF i1, of key]
  show "keeps c c'"
    using rem(1) rem1(1) c1(2) by (auto simp: c'_def purge_def v1 intro: keeps_trans)
  show "j \<noteq> key \<Longrightarrow> cached c' j = cached c j"
    using rem(2) rem1(2) c1(3) by (auto simp: c'_def purge_def v1 drop_dead_def)
  assume *: "cached c' key = Some (v, t)"
  then have "version \<noteq> 0" "\<not> v1 < minimum" "c' = c1"
    using rem(2) rem1(2) by (auto simp: c'_def purge_def v1 split: if_splits)
  moreover from this * c1(3) have "cached c key = Some (v, t)" "live_view t2 key c = Some v"
    by (auto simp: drop_dead_def live_view_def live_value_def split: if_splits option.splits)
  ultimately show "cached c key = Some (v, t) \<and> version \<noteq> 0 \<and> minimum \<le> Version v"
    using c1(1) by (simp add: live_version_def)
qed

lemma observe_events: "\<exists>evs. observe op res d g = g\<lparr>events := evs\<rparr>"
  by (auto simp: observe_def intro: exI [of _ "events g"])

lemma InvalidateVersion_accepted:
  assumes "ValidateKey key = None" "0 \<le> version" "knownVersionLocked t1 key g = (known, g1)"
  defines "g2 \<equiv> rememberVersionLocked key (max known version) g1"
  defines "g3 \<equiv> (if version = 0 \<or> version > known then bumpEpoch key g2 else g2)"
  shows "\<exists>evs. InvalidateVersion t1 t2 key version g =
           (None, g3\<lparr>mainCache := purge t2 key version (max known version) (mainCache g3), events := evs\<rparr>)"
proof -
  let ?g4 = "g3\<lparr>mainCache := purge t2 key version (max known version) (mainCache g3)\<rparr>"
  have "\<exists>evs. observe a b d (observe a' b' d' ?g4) = ?g4\<lparr>events := evs\<rparr>" for a b d a' b' d'
    using observe_events [of a b d "observe a' b' d' ?g4"] observe_events [of a' b' d' ?g4] by auto
  moreover have "\<exists>evs. observe a b d ?g4 = ?g4\<lparr>events := evs\<rparr>" for a b d
    by (rule observe_events)
  ultimately show ?thesis
    using assms(1,2) unfolding InvalidateVersion_def assms(3) g3_def g2_def Let_def
    by (cases "version > 0") simp_all
qed

lemma InvalidateVersion_spec:
  fixes t1 t2 :: gotime
  assumes "group_inv g" "ValidateKey key = None" "0 \<le> version"
  defines "g' \<equiv> snd (InvalidateVersion t1 t2 key version g)"
    and "m \<equiv> max (known_at t1 key g) version"
  shows "group_inv g' \<and> keeps (mainCache g) (mainCache g') \<and>
         (\<forall>j. j \<noteq> key \<longrightarrow> cached (mainCache g') j = cached (mainCache g) j) \<and>
         (\<forall>v t. cached (mainCache g') key = Some (v, t) \<longrightarrow> version \<noteq> 0 \<and> m \<le> Version v) \<and>
         floor_at (floors g') key = m \<and>
         (\<exists>d. epochs_grew g d g' \<and> (\<forall>b. d b \<le> 2) \<and>
            (version = 0 \<or> known_at t1 key g < version \<longrightarrow> 0 < d (epochBucket g key)) \<and>
            (\<forall>j. j \<noteq> key \<longrightarrow> floor_at (floors g') j = floor_at (floors g) j \<or>
                  floor_at (floors g') j = 0 \<and> 0 < d (epochBucket g j)))"
proof -
  let ?known = "known_at t1 key g" and ?applied = "version = 0 \<or> known_at t1 key g < version"
  obtain c where c: "knownVersionLocked t1 key g = (?known, g\<lparr>mainCache := c\<rparr>)"
      "keeps (mainCache g) c" "cached c = drop_dead t1 key (cached (mainCache g))"
    and inv1: "group_inv (g\<lparr>mainCache := c\<rparr>)"
    using knownVersionLocked_spec [OF assms(1)] by blast
  define g2 where "g2 = rememberVersionLocked key m (g\<lparr>mainCache := c\<rparr>)"
  obtain d where inv2: "group_inv g2"
    and fl: "floor_at (floors g2) key = (if 0 < m then max (floor_at (floors g) key) m else floor_at (floors g) key)"
    and d: "epochs_grew (g\<lparr>mainCache := c\<rparr>) d g2" "\<forall>b. d b \<le> 1"
    and oth: "\<forall>j. j \<noteq> key \<longrightarrow> floor_at (floors g2) j = floor_at (floors g) j \<or>
                floor_at (floors g2) j = 0 \<and> 0 < d (epochBucket g j)"
    using remember_epochs [OF inv1, of key m, folded g2_def] epochBucket_opts [of "g\<lparr>mainCache := c\<rparr>" g] by auto
  have opts2: "epochBucket g2 = epochBucket g" "mainCache g2 = c"
    by (auto simp: g2_def intro: epochBucket_opts)
  define g3 where "g3 = (if ?applied then bumpEpoch key g2 else g2)"
  let ?d = "\<lambda>b. d b + (if ?applied \<and> b = epochBucket g key then 1 else 0)"
  have grew: "epochs_grew g ?d g3"
    using d(1) opts2 by (auto simp: epochs_grew_def g3_def bumpEpoch_nth)
  have fl3: "floors g3 = floors g2" "mainCache g3 = c" "group_inv g3"
    using inv2 opts2 by (auto simp: g3_def intro: group_inv_cong simp: group_inv_def)
  obtain evs where g': "g' = g3\<lparr>mainCache := purge t2 key version m c, events := evs\<rparr>"
    using InvalidateVersion_accepted [OF assms(2,3) c(1), of t2, folded m_def, folded g2_def, folded g3_def]
    by (auto simp only: g'_def fl3 snd_conv)
  have ci: "cache_inv c" using c(2) by (simp add: keeps_def)
  have keep: "keeps c (mainCache g')" and oc: "\<And>j. j \<noteq> key \<Longrightarrow> cached (mainCache g') j = cached c j"
    and own: "\<And>v t. cached (mainCache g') key = Some (v, t) \<Longrightarrow> version \<noteq> 0 \<and> m \<le> Version v"
    using purge_spec [OF ci assms(3), where minimum = m and key = key and ?t2.0 = t2] by (auto simp: g' m_def)
  have "group_inv g'"
    using fl3(3) keep by (auto simp: g' keeps_def group_inv_def)
  moreover have "keeps (mainCache g) (mainCache g')"
    using keeps_trans [OF c(2) keep] .
  moreover have "\<forall>j. j \<noteq> key \<longrightarrow> cached (mainCache g') j = cached (mainCache g) j"
    using oc c(3) by (simp add: drop_dead_def)
  moreover have "floor_at (floors g') key = m"
    using fl floor_at_nonneg [of "floors g" key] assms(1,3) fl3(1)
    by (auto simp: g' m_def known_at_def group_inv_def)
  moreover have "\<exists>d. epochs_grew g d g' \<and> (\<forall>b. d b \<le> 2) \<and> (?applied \<longrightarrow> 0 < d (epochBucket g key)) \<and>
      (\<forall>j. j \<noteq> key \<longrightarrow> floor_at (floors g') j = floor_at (floors g) j \<or>
         floor_at (floors g') j = 0 \<and> 0 < d (epochBucket g j))"
  proof (intro exI [of _ ?d] conjI)
    show "epochs_grew g ?d g'" using grew by (simp add: g' epochs_grew_def)
    show "\<forall>b. ?d b \<le> 2" using d(2) by (auto simp: numeral_2_eq_2 intro: le_SucI)
    show "\<forall>j. j \<noteq> key \<longrightarrow> floor_at (floors g') j = floor_at (floors g) j \<or>
        floor_at (floors g') j = 0 \<and> 0 < ?d (epochBucket g j)"
      using oth fl3(1) by (auto simp: g')
  qed simp
  ultimately show ?thesis using own by (intro conjI allI impI) simp_all
qed

lemma InvalidateVersion_rejected:
  "ValidateKey key \<noteq> None \<or> version < 0 \<Longrightarrow> snd (InvalidateVersion t1 t2 key version g) = g"
  by (auto simp: InvalidateVersion_def split: option.split)

lemma readBarrier_spec:
  assumes "group_inv g"
  shows "\<exists>c. readBarrier now key g =
             (\<lparr>fence_epoch = epochs g ! epochBucket g key, fence_minimum = known_at now key g\<rparr>, g\<lparr>mainCache := c\<rparr>) \<and>
           keeps (mainCache g) c \<and> group_inv (g\<lparr>mainCache := c\<rparr>)"
  using knownVersionLocked_spec [OF assms, of now key] by (auto simp: readBarrier_def currentEpoch_def)

lemma CleanExpired_spec:
  assumes "group_inv g"
  shows "\<exists>c evs. CleanExpired busy clk start now stop g = g\<lparr>mainCache := c, events := evs\<rparr> \<and>
           keeps (mainCache g) c \<and> group_inv (g\<lparr>mainCache := c\<rparr>)"
proof -
  have ci: "cache_inv (mainCache g)" using assms by (simp add: group_inv_def)
  obtain ch rm b c where r: "cleanExpired busy clk now (opt_CleanupBatch (group_opts g)) (mainCache g) = ((ch, rm, b), c)"
    by (metis prod_cases3 surj_pair)
  have "keeps (mainCache g) c"
    using cleanExpired_keeps [OF ci, of busy clk now "opt_CleanupBatch (group_opts g)"] r by simp
  moreover have "\<exists>evs. CleanExpired busy clk start now stop g = g\<lparr>mainCache := c, events := evs\<rparr>"
    by (auto simp: CleanExpired_def r Let_def intro: exI [of _ "events g"])
  ultimately show ?thesis
    using assms by (auto simp: group_inv_def keeps_def)
qed

lemma InvalidateVersion_frame:
  fixes t1 t2 :: gotime and key :: string and version :: int
  defines "f \<equiv> \<lambda>g. (group_opts g, group_bloom g, group_limiter g, apiWaiters g, group_lifecycle g)"
  shows "f (snd (InvalidateVersion t1 t2 key version g)) = f g"
proof (cases "ValidateKey key = None \<and> 0 \<le> version")
  case True
  obtain known g1 where k: "knownVersionLocked t1 key g = (known, g1)" by (cases "knownVersionLocked t1 key g")
  then have "f g1 = f g" by (auto simp: f_def knownVersionLocked_def split: prod.splits)
  with InvalidateVersion_accepted [OF _ _ k, of version t2] True show ?thesis by (auto simp: f_def)
qed (simp add: InvalidateVersion_rejected not_le)

lemma InvalidateVersion_name: "group_name (snd (InvalidateVersion t1 t2 key version g)) = group_name g"
proof (cases "ValidateKey key = None \<and> 0 \<le> version")
  case True
  obtain known g1 where k: "knownVersionLocked t1 key g = (known, g1)" by (cases "knownVersionLocked t1 key g")
  then have "group_name g1 = group_name g" by (auto simp: knownVersionLocked_def split: prod.splits)
  moreover have "group_name (rememberVersionLocked key v h) = group_name h" "group_name (bumpEpoch key h) = group_name h" for v h
    by (auto simp: rememberVersionLocked_def retireOldest_def bumpEpoch_def Let_def split: option.split)
  ultimately show ?thesis
    using InvalidateVersion_accepted [OF _ _ k, of version t2] True by auto
qed (simp add: InvalidateVersion_rejected not_le)

lemma InvalidateVersion_opts: "group_opts (snd (InvalidateVersion t1 t2 key version g)) = group_opts g"
  using InvalidateVersion_frame [of t1 t2 key version g] by simp

lemma InvalidateVersion_ok:
  "fst (InvalidateVersion t1 t2 key version g) = None \<longleftrightarrow> ValidateKey key = None \<and> 0 \<le> version"
  by (auto simp: InvalidateVersion_def Let_def split: option.split prod.split)

subsection \<open>Construction\<close>

lemma normalizeOptions_bounds:
  assumes "normalizeOptions opts = Inr o'"
  shows "0 < opt_TTL o' \<and> 0 < opt_SourceTimeout o' \<and> 0 < opt_CleanupInterval o' \<and> 0 < opt_CleanupBatch o' \<and>
         0 < opt_MaxMissWaiters o' \<and> opt_Limiter o' \<noteq> None \<and> opt_Lifecycle o' \<noteq> None \<and>
         1 \<le> opt_EpochBuckets o' \<and> opt_EpochBuckets o' \<le> 256 \<and> powerOfTwo (opt_EpochBuckets o')"
proof -
  have lim: "\<exists>l. NewSourceLimiter 32 = Inr l"
    by (simp add: NewSourceLimiter_def NewSourceLimiterWithQueue_def DefaultSourcePending_def)
  define o1 where "o1 = (if opt_TTL opts = 0 then opts\<lparr>opt_TTL := Minute\<rparr> else opts)"
  define o2 where "o2 = (if opt_SourceTimeout o1 = 0 then o1\<lparr>opt_SourceTimeout := defaultSourceTimeout\<rparr> else o1)"
  define o3 where "o3 = (if opt_Lifecycle o2 = None then o2\<lparr>opt_Lifecycle := Some Background\<rparr> else o2)"
  define o4 where "o4 = (if opt_Limiter o3 = None
    then (case NewSourceLimiter 32 of Inl _ \<Rightarrow> o3 | Inr l \<Rightarrow> o3\<lparr>opt_Limiter := Some l\<rparr>) else o3)"
  define o5 where "o5 = (if opt_EpochBuckets o4 = 0 then o4\<lparr>opt_EpochBuckets := 256\<rparr> else o4)"
  define o6 where "o6 = (if opt_MaxMissWaiters o5 = 0 then o5\<lparr>opt_MaxMissWaiters := DefaultMissWaiters\<rparr> else o5)"
  define o7 where "o7 = (if opt_CleanupInterval o6 = 0 then o6\<lparr>opt_CleanupInterval := Second\<rparr> else o6)"
  define o8 where "o8 = (if opt_CleanupBatch o7 = 0 then o7\<lparr>opt_CleanupBatch := 128\<rparr> else o7)"
  note res = assms [unfolded normalizeOptions_def Let_def, folded o1_def, folded o2_def, folded o3_def,
      folded o4_def, folded o5_def, folded o6_def, folded o7_def, folded o8_def]
  have neg: "0 \<le> opt_TTL opts" "0 \<le> opt_SourceTimeout opts" "o' = o8"
    and ep: "1 \<le> opt_EpochBuckets o5" "opt_EpochBuckets o5 \<le> 256" "powerOfTwo (opt_EpochBuckets o5)"
    and adm: "1 \<le> opt_MaxMissWaiters o8" "0 \<le> opt_CleanupInterval o8" "1 \<le> opt_CleanupBatch o8"
    using res by (simp_all split: if_splits)
  have "0 < opt_TTL o1" "opt_SourceTimeout o1 = opt_SourceTimeout opts"
    using neg by (simp_all add: o1_def duration_defs)
  then have "0 < opt_TTL o2" "0 < opt_SourceTimeout o2"
    using neg by (simp_all add: o2_def duration_defs defaultSourceTimeout_def)
  then have "0 < opt_TTL o3" "0 < opt_SourceTimeout o3" "opt_Lifecycle o3 \<noteq> None"
    by (simp_all add: o3_def)
  then have "0 < opt_TTL o4" "0 < opt_SourceTimeout o4" "opt_Lifecycle o4 \<noteq> None" "opt_Limiter o4 \<noteq> None"
    using lim by (auto simp: o4_def)
  then have "0 < opt_TTL o5" "0 < opt_SourceTimeout o5" "opt_Lifecycle o5 \<noteq> None" "opt_Limiter o5 \<noteq> None"
    by (simp_all add: o5_def)
  then have "0 < opt_TTL o6" "0 < opt_SourceTimeout o6" "opt_Lifecycle o6 \<noteq> None" "opt_Limiter o6 \<noteq> None"
    "opt_EpochBuckets o6 = opt_EpochBuckets o5"
    by (simp_all add: o6_def)
  then show ?thesis
    using adm ep by (auto simp: neg o8_def o7_def duration_defs split: if_splits)
qed

lemma NewGroup_inv:
  assumes "NewGroup ceilBits roundHashes name capacity hasGetter options = Inr g"
  shows "group_inv g" "cached (mainCache g) = Map.empty" "floor_at (floors g) key = 0"
    "epochs g = replicate 256 0"
proof -
  obtain o' where o': "normalizeOptions options = Inr o'" "0 < capacity"
    using assms by (auto simp: NewGroup_def split: if_splits sum.splits)
  note bounds = normalizeOptions_bounds [OF o'(1)]
  have g: "mainCache g = newCache capacity" "epochs g = replicate 256 0" "group_opts g = o'"
    "floors g = \<lparr>floor_capacity = DefaultVersionRecords, floor_entries = Map.empty,
                  advanced = [], floor_evictions = 0, floor_next = 0\<rparr>"
    "case group_bloom g of None \<Rightarrow> True | Some bf \<Rightarrow> bloom_inv bf"
    using assms o' by (auto simp: NewGroup_def Let_def newBloomForKeys_inv split: if_splits option.splits)
  have "floors_inv (floors g)"
    by (simp add: g floors_inv_def DefaultVersionRecords_def)
  with g bounds o'(2) newCache_inv [of capacity] show "group_inv g"
    by (simp add: group_inv_def)
  show "cached (mainCache g) = Map.empty" "floor_at (floors g) key = 0" "epochs g = replicate 256 0"
    using g by (simp_all add: floor_at_def)
qed

section \<open>Properties\<close>

definition sampleOptions :: Options where
  "sampleOptions = \<lparr>opt_TTL = Minute, opt_KnownKeys = None, opt_SourceTimeout = Second, opt_Limiter = None,
     opt_Lifecycle = None, opt_Observer = PlainObserver, opt_EpochBuckets = 256, opt_MaxMissWaiters = 8,
     opt_CleanupInterval = Second, opt_CleanupBatch = 16\<rparr>"

definition sampleGroup :: Group where
  "sampleGroup = \<lparr>group_name = ''g'', mainCache = newCache 64, group_bloom = None,
     floors = \<lparr>floor_capacity = 2, floor_entries = Map.empty, advanced = [], floor_evictions = 0, floor_next = 0\<rparr>,
     epochs = replicate 256 0, group_opts = sampleOptions, apiWaiters = 0,
     group_limiter = \<lparr>slots = 0, slots_cap = 4, waiting = 0, waiting_cap = 4\<rparr>,
     group_lifecycle = Background, events = []\<rparr>"

lemma sampleGroup_inv: "group_inv sampleGroup"
  by (simp add: group_inv_def sampleGroup_def sampleOptions_def newCache_inv floors_inv_def)

lemma cache_get_found:
  "cache_inv c \<Longrightarrow> fst (cache_get now key c) = Some v \<Longrightarrow> \<exists>t. cached c key = Some (v, t)"
  by (auto simp: cache_get_view dest: live_view_cached)



fun invalidate_all :: "(gotime \<times> gotime \<times> string \<times> int) list \<Rightarrow> Group \<Rightarrow> Group" where
  "invalidate_all [] g = g"
| "invalidate_all ((t1, t2, key, version) # xs) g =
     invalidate_all xs (snd (InvalidateVersion t1 t2 key version g))"

lemma InvalidateVersion_capacity:
  "floor_capacity (floors (snd (InvalidateVersion t1 t2 key version g))) = floor_capacity (floors g)"
proof (cases "ValidateKey key = None \<and> 0 \<le> version")
  case True
  have ret: "floor_capacity (floors (retireOldest h)) = floor_capacity (floors h)" for h
    by (simp add: retireOldest_def Let_def split: option.split)
  have rem: "floor_capacity (floors (rememberVersionLocked k v h)) = floor_capacity (floors h)" for k v h
    using ret [of h] by (simp add: rememberVersionLocked_def Let_def split: option.split)
  obtain known g1 where k: "knownVersionLocked t1 key g = (known, g1)" by (cases "knownVersionLocked t1 key g")
  then have "floors g1 = floors g" by (auto simp: knownVersionLocked_def split: prod.splits)
  with InvalidateVersion_accepted [OF _ _ k, of version t2] True rem show ?thesis by auto
qed (simp add: InvalidateVersion_rejected not_le)

lemma InvalidateVersion_inv: "group_inv g \<Longrightarrow> group_inv (snd (InvalidateVersion t1 t2 key version g))"
  using InvalidateVersion_spec [of g key version t1 t2] InvalidateVersion_rejected [of key version t1 t2 g]
  by (cases "ValidateKey key = None \<and> 0 \<le> version") auto

lemma invalidate_all_inv:
  "group_inv g \<Longrightarrow> group_inv (invalidate_all xs g) \<and>
     floor_capacity (floors (invalidate_all xs g)) = floor_capacity (floors g)"
  by (induction xs g rule: invalidate_all.induct) (auto simp: InvalidateVersion_inv InvalidateVersion_capacity)

text \<open>
  C15: version metadata stays bounded. Whatever sequence of invalidations a new group receives, it
  keeps at most \<open>DefaultVersionRecords\<close> floors, the statistics report exactly their number, and
  every stripe index lies inside the epoch array.
\<close>

theorem floors_bounded:
  fixes xs :: "(gotime \<times> gotime \<times> string \<times> int) list"
  assumes "NewGroup ceilBits roundHashes name capacity hasGetter options = Inr g0"
  defines "g \<equiv> invalidate_all xs g0"
  shows "VersionRecords (group_Stats g) = length (advanced (floors g)) \<and>
         VersionRecords (group_Stats g) \<le> DefaultVersionRecords \<and> epochBucket g key < length (epochs g)"
proof -
  have "floor_capacity (floors g0) = DefaultVersionRecords"
    using assms(1) by (auto simp: NewGroup_def Let_def split: if_splits sum.splits option.splits)
  with invalidate_all_inv [OF NewGroup_inv(1) [OF assms(1)], of xs]
  have inv: "group_inv g" "floor_capacity (floors g) = DefaultVersionRecords" by (simp_all add: g_def)
  then have fl: "floors_inv (floors g)" by (simp add: group_inv_def)
  then have "card (dom (floor_entries (floors g))) = length (advanced (floors g))"
    using linked_card by (auto simp: floors_inv_def)
  with fl inv epochBucket_less [OF inv(1), of key] show ?thesis
    by (simp add: group_Stats_def floors_inv_def)
qed

theorem floors_bounded_witness:
  "\<exists>g. NewGroup (\<lambda>_. 64) (\<lambda>_ _. 1) ''products'' 1024 True sampleOptions = Inr g \<and>
     VersionRecords (group_Stats (invalidate_all [(0, 0, ''a'', 3), (1, 1, ''b'', 1)] g)) \<le> DefaultVersionRecords"
proof -
  obtain g where g: "NewGroup (\<lambda>_. 64) (\<lambda>_ _. 1) ''products'' 1024 True sampleOptions = Inr g"
    by (simp add: NewGroup_def normalizeOptions_def sampleOptions_def Let_def NewSourceLimiter_def
        NewSourceLimiterWithQueue_def DefaultSourcePending_def duration_defs powerOfTwo_def)
  from floors_bounded [OF g, where xs = "[(0, 0, ''a'', 3), (1, 1, ''b'', 1)]"] g show ?thesis by blast
qed

end
