(* ===== verification/Group_Read.thy ===== *)
theory Group_Read
  imports Versions
begin

text \<open>
  \<open>internal/cache/read.go\<close> and \<open>internal/cache/load.go\<close>: lookups, the shared load of a missing
  key, and \<open>Get\<close>. A load runs in its own goroutine (a flight) and other goroutines run between
  its locked sections, so its code is cut at the points where it takes a lock, blocks or calls the
  source: \<open>flight_step\<close> executes one piece and \<open>flight_phase\<close> says where the goroutine stands.
  The clock readings of a piece are \<open>clk 0, clk 1, \<dots>\<close> in the order the code takes them.
\<close>

section \<open>Lookups\<close>

definition lookup ::
  "gocontext \<Rightarrow> (nat \<Rightarrow> gotime) \<Rightarrow> string \<Rightarrow> Group \<Rightarrow> (ByteView \<times> bool \<times> goerror option) \<times> Group" where
  "lookup ctx clk key g =
     (case ctx_Err ctx (clk 0) of
        Some err \<Rightarrow> ((emptyView, False, Some err), g)
      | None \<Rightarrow>
     (case ValidateKey key of
        Some err \<Rightarrow> ((emptyView, False, Some err), g)
      | None \<Rightarrow>
     (case cache_get (clk 1) key (mainCache g) of
        (Some v, c) \<Rightarrow> ((v, True, None), g\<lparr>mainCache := c\<rparr>)
      | (None, c) \<Rightarrow>
          (let g1 = g\<lparr>mainCache := c\<rparr>
           in if (case group_bloom g1 of None \<Rightarrow> False | Some bf \<Rightarrow> bloom_Contains bf key = Some False)
              then ((emptyView, False, Some (Wrap ('': '' @ key) ErrNotFound)),
                    observe ''bloom'' ''rejected'' 0 g1)
              else ((emptyView, False, None), g1)))))"

definition lookupAtLeast ::
  "gocontext \<Rightarrow> (nat \<Rightarrow> gotime) \<Rightarrow> string \<Rightarrow> int \<Rightarrow> Group \<Rightarrow> (ByteView \<times> bool \<times> goerror option) \<times> Group" where
  "lookupAtLeast ctx clk key minimum g =
     (case lookup ctx clk key g of
        ((v, hit, err), g') \<Rightarrow>
          if hit \<and> Version v < minimum then ((emptyView, False, None), g') else ((v, hit, err), g'))"

section \<open>Flights\<close>

text \<open>What the source returned: a versioned getter gives value and version, a plain one bytes.\<close>

datatype getter_answer =
    AnsVersioned bytes int "goerror option"
  | AnsPlain bytes "goerror option"

fun sourceAnswer :: "getter_answer \<Rightarrow> bytes \<times> int \<times> goerror option" where
  "sourceAnswer (AnsVersioned loaded version err) =
     (loaded, version,
      if err = None \<and> version \<le> 0 then Some (NewError ''invalid source version'') else err)"
| "sourceAnswer (AnsPlain loaded err) = (loaded, 0, err)"

record sourceResult =
  res_value :: ByteView
  res_minimum :: int

datatype flight_phase =
    FStart
  | FLoad
  | FQueued gotime
  | FLeaving gotime "goerror option"
  | FReady
  | FCalling gotime
  | FAnswered gotime getter_answer
  | FRetry
  | FRelook
  | FReturn ByteView "goerror option"

record flight =
  f_key :: string
  f_fence :: readFence
  f_retry :: readFence
  f_attempt :: nat
  f_work :: gocontext
  f_phase :: flight_phase

definition newFlight :: "string \<Rightarrow> readFence \<Rightarrow> flight" where
  "newFlight key fence =
     \<lparr>f_key = key, f_fence = fence, f_retry = fence, f_attempt = 0, f_work = Background, f_phase = FStart\<rparr>"

definition flightKey :: "readFence \<Rightarrow> string \<Rightarrow> string" where
  "flightKey fence key =
     decimal (unat (fence_epoch fence)) @ '':'' @ FormatInt (fence_minimum fence) @ '':'' @ key"

text \<open>The loop of the flight's closure after \<open>loadSource\<close> returned.\<close>

definition loaded_step ::
  "gotime \<Rightarrow> sourceResult \<Rightarrow> goerror option \<Rightarrow> flight \<Rightarrow> Group \<Rightarrow> flight \<times> Group" where
  "loaded_step now loaded err f g =
     (let f1 = f\<lparr>f_retry := withMinimum (res_minimum loaded) (f_retry f)\<rparr>
      in if \<not> (case err of None \<Rightarrow> False | Some e \<Rightarrow> errors_Is e ErrStaleVersion) \<or> f_attempt f = 1 \<or>
            ctx_Err (f_work f) now \<noteq> None
         then (f1\<lparr>f_phase := FReturn (res_value loaded) err\<rparr>, g)
         else (f1\<lparr>f_attempt := f_attempt f + 1, f_phase := FRetry\<rparr>, observe ''source_retry'' ''stale_version'' 0 g))"

definition rejectedResult :: "flight \<Rightarrow> sourceResult" where
  "rejectedResult f = \<lparr>res_value = emptyView, res_minimum = fence_minimum (f_retry f)\<rparr>"

text \<open>After \<open>acquire\<close> returned \<open>err\<close>; \<open>clk 0\<close> is read for the elapsed time.\<close>

definition slotResult :: "goerror option \<Rightarrow> string" where
  "slotResult err =
     (case err of
        None \<Rightarrow> ''acquired''
      | Some e \<Rightarrow> if errors_Is e Canceled then ''canceled''
                  else if errors_Is e ErrOverloaded then ''overloaded'' else ''timeout'')"

definition acquired_step ::
  "(nat \<Rightarrow> gotime) \<Rightarrow> gotime \<Rightarrow> goerror option \<Rightarrow> flight \<Rightarrow> Group \<Rightarrow> flight \<times> Group" where
  "acquired_step clk waitStart err f g =
     (let g1 = (if (case err of None \<Rightarrow> False | Some e \<Rightarrow> errors_Is e ErrOverloaded)
                then observe ''rejected'' ''source_queue'' 0 g else g);
          g2 = observe ''slot'' (slotResult err) (clk 0 - waitStart) g1
      in if err \<noteq> None then loaded_step (clk 1) (rejectedResult f) err f g2
         else (f\<lparr>f_phase := FReady\<rparr>, g2))"

text \<open>The deferred \<open>release\<close>; a release without a token would block.\<close>

definition releaseSlot :: "Group \<Rightarrow> Group option" where
  "releaseSlot g = map_option (\<lambda>l. g\<lparr>group_limiter := l\<rparr>) (limiter_release (group_limiter g))"

definition observeInflight :: "int \<Rightarrow> Group \<Rightarrow> Group" where
  "observeInflight delta g =
     (if opt_Observer (group_opts g) \<noteq> NoObserver then g\<lparr>events := events g @ [Inflight delta]\<rparr> else g)"

text \<open>
  The locked section of \<open>loadSource\<close> and the return after it: the version check, the epoch check
  and the insertion. \<open>clk 0\<close> is the reading of the version lookup, \<open>clk 1\<close> and \<open>clk 2\<close> those of
  \<open>add\<close>.
\<close>

definition load_commit ::
  "(nat \<Rightarrow> gotime) \<Rightarrow> string \<Rightarrow> readFence \<Rightarrow> bytes \<Rightarrow> int \<Rightarrow> Group \<Rightarrow>
   (sourceResult \<times> goerror option \<times> Group) option" where
  "load_commit clk key fence val version g =
     (let view = \<lparr>view_b = cloneBytes val, view_expiresAt = 0, view_version = version\<rparr>
      in case knownVersionLocked (clk 0) key g of (known, g1) \<Rightarrow>
        (let minimum = max (fence_minimum fence) known;
             stale = (version < minimum);
             valid = (fence_epoch fence = epochs g1 ! epochBucket g1 key \<and> \<not> stale)
         in case (if valid
                  then map_option (\<lambda>(v, c). (v, g1\<lparr>mainCache := c\<rparr>))
                         (cache_add (clk 1) (clk 2) key view (opt_TTL (group_opts g1)) (mainCache g1))
                  else Some (view, g1)) of
              None \<Rightarrow> None
            | Some (view', g2) \<Rightarrow>
                if stale
                then Some (\<lparr>res_value = emptyView, res_minimum = minimum\<rparr>, Some ErrStaleVersion,
                           observe ''discard_source'' ''source_version'' 0
                             (observe ''version_rejected'' ''source'' 0 g2))
                else Some (\<lparr>res_value = view', res_minimum = minimum\<rparr>, None,
                           if \<not> valid then observe ''discard_source'' ''epoch_changed'' 0 g2 else g2)))"

text \<open>\<open>loadSource\<close> from the source's answer to the result, before its deferred calls.\<close>

definition load_answered ::
  "(nat \<Rightarrow> gotime) \<Rightarrow> gotime \<Rightarrow> getter_answer \<Rightarrow> flight \<Rightarrow> Group \<Rightarrow>
   (sourceResult \<times> goerror option \<times> Group) option" where
  "load_answered clk start answer f g =
     (case sourceAnswer answer of (val, version, err0) \<Rightarrow>
        (let err1 = (if err0 = None then ctx_Err (f_work f) (clk 0) else err0);
             err2 = (if err1 = None \<and> length val > MaxValueBytes then Some ErrValueTooLarge else err1);
             g1 = observe ''source'' (Result err2) (clk 1 - start) g
         in if err2 \<noteq> None then Some (rejectedResult f, err2, g1)
            else case ctx_Err (f_work f) (clk 2) of
              Some err \<Rightarrow> Some (rejectedResult f, Some err, g1)
            | None \<Rightarrow> load_commit (\<lambda>i. clk (i + 3)) (f_key f) (f_retry f) val version g1))"

record step_input =
  in_clk :: "nat \<Rightarrow> gotime"
  in_slotFirst :: bool
  in_answer :: getter_answer

text \<open>
  One piece of a flight's goroutine. \<^term>\<open>None\<close> means that the goroutine is blocked (in the
  limiter's queue) or has returned.
\<close>

definition flight_lookup :: "(nat \<Rightarrow> gotime) \<Rightarrow> int \<Rightarrow> flight \<Rightarrow> Group \<Rightarrow> flight \<times> Group" where
  "flight_lookup clk minimum f g =
     (case lookupAtLeast (f_work f) clk (f_key f) minimum g of
        ((v, hit, err), g') \<Rightarrow>
          if hit \<or> err \<noteq> None then (f\<lparr>f_phase := FReturn v err\<rparr>, g') else (f\<lparr>f_phase := FLoad\<rparr>, g'))"

definition flight_step :: "step_input \<Rightarrow> flight \<Rightarrow> Group \<Rightarrow> (flight \<times> Group) option" where
  "flight_step inp f g =
     (let clk = in_clk inp
      in case f_phase f of
        FStart \<Rightarrow>
          (let f' = f\<lparr>f_work := WithTimeout (group_lifecycle g) (clk 0) (opt_SourceTimeout (group_opts g))\<rparr>
           in Some (flight_lookup (\<lambda>i. clk (i + 1)) (fence_minimum (f_fence f)) f' g))
      | FLoad \<Rightarrow>
          (case acquire_start (f_work f) (clk 1) (group_limiter g) of
             (Returned err, l) \<Rightarrow>
               Some (acquired_step (\<lambda>i. clk (i + 2)) (clk 0) err f (g\<lparr>group_limiter := l\<rparr>))
           | (Queued, l) \<Rightarrow> Some (f\<lparr>f_phase := FQueued (clk 0)\<rparr>, g\<lparr>group_limiter := l\<rparr>))
      | FQueued waitStart \<Rightarrow>
          (case acquire_wake (f_work f) (clk 0) (in_slotFirst inp) (group_limiter g) of
             None \<Rightarrow> None
           | Some (err, l) \<Rightarrow> Some (f\<lparr>f_phase := FLeaving waitStart err\<rparr>, g\<lparr>group_limiter := l\<rparr>))
      | FLeaving waitStart err \<Rightarrow>
          map_option (\<lambda>l. acquired_step clk waitStart err f (g\<lparr>group_limiter := l\<rparr>))
            (acquire_leave (group_limiter g))
      | FReady \<Rightarrow>
          (case ctx_Err (f_work f) (clk 0) of
             Some err \<Rightarrow> map_option (loaded_step (clk 1) (rejectedResult f) (Some err) f) (releaseSlot g)
           | None \<Rightarrow> Some (f\<lparr>f_phase := FCalling (clk 1)\<rparr>, observeInflight 1 g))
      | FCalling start \<Rightarrow> Some (f\<lparr>f_phase := FAnswered start (in_answer inp)\<rparr>, g)
      | FAnswered start answer \<Rightarrow>
          (case load_answered clk start answer f g of
             None \<Rightarrow> None
           | Some (loaded, err, g') \<Rightarrow>
               map_option (loaded_step (clk 6) loaded err f) (releaseSlot (observeInflight (-1) g')))
      | FRetry \<Rightarrow>
          (case readBarrier (clk 0) (f_key f) g of
             (fence, g') \<Rightarrow>
               Some (f\<lparr>f_retry := withMinimum (fence_minimum (f_retry f)) fence, f_phase := FRelook\<rparr>, g'))
      | FRelook \<Rightarrow> Some (flight_lookup clk (fence_minimum (f_retry f)) f g)
      | FReturn _ _ \<Rightarrow> None)"

section \<open>Get\<close>

text \<open>
  \<open>Get\<close> up to the admission of a miss; then the read barrier, whose fence names the flight to
  start or join; at last the wait for the flight's result, which gives the waiter slot back.
\<close>

datatype get_outcome = GetReturned ByteView "goerror option" | GetAdmitted

definition admit :: "string \<Rightarrow> Group \<Rightarrow> bool \<times> Group" where
  "admit kind g =
     (if apiWaiters g < nat (opt_MaxMissWaiters (group_opts g))
      then (True, g\<lparr>apiWaiters := apiWaiters g + 1\<rparr>)
      else (False, observe ''rejected'' kind 0 g))"

definition Get_lookup :: "gocontext \<Rightarrow> (nat \<Rightarrow> gotime) \<Rightarrow> string \<Rightarrow> Group \<Rightarrow> get_outcome \<times> Group" where
  "Get_lookup ctx clk key g =
     (case lookup ctx clk key g of
        ((v, hit, err), g1) \<Rightarrow>
          (let g2 = observe ''lookup_api'' (if hit then ''hit'' else ''miss'') 0 g1
           in if hit \<or> err \<noteq> None then (GetReturned v err, g2)
              else case admit ''api_waiter'' g2 of
                (False, g3) \<Rightarrow> (GetReturned emptyView (Some ErrOverloaded), g3)
              | (True, g3) \<Rightarrow> (GetAdmitted, g3)))"

text \<open>
  \<open>await\<close>: \<open>result\<close> is what the flight delivered, if it has; when the context is done as well,
  \<open>resultFirst\<close> is the choice \<open>select\<close> makes. \<^term>\<open>None\<close> means still waiting.
\<close>

definition await ::
  "gocontext \<Rightarrow> (nat \<Rightarrow> gotime) \<Rightarrow> bool \<Rightarrow> (ByteView \<times> goerror option) option \<Rightarrow>
   (ByteView \<times> goerror option) option" where
  "await ctx clk resultFirst res =
     (case res of
        Some (v, err) \<Rightarrow>
          if resultFirst \<or> ctx_Err ctx (clk 0) = None
          then (case ctx_Err ctx (clk 1) of
                  Some e \<Rightarrow> Some (emptyView, Some e)
                | None \<Rightarrow> if err \<noteq> None then Some (emptyView, err) else Some (v, None))
          else Some (emptyView, ctx_Err ctx (clk 0))
      | None \<Rightarrow>
          (case ctx_Err ctx (clk 0) of Some e \<Rightarrow> Some (emptyView, Some e) | None \<Rightarrow> None))"

definition leaveWaiters :: "Group \<Rightarrow> Group option" where
  "leaveWaiters g = (if apiWaiters g = 0 then None else Some (g\<lparr>apiWaiters := apiWaiters g - 1\<rparr>))"

section \<open>Lemmas\<close>

lemma flightKey_inj:
  assumes "flightKey fence key = flightKey fence' key'"
  shows "fence = fence' \<and> key = key'"
proof -
  let ?e = "\<lambda>f. decimal (unat (fence_epoch f))" and ?m = "\<lambda>f. FormatInt (fence_minimum f)"
  have "?e fence @ CHR '':'' # (?m fence @ CHR '':'' # key) = ?e fence' @ CHR '':'' # (?m fence' @ CHR '':'' # key')"
    using assms by (simp add: flightKey_def)
  from split_at_first [OF no_colon_decimal no_colon_decimal this]
  have e: "?e fence = ?e fence'" and m: "?m fence @ CHR '':'' # key = ?m fence' @ CHR '':'' # key'"
    by (rule conjunct1, rule conjunct2)
  from split_at_first [OF no_colon_FormatInt no_colon_FormatInt m] e
  have "fence_epoch fence = fence_epoch fence'" "fence_minimum fence = fence_minimum fence'" "key = key'"
    by (simp_all add: FormatInt_eq word_unat_eq_iff)
  then show ?thesis by simp
qed

text \<open>
  Most steps leave floors, epochs and options alone and at most drop cached entries.
\<close>

definition settled :: "Group \<Rightarrow> Group \<Rightarrow> bool" where
  "settled g g' \<longleftrightarrow>
     group_inv g' \<and> floors g' = floors g \<and> epochs g' = epochs g \<and> group_opts g' = group_opts g \<and>
     keeps (mainCache g) (mainCache g')"

lemma settled_refl: "group_inv g \<Longrightarrow> settled g g"
  by (simp add: settled_def keeps_refl group_inv_def)

lemma settled_trans [trans]: "settled a b \<Longrightarrow> settled b c \<Longrightarrow> settled a c"
  by (auto simp: settled_def intro: keeps_trans)

lemma settled_observe [simp]: "settled g (observe op res d g') \<longleftrightarrow> settled g g'"
  by (simp add: settled_def)

lemma observeInflight_frame [simp]:
  "mainCache (observeInflight d g) = mainCache g" "floors (observeInflight d g) = floors g"
  "epochs (observeInflight d g) = epochs g" "group_opts (observeInflight d g) = group_opts g"
  "group_bloom (observeInflight d g) = group_bloom g" "group_limiter (observeInflight d g) = group_limiter g"
  "apiWaiters (observeInflight d g) = apiWaiters g"
  by (simp_all add: observeInflight_def)

lemma settled_fields [simp]:
  "settled g (g'\<lparr>group_limiter := l\<rparr>) \<longleftrightarrow> settled g g'" "settled g (g'\<lparr>apiWaiters := n\<rparr>) \<longleftrightarrow> settled g g'"
  "settled g (observeInflight d g') \<longleftrightarrow> settled g g'"
  by (simp_all add: settled_def group_inv_def)

lemma settled_mainCache:
  "group_inv g \<Longrightarrow> keeps (mainCache g) c \<Longrightarrow> settled g (g\<lparr>mainCache := c\<rparr>)"
  by (simp add: settled_def keeps_def group_inv_def)

lemma epochBucket_settled: "settled g g' \<Longrightarrow> epochBucket g' = epochBucket g"
  by (auto simp: settled_def intro: epochBucket_opts)

lemma settled_releaseSlot: "releaseSlot g = Some g' \<Longrightarrow> settled g0 g \<Longrightarrow> settled g0 g'"
  by (auto simp: releaseSlot_def)

lemma lookup_spec:
  assumes "group_inv g" "lookup ctx clk key g = ((v, found, err), g')"
  shows "settled g g' \<and> (found \<longrightarrow> err = None \<and> (\<exists>t. cached (mainCache g) key = Some (v, t)))"
proof -
  have ci: "cache_inv (mainCache g)" using assms(1) by (simp add: group_inv_def)
  obtain r c where rc: "cache_get (clk 1) key (mainCache g) = (r, c)"
    by (cases "cache_get (clk 1) key (mainCache g)")
  have "keeps (mainCache g) c" "r = live_view (clk 1) key (mainCache g)"
    using cache_get_keeps [OF ci, of "clk 1" key] cache_get_view [OF ci, of "clk 1" key] rc by simp_all
  then have "settled g (g\<lparr>mainCache := c\<rparr>)" "r = Some w \<Longrightarrow> \<exists>t. cached (mainCache g) key = Some (w, t)" for w
    by (auto simp: settled_mainCache [OF assms(1)] dest: live_view_cached)
  with assms settled_refl [OF assms(1)] rc show ?thesis
    by (auto simp: lookup_def Let_def split: option.splits if_splits)
qed

lemma lookupAtLeast_spec:
  assumes "group_inv g" "lookupAtLeast ctx clk key minimum g = ((v, found, err), g')"
  shows "settled g g' \<and>
         (found \<longrightarrow> err = None \<and> minimum \<le> Version v \<and> (\<exists>t. cached (mainCache g) key = Some (v, t)))"
  using assms lookup_spec [OF assms(1), of ctx clk key]
  by (auto simp: lookupAtLeast_def split: prod.splits if_splits)

text \<open>The commit section: every result it can have, and what it can add to the cache.\<close>

definition commit_adds :: "string \<Rightarrow> readFence \<Rightarrow> int \<Rightarrow> Group \<Rightarrow> Group \<Rightarrow> bool" where
  "commit_adds key fence version g g' \<longleftrightarrow>
     group_inv g' \<and> floors g' = floors g \<and> epochs g' = epochs g \<and> group_opts g' = group_opts g \<and>
     (\<forall>j d. cached (mainCache g') j = Some d \<longrightarrow>
        cached (mainCache g) j = Some d \<or>
        j = key \<and> Version (fst d) = version \<and> fence_epoch fence = epochs g ! epochBucket g key \<and>
        max (fence_minimum fence) (floor_at (floors g) key) \<le> version)"

lemma settled_commit_adds: "settled g g' \<Longrightarrow> commit_adds key fence version g g'"
  by (auto simp: settled_def commit_adds_def dest: keeps_found)

lemma commit_adds_observe [simp]:
  "commit_adds key fence version g (observe op res d g') \<longleftrightarrow> commit_adds key fence version g g'"
  by (simp add: commit_adds_def)

lemma cache_add_found:
  assumes "cache_inv c"
  shows "\<exists>v c'. cache_add t1 t2 key w ttl c = Some (v, c') \<and> Version v = Version w \<and> view_b v = view_b w \<and>
           cache_inv c' \<and> cacheBytes c' = cacheBytes c \<and>
           (\<forall>j d. cached c' j = Some d \<longrightarrow> cached c j = Some d \<or> j = key \<and> Version (fst d) = Version w)"
proof -
  obtain t c' where add: "cache_add t1 t2 key w ttl c = Some (w\<lparr>view_expiresAt := t\<rparr>, c')" "cache_inv c'"
      "cacheBytes c' = cacheBytes c"
    and oth: "\<And>j. j \<noteq> key \<Longrightarrow> cached c' j = cached c j \<or> cached c' j = None"
    and own: "if add_stores t1 t2 key w ttl c
              then t = add_deadline t1 ttl w \<and> cached c' key = Some (w\<lparr>view_expiresAt := t\<rparr>, t)
              else cached c' key = None"
    using cache_add_returns [OF assms, of t1 t2 key w ttl] by blast
  have "cached c j = Some d \<or> j = key \<and> Version (fst d) = Version w" if "cached c' j = Some d" for j d
    using oth [of j] own that by (cases "j = key") (auto split: if_splits)
  with add show ?thesis by (intro exI [of _ "w\<lparr>view_expiresAt := t\<rparr>"] exI [of _ c']) simp
qed

lemma commit_adds_fields [simp]:
  "commit_adds key fence version g (g'\<lparr>group_limiter := l\<rparr>) \<longleftrightarrow> commit_adds key fence version g g'"
  "commit_adds key fence version g (observeInflight d g') \<longleftrightarrow> commit_adds key fence version g g'"
  by (simp_all add: commit_adds_def group_inv_def)

lemma load_commit_stale:
  assumes "group_inv g" "knownVersionLocked (clk 0) key g = (known, g1)"
    and "version < max (fence_minimum fence) known"
  shows "\<exists>evs. load_commit clk key fence val version g =
           Some (\<lparr>res_value = emptyView, res_minimum = max (fence_minimum fence) known\<rparr>,
                 Some ErrStaleVersion, g1\<lparr>events := evs\<rparr>)"
proof -
  have "\<exists>evs. observe a b d (observe a' b' d' g1) = g1\<lparr>events := evs\<rparr>" for a b d a' b' d'
    using observe_events [of a b d "observe a' b' d' g1"] observe_events [of a' b' d' g1] by auto
  then show ?thesis
    using assms(2,3) by (simp add: load_commit_def Let_def)
qed

lemma load_commit_fresh:
  assumes "knownVersionLocked (clk 0) key g = (known, g1)" "cache_inv (mainCache g1)"
    and "max (fence_minimum fence) known \<le> version"
  shows "\<exists>v c evs. load_commit clk key fence val version g =
           Some (\<lparr>res_value = v, res_minimum = max (fence_minimum fence) known\<rparr>, None,
                 g1\<lparr>mainCache := c, events := evs\<rparr>) \<and>
           Version v = version \<and> view_b v = val \<and> cache_inv c \<and> cacheBytes c = cacheBytes (mainCache g1) \<and>
           (\<forall>j d. cached c j = Some d \<longrightarrow>
              cached (mainCache g1) j = Some d \<or>
              j = key \<and> Version (fst d) = version \<and> fence_epoch fence = epochs g1 ! epochBucket g1 key)"
proof -
  let ?view = "\<lparr>view_b = cloneBytes val, view_expiresAt = 0, view_version = version\<rparr>"
  let ?fresh = "fence_epoch fence = epochs g1 ! epochBucket g1 key"
  have stale: "\<not> version < max (fence_minimum fence) known" by (rule leD [OF assms(3)])
  show ?thesis
  proof (cases ?fresh)
    case True
    obtain v c where "cache_add (clk 1) (clk 2) key ?view (opt_TTL (group_opts g1)) (mainCache g1) = Some (v, c)"
      "Version v = version" "view_b v = val" "cache_inv c" "cacheBytes c = cacheBytes (mainCache g1)"
      "\<forall>j d. cached c j = Some d \<longrightarrow> cached (mainCache g1) j = Some d \<or> j = key \<and> Version (fst d) = version"
      using cache_add_found [OF assms(2), of "clk 1" "clk 2" key ?view "opt_TTL (group_opts g1)"]
      by (auto simp: Version_def cloneBytes_def)
    with True stale assms(1) show ?thesis
      by (intro exI [of _ v] exI [of _ c] exI [of _ "events g1"]) (simp add: load_commit_def Let_def)
  next
    case False
    obtain evs where "observe ''discard_source'' ''epoch_changed'' 0 g1 = g1\<lparr>events := evs\<rparr>"
      using observe_events by blast
    with False stale assms(1,2) show ?thesis
      by (intro exI [of _ ?view] exI [of _ "mainCache g1"] exI [of _ evs])
        (simp add: load_commit_def Let_def Version_def cloneBytes_def)
  qed
qed

lemma load_commit_spec:
  assumes "group_inv g"
  shows "\<exists>r err g'. load_commit clk key fence val version g = Some (r, err, g') \<and>
           commit_adds key fence version g g' \<and>
           res_minimum r = max (fence_minimum fence) (known_at (clk 0) key g) \<and>
           (if version < res_minimum r then err = Some ErrStaleVersion
            else err = None \<and> Version (res_value r) = version \<and> view_b (res_value r) = val)"
proof -
  let ?known = "known_at (clk 0) key g"
  obtain c where c: "knownVersionLocked (clk 0) key g = (?known, g\<lparr>mainCache := c\<rparr>)"
      "keeps (mainCache g) c" "group_inv (g\<lparr>mainCache := c\<rparr>)"
    using knownVersionLocked_spec [OF assms] by blast
  have settled: "settled g (g\<lparr>mainCache := c, events := evs\<rparr>)" for evs
    using c by (simp add: settled_def group_inv_def)
  show ?thesis
  proof (cases "version < max (fence_minimum fence) ?known")
    case True
    with load_commit_stale [where clk = clk, OF assms c(1) True, of val] obtain evs where
      "load_commit clk key fence val version g =
         Some (\<lparr>res_value = emptyView, res_minimum = max (fence_minimum fence) ?known\<rparr>,
               Some ErrStaleVersion, g\<lparr>mainCache := c, events := evs\<rparr>)" by blast
    with True settled_commit_adds [OF settled] show ?thesis by simp
  next
    case False
    then have m: "max (fence_minimum fence) ?known \<le> version" by (simp only: not_less)
    have "cache_inv c" using c(2) by (simp add: keeps_def)
    with load_commit_fresh [where clk = clk, OF c(1) _ m, of val] obtain v c' evs where
      v: "load_commit clk key fence val version g =
         Some (\<lparr>res_value = v, res_minimum = max (fence_minimum fence) ?known\<rparr>, None,
               g\<lparr>mainCache := c', events := evs\<rparr>)"
      "Version v = version" "view_b v = val" "cache_inv c'" "cacheBytes c' = cacheBytes c"
      and found: "\<And>j d. cached c' j = Some d \<Longrightarrow> cached c j = Some d \<or>
              j = key \<and> Version (fst d) = version \<and> fence_epoch fence = epochs g ! epochBucket g key"
      using epochBucket_opts [of "g\<lparr>mainCache := c\<rparr>" g] by auto
    have "floor_at (floors g) key \<le> ?known" by (simp add: known_at_def)
    then have "commit_adds key fence version g (g\<lparr>mainCache := c', events := evs\<rparr>)"
      using v(4,5) c(3) m found keeps_found [OF c(2)]
      unfolding commit_adds_def group_inv_def by fastforce
    with v False show ?thesis by simp
  qed
qed

lemma load_answered_spec:
  assumes "group_inv g" "load_answered clk start answer f g = Some (r, err, g')"
  defines "version \<equiv> fst (snd (sourceAnswer answer))"
  shows "commit_adds (f_key f) (f_retry f) version g g' \<and> fence_minimum (f_retry f) \<le> res_minimum r \<and>
         (err = None \<longrightarrow> snd (snd (sourceAnswer answer)) = None \<and> Version (res_value r) = version \<and>
            res_minimum r \<le> version) \<and>
         (snd (snd (sourceAnswer answer)) \<noteq> None \<longrightarrow> settled g g')"
proof -
  obtain val w err0 where a: "sourceAnswer answer = (val, w, err0)" by (cases "sourceAnswer answer")
  define err1 where "err1 = (if err0 = None then ctx_Err (f_work f) (clk 0) else err0)"
  define err2 where "err2 = (if err1 = None \<and> length val > MaxValueBytes then Some ErrValueTooLarge else err1)"
  define g1 where "g1 = observe ''source'' (Result err2) (clk 1 - start) g"
  have g1: "group_inv g1" "settled g g1"
    using assms(1) by (simp_all add: g1_def settled_refl)
  have *: "(if err2 \<noteq> None then Some (rejectedResult f, err2, g1)
            else case ctx_Err (f_work f) (clk 2) of
              Some err \<Rightarrow> Some (rejectedResult f, Some err, g1)
            | None \<Rightarrow> load_commit (\<lambda>i. clk (i + 3)) (f_key f) (f_retry f) val w g1) = Some (r, err, g')"
    by (rule assms(2) [unfolded load_answered_def a Let_def prod.case, folded err1_def, folded err2_def, folded g1_def])
  show ?thesis
  proof (cases "err2 \<noteq> None \<or> ctx_Err (f_work f) (clk 2) \<noteq> None")
    case True
    with * settled_commit_adds [OF g1(2)] g1(2) show ?thesis
      by (auto simp: rejectedResult_def split: if_splits option.splits)
  next
    case False
    then have none: "err0 = None" by (auto simp: err2_def err1_def split: if_splits)
    from False * have "load_commit (\<lambda>i. clk (i + 3)) (f_key f) (f_retry f) val w g1 = Some (r, err, g')"
      by simp
    with load_commit_spec [OF g1(1), of "\<lambda>i. clk (i + 3)" "f_key f" "f_retry f" val w]
    have "commit_adds (f_key f) (f_retry f) w g1 g'" "fence_minimum (f_retry f) \<le> res_minimum r"
      "err = None \<longrightarrow> Version (res_value r) = w \<and> res_minimum r \<le> w"
      by (auto split: if_splits)
    moreover have "epochBucket g1 = epochBucket g" by (simp add: g1_def epochBucket_def fun_eq_iff)
    ultimately show ?thesis
      using none a by (simp add: version_def commit_adds_def g1_def)
  qed
qed

lemma loaded_step_spec:
  assumes "loaded_step now loaded err f g = (f', g')"
  shows "settled g0 g' \<longleftrightarrow> settled g0 g" "commit_adds key fence version g0 g' \<longleftrightarrow> commit_adds key fence version g0 g"
    and "f_key f' = f_key f" "f_fence f' = f_fence f"
    and "f_retry f' = withMinimum (res_minimum loaded) (f_retry f)"
    and "f_phase f' = FReturn (res_value loaded) err \<or> f_phase f' = FRetry"
  using assms by (auto simp: loaded_step_def Let_def split: if_splits)

text \<open>
  The kinds of steps a flight takes, as the proofs about interleaved flights need them: a step that
  only moves on or gives up, a hit, the source's answer, the commit, and the barrier before a retry.
\<close>

definition flight_kept :: "flight \<Rightarrow> flight \<Rightarrow> bool" where
  "flight_kept f f' \<longleftrightarrow>
     f_key f' = f_key f \<and> f_fence f' = f_fence f \<and> fence_minimum (f_retry f) \<le> fence_minimum (f_retry f')"

definition carries :: "flight_phase \<Rightarrow> bool" where
  "carries p \<longleftrightarrow> (\<exists>st a. p = FAnswered st a) \<or> (\<exists>v. p = FReturn v None)"

definition quiet_step :: "flight \<Rightarrow> flight \<Rightarrow> Group \<Rightarrow> Group \<Rightarrow> bool" where
  "quiet_step f f' g g' \<longleftrightarrow>
     settled g g' \<and> flight_kept f f' \<and> f_phase f' \<noteq> FStart \<and> \<not> carries (f_phase f') \<and>
     fence_epoch (f_retry f') = fence_epoch (f_retry f)"

definition hit_step :: "flight \<Rightarrow> flight \<Rightarrow> Group \<Rightarrow> Group \<Rightarrow> bool" where
  "hit_step f f' g g' \<longleftrightarrow>
     settled g g' \<and> flight_kept f f' \<and> f_retry f' = f_retry f \<and>
     (\<exists>v t. f_phase f' = FReturn v None \<and> cached (mainCache g) (f_key f) = Some (v, t) \<and>
        (f_phase f = FStart \<and> fence_minimum (f_fence f) \<le> Version v \<or>
         f_phase f = FRelook \<and> fence_minimum (f_retry f) \<le> Version v))"

definition answer_step :: "getter_answer \<Rightarrow> flight \<Rightarrow> flight \<Rightarrow> Group \<Rightarrow> Group \<Rightarrow> bool" where
  "answer_step a f f' g g' \<longleftrightarrow>
     g' = g \<and> (\<exists>st. f_phase f = FCalling st \<and> f' = f\<lparr>f_phase := FAnswered st a\<rparr>)"

definition commit_step :: "flight \<Rightarrow> flight \<Rightarrow> Group \<Rightarrow> Group \<Rightarrow> bool" where
  "commit_step f f' g g' \<longleftrightarrow>
     (\<exists>st a. f_phase f = FAnswered st a \<and>
        commit_adds (f_key f) (f_retry f) (fst (snd (sourceAnswer a))) g g' \<and>
        (snd (snd (sourceAnswer a)) \<noteq> None \<longrightarrow> settled g g') \<and>
        flight_kept f f' \<and> fence_epoch (f_retry f') = fence_epoch (f_retry f) \<and>
        (\<not> carries (f_phase f') \<and> f_phase f' \<noteq> FStart \<or>
         (\<exists>v. f_phase f' = FReturn v None \<and> Version v = fst (snd (sourceAnswer a)) \<and>
            snd (snd (sourceAnswer a)) = None \<and> fence_minimum (f_retry f') \<le> Version v)))"

definition barrier_step :: "flight \<Rightarrow> flight \<Rightarrow> Group \<Rightarrow> Group \<Rightarrow> bool" where
  "barrier_step f f' g g' \<longleftrightarrow>
     settled g g' \<and> flight_kept f f' \<and> f_phase f = FRetry \<and> f_phase f' = FRelook \<and>
     fence_epoch (f_retry f') = epochs g ! epochBucket g (f_key f)"

lemmas flight_step_kinds = quiet_step_def hit_step_def answer_step_def commit_step_def barrier_step_def

lemma flight_lookup_kind:
  assumes "group_inv g" "flight_lookup clk minimum f g = (f', g')"
  shows "quiet_step f f' g g' \<or>
         settled g g' \<and> (\<exists>v t. f' = f\<lparr>f_phase := FReturn v None\<rparr> \<and> cached (mainCache g) (f_key f) = Some (v, t) \<and>
            minimum \<le> Version v)"
proof -
  obtain v found err g1 where l: "lookupAtLeast (f_work f) clk (f_key f) minimum g = ((v, found, err), g1)"
    by (metis prod_cases3 surj_pair)
  from lookupAtLeast_spec [OF assms(1) l] assms(2) l show ?thesis
    by (auto simp: flight_lookup_def quiet_step_def flight_kept_def carries_def split: if_splits)
qed

lemma loaded_step_rejected_kind:
  assumes "loaded_step now (rejectedResult f) (Some e) f g = (f', g')" "settled g0 g"
  shows "quiet_step f f' g0 g'"
  using assms loaded_step_spec [OF assms(1)]
  by (auto simp: quiet_step_def flight_kept_def carries_def rejectedResult_def withMinimum_def)

lemma acquired_step_kind:
  assumes "acquired_step clk waitStart err f g = (f', g')" "settled g0 g"
  shows "quiet_step f f' g0 g'"
proof (cases err)
  case None
  with assms show ?thesis
    by (auto simp: acquired_step_def Let_def quiet_step_def flight_kept_def carries_def)
next
  case (Some e)
  define g2 where "g2 = observe ''slot'' (slotResult err) (clk 0 - waitStart)
    (if errors_Is e ErrOverloaded then observe ''rejected'' ''source_queue'' 0 g else g)"
  have "settled g0 g2" using assms(2) by (simp add: g2_def)
  moreover have "loaded_step (clk 1) (rejectedResult f) (Some e) f g2 = (f', g')"
    using assms(1) Some by (simp add: acquired_step_def g2_def Let_def)
  ultimately show ?thesis by (blast intro: loaded_step_rejected_kind)
qed

lemma answered_kind:
  assumes "group_inv g" "f_phase f = FAnswered st a" "load_answered clk st a f g = Some (r, err, g1)"
    and "releaseSlot (observeInflight (-1) g1) = Some g2" "loaded_step now r err f g2 = (f', g')"
  shows "commit_step f f' g g'"
proof -
  let ?w = "fst (snd (sourceAnswer a))"
  from load_answered_spec [OF assms(1,3)]
  have la: "commit_adds (f_key f) (f_retry f) ?w g g1" "fence_minimum (f_retry f) \<le> res_minimum r"
    "err = None \<Longrightarrow> snd (snd (sourceAnswer a)) = None \<and> Version (res_value r) = ?w \<and> res_minimum r \<le> ?w"
    "snd (snd (sourceAnswer a)) \<noteq> None \<longrightarrow> settled g g1"
    by auto
  have g2: "commit_adds (f_key f) (f_retry f) ?w g g2" "snd (snd (sourceAnswer a)) \<noteq> None \<longrightarrow> settled g g2"
    using assms(4) la(1,4) by (auto simp: releaseSlot_def)
  note ls = loaded_step_spec [OF assms(5)]
  have kept: "flight_kept f f'" "fence_epoch (f_retry f') = fence_epoch (f_retry f)"
    "fence_minimum (f_retry f') = res_minimum r"
    using ls la(2) by (auto simp: flight_kept_def withMinimum_def)
  have "f_phase f' = FRetry \<or> f_phase f' = FReturn (res_value r) err" using ls(6) by auto
  then have "\<not> carries (f_phase f') \<and> f_phase f' \<noteq> FStart \<or>
      (\<exists>v. f_phase f' = FReturn v None \<and> Version v = ?w \<and> snd (snd (sourceAnswer a)) = None \<and>
         fence_minimum (f_retry f') \<le> Version v)"
    using la(3) kept(3) by (cases err) (auto simp: carries_def)
  with assms(2) kept(1,2) ls(1,2) g2 show ?thesis
    unfolding commit_step_def by blast
qed

lemma flight_step_kind:
  assumes "group_inv g" "flight_step inp f g = Some (f', g')"
  shows "quiet_step f f' g g' \<or> hit_step f f' g g' \<or> answer_step (in_answer inp) f f' g g' \<or>
         commit_step f f' g g' \<or> barrier_step f f' g g'"
proof -
  note s0 = settled_refl [OF assms(1)]
  note step = assms(2) [unfolded flight_step_def Let_def]
  show ?thesis
  proof (cases "f_phase f")
    case FStart
    let ?f = "f\<lparr>f_work := WithTimeout (group_lifecycle g) (in_clk inp 0) (opt_SourceTimeout (group_opts g))\<rparr>"
    have "flight_lookup (\<lambda>i. in_clk inp (i + 1)) (fence_minimum (f_fence f)) ?f g = (f', g')"
      using step FStart by simp
    from flight_lookup_kind [OF assms(1) this] FStart show ?thesis
      by (auto simp: flight_step_kinds flight_kept_def)
  next
    case FLoad
    then show ?thesis
      using step s0 by (auto split: prod.splits acquire_phase.splits dest!: acquired_step_kind [of _ _ _ _ _ _ _ g]
          simp: quiet_step_def flight_kept_def carries_def)
  next
    case (FQueued w)
    then show ?thesis
      using step s0 by (auto split: option.splits simp: quiet_step_def flight_kept_def carries_def)
  next
    case (FLeaving w err)
    then show ?thesis
      using step s0 acquired_step_kind by fastforce
  next
    case FReady
    then show ?thesis
      using step s0 settled_releaseSlot [OF _ s0] loaded_step_rejected_kind
      by (fastforce split: option.splits simp: quiet_step_def flight_kept_def carries_def)
  next
    case (FCalling st)
    then show ?thesis using step by (auto simp: answer_step_def)
  next
    case (FAnswered st a)
    then obtain r err g1 g2 where "load_answered (in_clk inp) st a f g = Some (r, err, g1)"
      "releaseSlot (observeInflight (-1) g1) = Some g2" "loaded_step (in_clk inp 6) r err f g2 = (f', g')"
      using step by (auto split: option.splits)
    from answered_kind [OF assms(1) FAnswered this] show ?thesis by blast
  next
    case FRetry
    with step readBarrier_spec [OF assms(1), of "in_clk inp 0" "f_key f"] settled_mainCache [OF assms(1)]
    show ?thesis by (auto simp: barrier_step_def flight_kept_def withMinimum_def)
  next
    case FRelook
    with step flight_lookup_kind [OF assms(1), of "in_clk inp" "fence_minimum (f_retry f)" f f' g'] show ?thesis
      by (auto simp: hit_step_def flight_kept_def)
  next
    case (FReturn v err)
    then show ?thesis using step by simp
  qed
qed

text \<open>A commit with a current fence whose value fits is found by the next lookup.\<close>

definition fits :: "string \<Rightarrow> bytes \<Rightarrow> Group \<Rightarrow> bool" where
  "fits key val g \<longleftrightarrow> int (length key + length val) \<le> cacheBytes (mainCache g) \<and> 0 < opt_TTL (group_opts g)"

lemma load_commit_stores:
  assumes "knownVersionLocked now key g = (known, g1)" "cache_inv (mainCache g1)"
    and "max (fence_minimum fence) known \<le> version"
    and "fence_epoch fence = epochs g1 ! epochBucket g1 key" "fits key val g1" "0 \<le> now"
    and "load_commit (\<lambda>_. now) key fence val version g = Some (r, err, g')"
  shows "fst (cache_get now key (mainCache g')) = Some (res_value r)"
proof -
  let ?view = "\<lparr>view_b = cloneBytes val, view_expiresAt = 0, view_version = version\<rparr>"
  let ?ttl = "opt_TTL (group_opts g1)"
  have dl: "add_deadline now ?ttl ?view = now + ?ttl" by (simp add: add_deadline_def)
  have stale: "\<not> version < max (fence_minimum fence) known" by (rule leD [OF assms(3)])
  have "int (length key + viewLen ?view) \<le> cacheBytes (mainCache g1) \<and> now < add_deadline now ?ttl ?view"
    using assms(5) unfolding dl by (simp add: fits_def viewLen_def cloneBytes_def)
  then obtain v c where "cache_add now now key ?view ?ttl (mainCache g1) = Some (v, c)"
      "fst (cache_get now key c) = Some v"
    using cache_add_finds [OF assms(2,6), of key ?view now ?ttl] by auto
  with assms(1,4,7) stale show ?thesis by (auto simp: load_commit_def Let_def)
qed

section \<open>Termination of flights\<close>

fun phase_rank :: "flight_phase \<Rightarrow> nat" where
  "phase_rank FStart = 7"
| "phase_rank FRetry = 8"
| "phase_rank FRelook = 7"
| "phase_rank FLoad = 6"
| "phase_rank (FQueued _) = 5"
| "phase_rank (FLeaving _ _) = 4"
| "phase_rank FReady = 3"
| "phase_rank (FCalling _) = 2"
| "phase_rank (FAnswered _ _) = 1"
| "phase_rank (FReturn _ _) = 0"

definition flight_rank :: "flight \<Rightarrow> nat" where
  "flight_rank f = 9 * (1 - f_attempt f) + phase_rank (f_phase f)"

lemma loaded_step_rank:
  assumes "loaded_step now loaded err f g = (f', g')" "f_attempt f \<le> 1" "0 < phase_rank (f_phase f)"
  shows "f_attempt f' \<le> 1 \<and> flight_rank f' < flight_rank f"
  using assms by (auto simp: loaded_step_def flight_rank_def Let_def split: if_splits)

lemma acquired_step_rank:
  assumes "acquired_step clk w err f g = (f', g')" "f_attempt f \<le> 1" "4 \<le> phase_rank (f_phase f)"
  shows "f_attempt f' \<le> 1 \<and> flight_rank f' < flight_rank f"
proof (cases "err = None")
  case True
  with assms show ?thesis by (auto simp: acquired_step_def flight_rank_def Let_def)
next
  case False
  then obtain g1 where "loaded_step (clk 1) (rejectedResult f) err f g1 = (f', g')"
    using assms(1) by (auto simp: acquired_step_def Let_def)
  from loaded_step_rank [OF this] assms(2,3) show ?thesis by simp
qed

lemma flight_lookup_rank:
  assumes "flight_lookup clk m f g = (f', g')" "f_attempt f \<le> 1" "7 \<le> phase_rank (f_phase f)"
  shows "f_attempt f' \<le> 1 \<and> flight_rank f' < flight_rank f"
  using assms by (auto simp: flight_lookup_def flight_rank_def split: prod.splits if_splits)

lemma flight_step_rank:
  assumes "flight_step inp f g = Some (f', g')" "f_attempt f \<le> 1"
  shows "f_attempt f' \<le> 1 \<and> flight_rank f' < flight_rank f"
proof -
  note step = assms(1) [unfolded flight_step_def Let_def]
  show ?thesis
  proof (cases "f_phase f")
    case FStart
    with step assms(2) flight_lookup_rank [of _ _ "f\<lparr>f_work := _\<rparr>" g f' g'] show ?thesis
      by (fastforce simp: flight_rank_def)
  next
    case FLoad
    with step assms(2) acquired_step_rank [of _ _ _ f _ f' g'] show ?thesis
      by (auto simp: flight_rank_def split: prod.splits acquire_phase.splits)
  next
    case (FLeaving w err)
    with step assms(2) acquired_step_rank [of _ _ _ f _ f' g'] show ?thesis by auto
  next
    case FReady
    with step assms(2) loaded_step_rank [of _ _ _ f _ f' g'] show ?thesis
      by (auto simp: flight_rank_def split: option.splits)
  next
    case (FAnswered st a)
    with step assms(2) loaded_step_rank [of _ _ _ f _ f' g'] show ?thesis
      by (auto split: option.splits)
  next
    case FRelook
    with step assms(2) flight_lookup_rank [of _ _ f g f' g'] show ?thesis by simp
  qed (use step assms(2) in \<open>auto simp: flight_rank_def split: option.splits prod.splits\<close>)
qed

text \<open>The own steps of one flight, each in whatever group the other goroutines have left.\<close>

fun flight_trace :: "(step_input \<times> Group) list \<Rightarrow> flight \<Rightarrow> flight option" where
  "flight_trace [] f = Some f"
| "flight_trace ((inp, g) # xs) f =
     (case flight_step inp f g of None \<Rightarrow> None | Some (f', _) \<Rightarrow> flight_trace xs f')"

lemma flight_trace_rank:
  "flight_trace xs f = Some f' \<Longrightarrow> f_attempt f \<le> 1 \<Longrightarrow> length xs + flight_rank f' \<le> flight_rank f"
proof (induction xs f rule: flight_trace.induct)
  case (2 inp g xs f)
  then obtain f1 g1 where "flight_step inp f g = Some (f1, g1)" "flight_trace xs f1 = Some f'"
    by (auto split: option.splits)
  with 2 flight_step_rank [of inp f g f1 g1] show ?case by fastforce
qed simp

fun holds_slot :: "flight_phase \<Rightarrow> bool" where
  "holds_slot FReady = True"
| "holds_slot (FCalling _) = True"
| "holds_slot (FAnswered _ _) = True"
| "holds_slot _ = False"

fun leaves_queue :: "flight_phase \<Rightarrow> bool" where
  "leaves_queue (FLeaving _ _) = True"
| "leaves_queue _ = False"

fun returned_phase :: "flight_phase \<Rightarrow> bool" where
  "returned_phase (FReturn _ _) = True"
| "returned_phase _ = False"

fun queued_phase :: "flight_phase \<Rightarrow> bool" where
  "queued_phase (FQueued _) = True"
| "queued_phase _ = False"

lemma knownVersionLocked_limiter [simp]: "group_limiter (snd (knownVersionLocked now key g)) = group_limiter g"
  by (simp add: knownVersionLocked_def split: prod.split)

lemma load_commit_limiter:
  assumes "load_commit clk key fence val version g = Some (r, err, g')"
  shows "group_limiter g' = group_limiter g"
proof -
  obtain known g1 where k: "knownVersionLocked (clk 0) key g = (known, g1)"
    by (cases "knownVersionLocked (clk 0) key g")
  with knownVersionLocked_limiter [of "clk 0" key g] have "group_limiter g1 = group_limiter g" by simp
  with assms show ?thesis
    by (auto simp: load_commit_def k Let_def split: option.splits if_splits)
qed

lemma load_answered_returns:
  assumes "group_inv g"
  shows "\<exists>r err g'. load_answered clk st a f g = Some (r, err, g') \<and> group_limiter g' = group_limiter g"
proof -
  have commit: "\<exists>r err g'. load_commit c (f_key f) (f_retry f) val w (observe x y z g) = Some (r, err, g') \<and>
      group_limiter g' = group_limiter g" for c val w x y z
  proof -
    obtain r err g' where lc: "load_commit c (f_key f) (f_retry f) val w (observe x y z g) = Some (r, err, g')"
      using load_commit_spec [of "observe x y z g" c "f_key f" "f_retry f" val w] assms by auto
    from load_commit_limiter [OF lc] have "group_limiter g' = group_limiter g" by simp
    with lc show ?thesis by blast
  qed
  show ?thesis
    by (cases "sourceAnswer a") (auto simp: load_answered_def Let_def commit split: option.split)
qed

lemma flight_step_blocked:
  assumes "group_inv g" "holds_slot (f_phase f) \<longrightarrow> 0 < slots (group_limiter g)"
    and "leaves_queue (f_phase f) \<longrightarrow> 0 < waiting (group_limiter g)"
  shows "flight_step inp f g = None \<longleftrightarrow>
         returned_phase (f_phase f) \<or>
         queued_phase (f_phase f) \<and> slots_cap (group_limiter g) \<le> slots (group_limiter g) \<and>
           ctx_Err (f_work f) (in_clk inp 0) = None"
proof (cases "f_phase f")
  case (FAnswered st a)
  with assms load_answered_returns [OF assms(1), of "in_clk inp" st a f] show ?thesis
    by (auto simp: flight_step_def releaseSlot_def limiter_release_def split: option.splits)
next
  case (FQueued w)
  then show ?thesis
    by (auto simp: flight_step_def Let_def acquire_wake_def split: option.splits if_splits)
qed (use assms in \<open>auto simp: flight_step_def Let_def acquire_leave_def releaseSlot_def limiter_release_def
      split: option.splits prod.splits acquire_phase.splits\<close>)

section \<open>Properties\<close>

text \<open>
  C6: a load ends. However the other goroutines interfere, a flight takes at most 16 steps of its
  own, so it calls the source at most twice; and whenever the limiter holds the tokens of this
  flight, the flight can take its next step unless it has returned or it waits in the limiter's
  queue while no slot is free and its deadline has not passed.
\<close>

theorem flight_terminates:
  assumes "flight_trace xs (newFlight key fence) = Some f" "group_inv g"
    and "holds_slot (f_phase f) \<longrightarrow> 0 < slots (group_limiter g)"
    and "leaves_queue (f_phase f) \<longrightarrow> 0 < waiting (group_limiter g)"
  shows "length xs \<le> 16 \<and>
         (flight_step inp f g = None \<longleftrightarrow>
            returned_phase (f_phase f) \<or>
            queued_phase (f_phase f) \<and> slots_cap (group_limiter g) \<le> slots (group_limiter g) \<and>
              ctx_Err (f_work f) (in_clk inp 0) = None)"
  using flight_trace_rank [OF assms(1)] flight_step_blocked [OF assms(2-4), of inp]
  by (simp add: newFlight_def flight_rank_def)

definition sampleInput :: step_input where
  "sampleInput = \<lparr>in_clk = (\<lambda>_. 5), in_slotFirst = True, in_answer = AnsPlain ''v'' None\<rparr>"

definition sampleFence :: readFence where
  "sampleFence = \<lparr>fence_epoch = 0, fence_minimum = 0\<rparr>"

theorem flight_terminates_witness:
  "\<exists>f. flight_trace [(sampleInput, sampleGroup)] (newFlight ''k'' sampleFence) = Some f \<and>
     f_phase f = FLoad \<and> flight_step sampleInput f sampleGroup \<noteq> None"
proof -
  have key: "ValidateKey ''k'' = None" by code_simp
  obtain f where f: "flight_trace [(sampleInput, sampleGroup)] (newFlight ''k'' sampleFence) = Some f"
      "f_phase f = FLoad"
    by (simp add: flight_step_def newFlight_def sampleInput_def sampleGroup_def sampleOptions_def flight_lookup_def
        lookupAtLeast_def lookup_def key cache_get_def newCache_def WithTimeout_def ctx_Err_def Background_def
        duration_defs)
  from flight_terminates [OF f(1) sampleGroup_inv, of sampleInput] f show ?thesis by auto
qed

text \<open>
  C5: an invalidation that is forced or announces a new version discards every load that passed its
  barrier before: whatever such a load commits later with the old epoch, it stores nothing under
  the key, it only reports its value or that it is stale.
\<close>

theorem invalidation_discards_loads:
  assumes "group_inv g" "readBarrier t0 key g = (fence, g1)"
    and "InvalidateVersion t1 t2 key version g1 = (None, g2)"
    and "version = 0 \<or> known_at t1 key g1 < version"
  shows "\<exists>r err g3. load_commit clk key fence val w g2 = Some (r, err, g3) \<and>
           (\<forall>now v. fst (cache_get now key (mainCache g3)) = Some v \<longrightarrow>
              (\<exists>t. cached (mainCache g2) key = Some (v, t))) \<and>
           (err = None \<or> err = Some ErrStaleVersion)"
proof -
  obtain c where g1: "g1 = g\<lparr>mainCache := c\<rparr>" "group_inv g1"
    and fence: "fence_epoch fence = epochs g ! epochBucket g key"
    using readBarrier_spec [OF assms(1), of t0 key] assms(2) by auto
  have ok: "ValidateKey key = None" "0 \<le> version" "g2 = snd (InvalidateVersion t1 t2 key version g1)"
    using InvalidateVersion_ok [of t1 t2 key version g1] assms(3) by simp_all
  obtain d where g2: "group_inv g2" and d: "epochs_grew g1 d g2" "\<forall>b. d b \<le> 2" "0 < d (epochBucket g1 key)"
    using InvalidateVersion_spec [OF g1(2) ok(1,2), of t1 t2] assms(4) ok(3) by auto
  have bucket: "epochBucket g1 = epochBucket g" "epochBucket g2 = epochBucket g1"
    using InvalidateVersion_opts [of t1 t2 key version g1] ok(3) g1(1) by (auto intro!: epochBucket_opts)
  have "d (epochBucket g key) = 1 \<or> d (epochBucket g key) = 2"
    using d(2) [rule_format, of "epochBucket g key"] d(3) bucket by auto
  then have new: "fence_epoch fence \<noteq> epochs g2 ! epochBucket g2 key"
    using d(1) epochBucket_less [OF assms(1), of key] bucket fence by (auto simp: epochs_grew_def g1(1))
  obtain r err g3 where lc: "load_commit clk key fence val w g2 = Some (r, err, g3)" "commit_adds key fence w g2 g3"
      "err = None \<or> err = Some ErrStaleVersion"
    using load_commit_spec [OF g2, of clk key fence val w] by (auto split: if_splits)
  then have inv3: "cache_inv (mainCache g3)" by (simp add: commit_adds_def group_inv_def)
  have "cached (mainCache g2) key = Some (v, t)" if "cached (mainCache g3) key = Some (v, t)" for v t
    using lc(2) that new by (auto simp: commit_adds_def)
  with lc cache_get_found [OF inv3] show ?thesis by blast
qed

theorem invalidation_discards_loads_witness:
  "\<exists>fence g1 g2 r err g3. readBarrier 0 ''k'' sampleGroup = (fence, g1) \<and>
     InvalidateVersion 1 1 ''k'' 0 g1 = (None, g2) \<and>
     load_commit (\<lambda>_. 2) ''k'' fence ''v'' 4 g2 = Some (r, err, g3) \<and> fst (cache_get 3 ''k'' (mainCache g3)) = None"
proof -
  obtain fence g1 where b: "readBarrier 0 ''k'' sampleGroup = (fence, g1)"
    by (cases "readBarrier 0 ''k'' sampleGroup")
  have "ValidateKey ''k'' = None" by code_simp
  then obtain g2 where i: "InvalidateVersion 1 1 ''k'' 0 g1 = (None, g2)"
    using InvalidateVersion_ok [of 1 1 "''k''" 0 g1] by (cases "InvalidateVersion 1 1 ''k'' 0 g1") auto
  have inv1: "group_inv g1" using readBarrier_spec [OF sampleGroup_inv, of 0 "''k''"] b by auto
  from InvalidateVersion_spec [OF inv1 \<open>ValidateKey ''k'' = None\<close>, of 0 1 1] i
  have "cached (mainCache g2) ''k'' = None" by (cases "cached (mainCache g2) ''k''") auto
  moreover obtain r err g3 where "load_commit (\<lambda>_. 2) ''k'' fence ''v'' 4 g2 = Some (r, err, g3)"
    "\<forall>now v. fst (cache_get now ''k'' (mainCache g3)) = Some v \<longrightarrow> (\<exists>t. cached (mainCache g2) ''k'' = Some (v, t))"
    using invalidation_discards_loads [OF sampleGroup_inv b i, of "\<lambda>_. 2" "''v''" 4] by auto
  ultimately show ?thesis
    using b i by (cases "fst (cache_get 3 ''k'' (mainCache g3))") auto
qed

end
