(* ===== verification/Coherence.thy ===== *)
theory Coherence
  imports Group_Read
begin

text \<open>
  One cache node under concurrency: any number of \<open>Get\<close> callers and flights, invalidations,
  maintenance and source commits interleave, each locked section being one step. The third-party
  single-flight group is the parameter \<open>joins\<close>: given the keys of the executions it knows, in
  order, and the key of a new call, it names the execution to share, or none to start a new one.

  Three components of the state record history and are not in the program: the version the
  source has committed for each key, the highest version a notification has delivered to this
  node, and the number of invalidation calls so far. A caller also records the notified version
  of its key at the time it called \<open>Get\<close>.
\<close>

section \<open>The system\<close>

datatype get_call =
    GCalled gocontext string int
  | GAdmitted gocontext string int
  | GFenced gocontext string int readFence
  | GWaiting gocontext string int nat
  | GDone string int ByteView "goerror option"

record sys =
  s_group :: Group
  s_flights :: "flight list"
  s_callers :: "get_call list"
  s_committed :: "string \<Rightarrow> int"
  s_notified :: "string \<Rightarrow> int"
  s_invalidations :: nat

definition flight_keys :: "sys \<Rightarrow> string list" where
  "flight_keys s = map (\<lambda>f. flightKey (f_fence f) (f_key f)) (s_flights s)"

definition flight_result :: "flight \<Rightarrow> (ByteView \<times> goerror option) option" where
  "flight_result f = (case f_phase f of FReturn v err \<Rightarrow> Some (v, err) | _ \<Rightarrow> None)"

text \<open>A versioned source that does not fail returns the version committed at that moment.\<close>

fun honest :: "int \<Rightarrow> getter_answer \<Rightarrow> bool" where
  "honest committed (AnsVersioned loaded version err) \<longleftrightarrow> (err = None \<longrightarrow> version = committed)"
| "honest committed (AnsPlain loaded err) \<longleftrightarrow> False"

fun awaits_answer :: "flight_phase \<Rightarrow> bool" where
  "awaits_answer (FCalling _) = True"
| "awaits_answer _ = False"

inductive sys_step :: "(string list \<Rightarrow> string \<Rightarrow> nat option) \<Rightarrow> sys \<Rightarrow> sys \<Rightarrow> bool"
  for joins :: "string list \<Rightarrow> string \<Rightarrow> nat option" where
  source_commit: "s_committed s key < version \<Longrightarrow>
    sys_step joins s (s\<lparr>s_committed := (s_committed s)(key := version)\<rparr>)"
| get_called:
    "sys_step joins s (s\<lparr>s_callers := s_callers s @ [GCalled ctx key (s_notified s key)]\<rparr>)"
| get_returned: "\<lbrakk> i < length (s_callers s); s_callers s ! i = GCalled ctx key need;
      Get_lookup ctx clk key (s_group s) = (GetReturned v err, g) \<rbrakk> \<Longrightarrow>
    sys_step joins s (s\<lparr>s_group := g, s_callers := (s_callers s)[i := GDone key need v err]\<rparr>)"
| get_admitted: "\<lbrakk> i < length (s_callers s); s_callers s ! i = GCalled ctx key need;
      Get_lookup ctx clk key (s_group s) = (GetAdmitted, g) \<rbrakk> \<Longrightarrow>
    sys_step joins s (s\<lparr>s_group := g, s_callers := (s_callers s)[i := GAdmitted ctx key need]\<rparr>)"
| get_fenced: "\<lbrakk> i < length (s_callers s); s_callers s ! i = GAdmitted ctx key need;
      readBarrier now key (s_group s) = (fence, g) \<rbrakk> \<Longrightarrow>
    sys_step joins s (s\<lparr>s_group := g, s_callers := (s_callers s)[i := GFenced ctx key need fence]\<rparr>)"
| get_joins: "\<lbrakk> i < length (s_callers s); s_callers s ! i = GFenced ctx key need fence;
      joins (flight_keys s) (flightKey fence key) = Some n \<rbrakk> \<Longrightarrow>
    sys_step joins s (s\<lparr>s_callers := (s_callers s)[i := GWaiting ctx key need n]\<rparr>)"
| get_starts: "\<lbrakk> i < length (s_callers s); s_callers s ! i = GFenced ctx key need fence;
      joins (flight_keys s) (flightKey fence key) = None \<rbrakk> \<Longrightarrow>
    sys_step joins s (s\<lparr>s_flights := s_flights s @ [newFlight key fence],
                        s_callers := (s_callers s)[i := GWaiting ctx key need (length (s_flights s))]\<rparr>)"
| flight_moves: "\<lbrakk> n < length (s_flights s);
      awaits_answer (f_phase (s_flights s ! n)) \<longrightarrow>
        honest (s_committed s (f_key (s_flights s ! n))) (in_answer inp);
      flight_step inp (s_flights s ! n) (s_group s) = Some (f, g) \<rbrakk> \<Longrightarrow>
    sys_step joins s (s\<lparr>s_group := g, s_flights := (s_flights s)[n := f]\<rparr>)"
| get_delivered: "\<lbrakk> i < length (s_callers s); s_callers s ! i = GWaiting ctx key need n;
      n < length (s_flights s);
      await ctx clk resultFirst (flight_result (s_flights s ! n)) = Some (v, err);
      leaveWaiters (s_group s) = Some g \<rbrakk> \<Longrightarrow>
    sys_step joins s (s\<lparr>s_group := g, s_callers := (s_callers s)[i := GDone key need v err]\<rparr>)"
| invalidated: "\<lbrakk> version \<le> s_committed s key;
      InvalidateVersion t1 t2 key version (s_group s) = (err, g) \<rbrakk> \<Longrightarrow>
    sys_step joins s (s\<lparr>s_group := g,
      s_notified := (if err = None then (s_notified s)(key := max (s_notified s key) version) else s_notified s),
      s_invalidations := s_invalidations s + 1\<rparr>)"
| cleaned:
    "sys_step joins s (s\<lparr>s_group := CleanExpired busy clk start now stop (s_group s)\<rparr>)"

definition sys_init :: "Group \<Rightarrow> (string \<Rightarrow> int) \<Rightarrow> sys" where
  "sys_init g committed =
     \<lparr>s_group = g, s_flights = [], s_callers = [], s_committed = committed,
      s_notified = (\<lambda>_. 0), s_invalidations = 0\<rparr>"

text \<open>What the single-flight group documents: a shared execution was started under the same key.\<close>

definition shares_by_key :: "(string list \<Rightarrow> string \<Rightarrow> nat option) \<Rightarrow> bool" where
  "shares_by_key joins \<longleftrightarrow> (\<forall>keys key n. joins keys key = Some n \<longrightarrow> n < length keys \<and> keys ! n = key)"

section \<open>Invariant\<close>

definition cur_epoch :: "Group \<Rightarrow> string \<Rightarrow> nat" where
  "cur_epoch g key = unat (epochs g ! epochBucket g key)"

fun carried :: "flight_phase \<Rightarrow> int option" where
  "carried (FAnswered st a) = (case sourceAnswer a of (_, version, err) \<Rightarrow> if err = None then Some version else None)"
| "carried (FReturn v None) = Some (Version v)"
| "carried _ = None"

definition flight_ok :: "sys \<Rightarrow> flight \<Rightarrow> bool" where
  "flight_ok s f \<longleftrightarrow>
     unat (fence_epoch (f_fence f)) \<le> unat (fence_epoch (f_retry f)) \<and>
     unat (fence_epoch (f_retry f)) \<le> cur_epoch (s_group s) (f_key f) \<and>
     fence_minimum (f_fence f) \<le> fence_minimum (f_retry f) \<and>
     (f_phase f = FStart \<longrightarrow> f_retry f = f_fence f) \<and>
     (\<forall>v. f_phase f = FReturn v None \<longrightarrow> fence_minimum (f_fence f) \<le> Version v) \<and>
     (\<forall>w. carried (f_phase f) = Some w \<longrightarrow>
        w \<le> s_committed s (f_key f) \<and>
        (s_notified s (f_key f) \<le> w \<or>
         unat (fence_epoch (f_retry f)) < cur_epoch (s_group s) (f_key f) \<or>
         s_notified s (f_key f) \<le> floor_at (floors (s_group s)) (f_key f)))"

definition serves :: "int \<Rightarrow> flight \<Rightarrow> bool" where
  "serves need f \<longleftrightarrow>
     (\<forall>w. carried (f_phase f) = Some w \<longrightarrow> need \<le> w \<or> need \<le> fence_minimum (f_fence f))"

fun caller_ok :: "sys \<Rightarrow> get_call \<Rightarrow> bool" where
  "caller_ok s (GCalled ctx key need) \<longleftrightarrow> need \<le> s_notified s key"
| "caller_ok s (GAdmitted ctx key need) \<longleftrightarrow> need \<le> s_notified s key"
| "caller_ok s (GFenced ctx key need fence) \<longleftrightarrow> need \<le> s_notified s key \<and>
     unat (fence_epoch fence) \<le> cur_epoch (s_group s) key \<and>
     (\<forall>f \<in> set (s_flights s). f_key f = key \<and> f_fence f = fence \<longrightarrow> serves need f)"
| "caller_ok s (GWaiting ctx key need n) \<longleftrightarrow> need \<le> s_notified s key \<and> n < length (s_flights s) \<and>
     f_key (s_flights s ! n) = key \<and> serves need (s_flights s ! n)"
| "caller_ok s (GDone key need v err) \<longleftrightarrow> (err = None \<longrightarrow> need \<le> Version v)"

definition resident_ok :: "sys \<Rightarrow> bool" where
  "resident_ok s \<longleftrightarrow>
     (\<forall>key v t. cached (mainCache (s_group s)) key = Some (v, t) \<longrightarrow>
        s_notified s key \<le> Version v \<and> Version v \<le> s_committed s key)"

definition sys_inv :: "sys \<Rightarrow> bool" where
  "sys_inv s \<longleftrightarrow>
     group_inv (s_group s) \<and>
     (\<forall>b < 256. unat (epochs (s_group s) ! b) \<le> 2 * s_invalidations s) \<and>
     (\<forall>key. s_notified s key \<le> s_committed s key) \<and>
     resident_ok s \<and> list_all (flight_ok s) (s_flights s) \<and> list_all (caller_ok s) (s_callers s)"

section \<open>What keeps flights and callers valid\<close>

text \<open>
  A change of the rest of the system that a waiting flight tolerates: versions and epochs only
  grow, and where a floor was lost or a notification arrived, either the epoch has advanced or the
  new floor covers the notification.
\<close>

definition grows :: "sys \<Rightarrow> sys \<Rightarrow> bool" where
  "grows s s' \<longleftrightarrow>
     (\<forall>key. s_committed s key \<le> s_committed s' key \<and> s_notified s key \<le> s_notified s' key \<and>
        cur_epoch (s_group s) key \<le> cur_epoch (s_group s') key \<and>
        (s_notified s' key \<le> floor_at (floors (s_group s')) key \<or>
         s_notified s' key = s_notified s key \<and>
           (floor_at (floors (s_group s)) key \<le> floor_at (floors (s_group s')) key \<or>
            cur_epoch (s_group s) key < cur_epoch (s_group s') key)))"

lemma grows_flight_ok:
  assumes "grows s s'" "flight_ok s f"
  shows "flight_ok s' f"
proof -
  let ?k = "f_key f"
  have g: "s_committed s ?k \<le> s_committed s' ?k" "cur_epoch (s_group s) ?k \<le> cur_epoch (s_group s') ?k"
    "s_notified s' ?k \<le> floor_at (floors (s_group s')) ?k \<or>
     s_notified s' ?k = s_notified s ?k \<and>
       (floor_at (floors (s_group s)) ?k \<le> floor_at (floors (s_group s')) ?k \<or>
        cur_epoch (s_group s) ?k < cur_epoch (s_group s') ?k)"
    using assms(1) by (auto simp: grows_def)
  with assms(2) show ?thesis
    by (auto simp: flight_ok_def intro: order_trans)
qed

lemma grows_caller_ok:
  assumes "grows s s'" "s_flights s' = s_flights s" "caller_ok s c"
  shows "caller_ok s' c"
  using assms by (cases c) (auto simp: grows_def intro: order_trans)

lemma grows_refl: "grows s s"
  by (simp add: grows_def)

lemma settled_cur_epoch: "settled g g' \<Longrightarrow> cur_epoch g' = cur_epoch g"
  by (auto simp: cur_epoch_def settled_def fun_eq_iff epochBucket_def)

lemma settled_grows:
  "settled (s_group s) g \<Longrightarrow> s_group s' = g \<Longrightarrow> s_committed s' = s_committed s \<Longrightarrow>
   s_notified s' = s_notified s \<Longrightarrow> grows s s'"
  using settled_cur_epoch [of "s_group s" g] by (simp add: grows_def settled_def)

lemma settled_resident_ok:
  "resident_ok s \<Longrightarrow> settled (s_group s) (s_group s') \<Longrightarrow> s_committed s' = s_committed s \<Longrightarrow>
   s_notified s' = s_notified s \<Longrightarrow> resident_ok s'"
  unfolding resident_ok_def settled_def by (metis keeps_found)

lemma carries_carried: "\<not> carries p \<Longrightarrow> carried p = None"
  by (cases p rule: carried.cases) (auto simp: carries_def)

lemma carried_FReturn [simp]: "carried (FReturn v err) = (if err = None then Some (Version v) else None)"
  by (cases err) auto

subsection \<open>Callers\<close>

lemma Get_lookup_spec:
  assumes "group_inv g" "Get_lookup ctx clk key g = (out, g')"
  shows "settled g g' \<and> (\<forall>v. out = GetReturned v None \<longrightarrow> (\<exists>t. cached (mainCache g) key = Some (v, t)))"
proof -
  obtain v found err g1 where l: "lookup ctx clk key g = ((v, found, err), g1)"
    by (metis prod_cases3 surj_pair)
  from lookup_spec [OF assms(1) l] assms(2) l show ?thesis
    by (auto simp: Get_lookup_def Let_def admit_def split: if_splits prod.splits bool.splits)
qed

text \<open>
  A group change that is \<^const>\<open>settled\<close>, together with an update of one caller.
\<close>

lemma sys_inv_caller:
  fixes c :: get_call
  assumes "sys_inv s" "settled (s_group s) g" "i < length (s_callers s)"
  defines "s' \<equiv> s\<lparr>s_group := g, s_callers := (s_callers s)[i := c]\<rparr>"
  assumes "caller_ok s' c"
  shows "sys_inv s'"
proof -
  have gr: "grows s s'" using assms(2) by (auto simp: s'_def intro: settled_grows)
  have "list_all (caller_ok s') (s_callers s)"
    using assms(1) grows_caller_ok [OF gr] by (auto simp: sys_inv_def list_all_iff s'_def)
  then have "list_all (caller_ok s') (s_callers s')"
    using assms(3,5) by (auto simp: s'_def list_all_length nth_list_update)
  moreover have "list_all (flight_ok s') (s_flights s')"
    using assms(1) grows_flight_ok [OF gr] by (auto simp: sys_inv_def list_all_iff s'_def)
  moreover have "resident_ok s'"
    using assms(1,2) by (auto simp: sys_inv_def s'_def intro: settled_resident_ok [of s])
  ultimately show ?thesis
    using assms(1,2) by (auto simp: sys_inv_def s'_def settled_def)
qed

lemma caller_at: "sys_inv s \<Longrightarrow> i < length (s_callers s) \<Longrightarrow> caller_ok s (s_callers s ! i)"
  by (auto simp: sys_inv_def list_all_length)

lemma flight_at: "sys_inv s \<Longrightarrow> n < length (s_flights s) \<Longrightarrow> flight_ok s (s_flights s ! n)"
  by (auto simp: sys_inv_def list_all_length)

lemma get_returned_inv:
  assumes "sys_inv s" "i < length (s_callers s)" "s_callers s ! i = GCalled ctx key need"
    and "Get_lookup ctx clk key (s_group s) = (GetReturned v err, g)"
  shows "sys_inv (s\<lparr>s_group := g, s_callers := (s_callers s)[i := GDone key need v err]\<rparr>)"
proof (rule sys_inv_caller [OF assms(1) _ assms(2)])
  have inv: "group_inv (s_group s)" using assms(1) by (simp add: sys_inv_def)
  note spec = Get_lookup_spec [OF inv assms(4)]
  then show "settled (s_group s) g" by blast
  have "need \<le> s_notified s key" using caller_at [OF assms(1,2)] assms(3) by simp
  then show "caller_ok (s\<lparr>s_group := g, s_callers := (s_callers s)[i := GDone key need v err]\<rparr>) (GDone key need v err)"
    using spec assms(1) by (fastforce simp: sys_inv_def resident_ok_def)
qed

lemma get_admitted_inv:
  assumes "sys_inv s" "i < length (s_callers s)" "s_callers s ! i = GCalled ctx key need"
    and "Get_lookup ctx clk key (s_group s) = (GetAdmitted, g)"
  shows "sys_inv (s\<lparr>s_group := g, s_callers := (s_callers s)[i := GAdmitted ctx key need]\<rparr>)"
proof (rule sys_inv_caller [OF assms(1) _ assms(2)])
  have inv: "group_inv (s_group s)" using assms(1) by (simp add: sys_inv_def)
  then show "settled (s_group s) g" using Get_lookup_spec [OF inv assms(4)] by blast
qed (use caller_at [OF assms(1,2)] assms(3) in simp)

lemma get_fenced_inv:
  assumes "sys_inv s" "i < length (s_callers s)" "s_callers s ! i = GAdmitted ctx key need"
    and "readBarrier now key (s_group s) = (fence, g)"
  shows "sys_inv (s\<lparr>s_group := g, s_callers := (s_callers s)[i := GFenced ctx key need fence]\<rparr>)"
proof (rule sys_inv_caller [OF assms(1) _ assms(2)])
  have inv: "group_inv (s_group s)" using assms(1) by (simp add: sys_inv_def)
  obtain c where c: "g = (s_group s)\<lparr>mainCache := c\<rparr>" "keeps (mainCache (s_group s)) c"
    and fence: "unat (fence_epoch fence) = cur_epoch (s_group s) key"
      "fence_minimum fence = known_at now key (s_group s)"
    using readBarrier_spec [OF inv, of now key] assms(4) by (auto simp: cur_epoch_def)
  then show st: "settled (s_group s) g" using settled_mainCache [OF inv] by simp
  have need: "need \<le> s_notified s key" using caller_at [OF assms(1,2)] assms(3) by simp
  have floor: "floor_at (floors (s_group s)) key \<le> fence_minimum fence"
    by (simp add: fence(2) known_at_def)
  have "serves need f" if "f \<in> set (s_flights s)" "f_key f = key" "f_fence f = fence" for f
    using assms(1) that fence(1) floor need unfolding serves_def sys_inv_def list_all_iff flight_ok_def
    by fastforce
  then show "caller_ok (s\<lparr>s_group := g, s_callers := (s_callers s)[i := GFenced ctx key need fence]\<rparr>)
      (GFenced ctx key need fence)"
    using need fence settled_cur_epoch [OF st] by simp
qed

lemma get_joins_inv:
  assumes "sys_inv s" "i < length (s_callers s)" "s_callers s ! i = GFenced ctx key need fence"
    and "shares_by_key joins" "joins (flight_keys s) (flightKey fence key) = Some n"
  shows "sys_inv (s\<lparr>s_callers := (s_callers s)[i := GWaiting ctx key need n]\<rparr>)"
proof -
  have n: "n < length (s_flights s)" "flightKey (f_fence (s_flights s ! n)) (f_key (s_flights s ! n)) = flightKey fence key"
    using assms(4,5) by (fastforce simp: shares_by_key_def flight_keys_def)+
  from flightKey_inj [OF n(2)] have "f_key (s_flights s ! n) = key" "f_fence (s_flights s ! n) = fence"
    by auto
  moreover have "caller_ok s (GFenced ctx key need fence)"
    using caller_at [OF assms(1,2)] assms(3) by simp
  ultimately have "caller_ok s (GWaiting ctx key need n)" using n(1) by auto
  then have "caller_ok (s\<lparr>s_group := s_group s, s_callers := (s_callers s)[i := GWaiting ctx key need n]\<rparr>)
      (GWaiting ctx key need n)"
    by simp
  from sys_inv_caller [OF assms(1) settled_refl assms(2) this] show ?thesis
    using assms(1) by (simp add: sys_inv_def)
qed

lemma get_delivered_inv:
  assumes "sys_inv s" "i < length (s_callers s)" "s_callers s ! i = GWaiting ctx key need n"
    and "await ctx clk resultFirst (flight_result (s_flights s ! n)) = Some (v, err)"
    and "leaveWaiters (s_group s) = Some g"
  shows "sys_inv (s\<lparr>s_group := g, s_callers := (s_callers s)[i := GDone key need v err]\<rparr>)"
proof (rule sys_inv_caller [OF assms(1) _ assms(2)])
  have inv: "group_inv (s_group s)" using assms(1) by (simp add: sys_inv_def)
  then show "settled (s_group s) g"
    using assms(5) settled_refl [OF inv] by (auto simp: leaveWaiters_def split: if_splits)
  have w: "n < length (s_flights s)" "serves need (s_flights s ! n)"
    using caller_at [OF assms(1,2)] assms(3) by auto
  have "f_phase (s_flights s ! n) = FReturn v None" if "err = None"
    using assms(4) that
    by (auto simp: await_def flight_result_def split: option.splits if_splits flight_phase.splits)
  then have "err = None \<Longrightarrow> need \<le> Version v"
    using w(2) flight_at [OF assms(1) w(1)] by (fastforce simp: serves_def flight_ok_def)
  then show "caller_ok (s\<lparr>s_group := g, s_callers := (s_callers s)[i := GDone key need v err]\<rparr>) (GDone key need v err)"
    by simp
qed

lemma get_starts_inv:
  assumes "sys_inv s" "i < length (s_callers s)" "s_callers s ! i = GFenced ctx key need fence"
  defines "s' \<equiv> s\<lparr>s_flights := s_flights s @ [newFlight key fence],
                   s_callers := (s_callers s)[i := GWaiting ctx key need (length (s_flights s))]\<rparr>"
  shows "sys_inv s'"
proof -
  have gr: "grows s s'" by (simp add: s'_def grows_def)
  have fenced: "need \<le> s_notified s key" "unat (fence_epoch fence) \<le> cur_epoch (s_group s) key"
    using caller_at [OF assms(1,2)] assms(3) by auto
  have "flight_ok s' (newFlight key fence)"
    using fenced by (simp add: flight_ok_def newFlight_def s'_def)
  then have flights: "list_all (flight_ok s') (s_flights s')"
    using assms(1) grows_flight_ok [OF gr] by (auto simp: sys_inv_def list_all_iff s'_def)
  have new: "serves n (newFlight key fence)" for n
    by (simp add: serves_def newFlight_def)
  have "caller_ok s' c" if "caller_ok s c" for c
    using that new by (cases c) (auto simp: s'_def nth_append cur_epoch_def)
  then have "list_all (caller_ok s') (s_callers s)"
    using assms(1) by (auto simp: sys_inv_def list_all_iff)
  moreover have "caller_ok s' (GWaiting ctx key need (length (s_flights s)))"
    using fenced new by (simp add: s'_def newFlight_def)
  ultimately have "list_all (caller_ok s') (s_callers s')"
    using assms(2) by (auto simp: s'_def list_all_length nth_list_update)
  with flights assms(1) show ?thesis
    by (auto simp: sys_inv_def s'_def resident_ok_def)
qed

subsection \<open>Flights\<close>

lemma commit_adds_grows:
  assumes "commit_adds key fence w (s_group s) g" "s_group s' = g" "s_committed s' = s_committed s"
    "s_notified s' = s_notified s"
  shows "grows s s'"
proof -
  have "cur_epoch g = cur_epoch (s_group s)"
    using assms(1) by (auto simp: commit_adds_def cur_epoch_def epochBucket_def fun_eq_iff)
  with assms show ?thesis by (simp add: grows_def commit_adds_def)
qed

text \<open>A flight's own step keeps it valid, keeps the promise to its waiters and the residents.\<close>

lemma carried_answer:
  "carried (FAnswered st a) = Some w \<longleftrightarrow> fst (snd (sourceAnswer a)) = w \<and> snd (snd (sourceAnswer a)) = None"
  by (auto split: prod.split)

lemma honest_answer: "honest committed a \<Longrightarrow> snd (snd (sourceAnswer a)) = None \<Longrightarrow> fst (snd (sourceAnswer a)) = committed"
  by (cases a) (auto split: if_splits)

definition moved :: "sys \<Rightarrow> nat \<Rightarrow> flight \<Rightarrow> Group \<Rightarrow> sys" where
  "moved s n f g = s\<lparr>s_group := g, s_flights := (s_flights s)[n := f]\<rparr>"

lemma moved_fields [simp]:
  "s_group (moved s n f g) = g" "s_flights (moved s n f g) = (s_flights s)[n := f]"
  "s_callers (moved s n f g) = s_callers s" "s_committed (moved s n f g) = s_committed s"
  "s_notified (moved s n f g) = s_notified s" "s_invalidations (moved s n f g) = s_invalidations s"
  by (simp_all add: moved_def)

definition step_ok :: "sys \<Rightarrow> flight \<Rightarrow> Group \<Rightarrow> flight \<Rightarrow> bool" where
  "step_ok s f' g f \<longleftrightarrow>
     group_inv g \<and> epochs g = epochs (s_group s) \<and> flight_kept f f' \<and>
     (\<forall>n. grows s (moved s n f' g) \<and> flight_ok (moved s n f' g) f' \<and> resident_ok (moved s n f' g)) \<and>
     (\<forall>need. need \<le> s_notified s (f_key f) \<and> serves need f \<longrightarrow> serves need f')"

lemma settled_step_ok:
  assumes "sys_inv s" "settled (s_group s) g" "flight_kept f f'"
    and "flight_ok (moved s 0 f' g) f'"
    and "\<forall>need. need \<le> s_notified s (f_key f) \<and> serves need f \<longrightarrow> serves need f'"
  shows "step_ok s f' g f"
proof -
  have "flight_ok (moved s n f' g) f'" for n
    using assms(4) by (simp add: flight_ok_def)
  then show ?thesis
    using assms settled_grows [OF assms(2)] settled_resident_ok [of s "moved s _ f' g"]
    by (auto simp: step_ok_def settled_def sys_inv_def)
qed

lemma flight_ok_moved:
  assumes "flight_ok s f" "flight_kept f f'" "cur_epoch g = cur_epoch (s_group s)"
    and "unat (fence_epoch (f_retry f)) \<le> unat (fence_epoch (f_retry f'))"
    and "unat (fence_epoch (f_retry f')) \<le> cur_epoch (s_group s) (f_key f)"
    and "f_phase f' \<noteq> FStart"
    and "\<forall>v. f_phase f' = FReturn v None \<longrightarrow> fence_minimum (f_fence f) \<le> Version v"
    and "\<forall>w. carried (f_phase f') = Some w \<longrightarrow> w \<le> s_committed s (f_key f) \<and>
           (s_notified s (f_key f) \<le> w \<or>
            unat (fence_epoch (f_retry f')) < cur_epoch (s_group s) (f_key f) \<or>
            s_notified s (f_key f) \<le> floor_at (floors g) (f_key f))"
  shows "flight_ok (moved s n f' g) f'"
  using assms by (auto simp: flight_ok_def flight_kept_def)

lemma quiet_step_ok:
  assumes "sys_inv s" "flight_ok s f" "quiet_step f f' (s_group s) g"
  shows "step_ok s f' g f"
proof (rule settled_step_ok [OF assms(1)])
  from assms(3) have q: "settled (s_group s) g" "flight_kept f f'" "f_phase f' \<noteq> FStart"
    "carried (f_phase f') = None" "fence_epoch (f_retry f') = fence_epoch (f_retry f)"
    by (auto simp: quiet_step_def carries_carried)
  show "settled (s_group s) g" "flight_kept f f'" using q by auto
  show "flight_ok (moved s 0 f' g) f'"
    by (rule flight_ok_moved [OF assms(2) q(2) settled_cur_epoch [OF q(1)]])
      (use q assms(2) in \<open>auto simp: flight_ok_def\<close>)
  show "\<forall>need. need \<le> s_notified s (f_key f) \<and> serves need f \<longrightarrow> serves need f'"
    using q by (simp add: serves_def)
qed

lemma hit_step_ok:
  assumes "sys_inv s" "flight_ok s f" "hit_step f f' (s_group s) g"
  shows "step_ok s f' g f"
proof (rule settled_step_ok [OF assms(1)])
  from assms(3) obtain v t where h: "settled (s_group s) g" "flight_kept f f'" "f_retry f' = f_retry f"
    "f_phase f' = FReturn v None" "cached (mainCache (s_group s)) (f_key f) = Some (v, t)"
    "f_phase f = FStart \<and> fence_minimum (f_fence f) \<le> Version v \<or>
     f_phase f = FRelook \<and> fence_minimum (f_retry f) \<le> Version v"
    by (auto simp: hit_step_def)
  from assms(1) h(5) have r: "s_notified s (f_key f) \<le> Version v" "Version v \<le> s_committed s (f_key f)"
    by (auto simp: sys_inv_def resident_ok_def)
  show "settled (s_group s) g" "flight_kept f f'" using h by auto
  have "fence_minimum (f_fence f) \<le> Version v"
    using h(6) assms(2) by (auto simp: flight_ok_def)
  then show "flight_ok (moved s 0 f' g) f'"
    by (intro flight_ok_moved [OF assms(2) h(2) settled_cur_epoch [OF h(1)]])
      (use h r assms(2) in \<open>auto simp: flight_ok_def\<close>)
  show "\<forall>need. need \<le> s_notified s (f_key f) \<and> serves need f \<longrightarrow> serves need f'"
    using h r by (auto simp: serves_def)
qed

lemma answer_step_ok:
  assumes "sys_inv s" "flight_ok s f" "answer_step a f f' (s_group s) g" "honest (s_committed s (f_key f)) a"
  shows "step_ok s f' g f"
proof (rule settled_step_ok [OF assms(1)])
  from assms(3) obtain st where a: "g = s_group s" "f_phase f = FCalling st" "f' = f\<lparr>f_phase := FAnswered st a\<rparr>"
    by (auto simp: answer_step_def)
  have nc: "s_notified s (f_key f) \<le> s_committed s (f_key f)" using assms(1) by (simp add: sys_inv_def)
  have w: "w = s_committed s (f_key f)" if "carried (f_phase f') = Some w" for w
    using that honest_answer [OF assms(4)] a(3) by (auto simp: carried_answer simp del: carried.simps)
  show "settled (s_group s) g" using assms(1) a(1) settled_refl by (simp add: sys_inv_def)
  show kept: "flight_kept f f'" by (simp add: a(3) flight_kept_def)
  show "flight_ok (moved s 0 f' g) f'"
    by (rule flight_ok_moved [OF assms(2) kept]) (use a nc w assms(2) in \<open>auto simp: flight_ok_def simp del: carried.simps\<close>)
  show "\<forall>need. need \<le> s_notified s (f_key f) \<and> serves need f \<longrightarrow> serves need f'"
    using w nc by (auto simp: serves_def)
qed

lemma commit_resident_ok:
  assumes "sys_inv s" "flight_ok s f" "f_phase f = FAnswered st a"
    and "commit_adds (f_key f) (f_retry f) (fst (snd (sourceAnswer a))) (s_group s) g"
    and "snd (snd (sourceAnswer a)) \<noteq> None \<longrightarrow> settled (s_group s) g"
  shows "resident_ok (moved s n f' g)"
proof (cases "snd (snd (sourceAnswer a))")
  case (Some e)
  with assms(1,5) show ?thesis
    by (auto simp: sys_inv_def intro: settled_resident_ok [of s])
next
  case None
  let ?w = "fst (snd (sourceAnswer a))"
  have "carried (f_phase f) = Some ?w"
    using None assms(3) by (simp add: carried_answer del: carried.simps)
  then have c: "?w \<le> s_committed s (f_key f)"
    "s_notified s (f_key f) \<le> ?w \<or> unat (fence_epoch (f_retry f)) < cur_epoch (s_group s) (f_key f) \<or>
     s_notified s (f_key f) \<le> floor_at (floors (s_group s)) (f_key f)"
    using assms(2) by (auto simp: flight_ok_def)
  have "s_notified s j \<le> Version v \<and> Version v \<le> s_committed s j" if j: "cached (mainCache g) j = Some (v, t)" for j v t
  proof (cases "cached (mainCache (s_group s)) j = Some (v, t)")
    case True
    then show ?thesis using assms(1) by (auto simp: sys_inv_def resident_ok_def)
  next
    case False
    with j assms(4) have "j = f_key f" "Version v = ?w"
      "fence_epoch (f_retry f) = epochs (s_group s) ! epochBucket (s_group s) (f_key f)"
      "floor_at (floors (s_group s)) (f_key f) \<le> ?w"
      by (fastforce simp: commit_adds_def)+
    with c show ?thesis by (auto simp: cur_epoch_def)
  qed
  then show ?thesis by (auto simp: resident_ok_def)
qed

lemma commit_step_ok:
  assumes "sys_inv s" "flight_ok s f" "commit_step f f' (s_group s) g"
  shows "step_ok s f' g f"
proof -
  from assms(3) obtain st a where c: "f_phase f = FAnswered st a"
    "commit_adds (f_key f) (f_retry f) (fst (snd (sourceAnswer a))) (s_group s) g"
    "snd (snd (sourceAnswer a)) \<noteq> None \<longrightarrow> settled (s_group s) g"
    "flight_kept f f'" "fence_epoch (f_retry f') = fence_epoch (f_retry f)"
    and out: "\<not> carries (f_phase f') \<and> f_phase f' \<noteq> FStart \<or>
      (\<exists>v. f_phase f' = FReturn v None \<and> Version v = fst (snd (sourceAnswer a)) \<and>
         snd (snd (sourceAnswer a)) = None \<and> fence_minimum (f_retry f') \<le> Version v)"
    by (auto simp: commit_step_def)
  let ?w = "fst (snd (sourceAnswer a))"
  have same: "floors g = floors (s_group s)" "epochs g = epochs (s_group s)" "group_inv g"
    "cur_epoch g = cur_epoch (s_group s)"
    using c(2) by (auto simp: commit_adds_def cur_epoch_def epochBucket_def fun_eq_iff)
  have w: "carried (f_phase f) = Some w" if "carried (f_phase f') = Some w" for w
    using out that c(1) by (auto simp: carries_carried carried_answer simp del: carried.simps)
  have "flight_ok (moved s n f' g) f'" for n
    by (rule flight_ok_moved [OF assms(2) c(4) same(4)])
      (use out w c assms(2) same in \<open>auto simp: flight_ok_def carries_def flight_kept_def simp del: carried.simps\<close>)
  moreover have "grows s (moved s n f' g)" for n
    using commit_adds_grows [OF c(2)] by simp
  moreover have "serves need f'" if "serves need f" for need
    using w c(4) that by (auto simp: serves_def flight_kept_def)
  ultimately show ?thesis
    using same c(4) commit_resident_ok [OF assms(1,2) c(1-3)] by (auto simp: step_ok_def)
qed

lemma barrier_step_ok:
  assumes "sys_inv s" "flight_ok s f" "barrier_step f f' (s_group s) g"
  shows "step_ok s f' g f"
proof (rule settled_step_ok [OF assms(1)])
  from assms(3) have b: "settled (s_group s) g" "flight_kept f f'" "f_phase f' = FRelook"
    "unat (fence_epoch (f_retry f')) = cur_epoch (s_group s) (f_key f)"
    by (auto simp: barrier_step_def cur_epoch_def)
  show "settled (s_group s) g" "flight_kept f f'" using b by auto
  show "flight_ok (moved s 0 f' g) f'"
    by (rule flight_ok_moved [OF assms(2) b(2) settled_cur_epoch [OF b(1)]])
      (use b assms(2) in \<open>auto simp: flight_ok_def\<close>)
  show "\<forall>need. need \<le> s_notified s (f_key f) \<and> serves need f \<longrightarrow> serves need f'"
    using b by (simp add: serves_def)
qed

lemma flight_moves_inv:
  assumes "sys_inv s" "n < length (s_flights s)"
    and "awaits_answer (f_phase (s_flights s ! n)) \<longrightarrow>
           honest (s_committed s (f_key (s_flights s ! n))) (in_answer inp)"
    and "flight_step inp (s_flights s ! n) (s_group s) = Some (f', g)"
  shows "sys_inv (moved s n f' g)"
proof -
  let ?f = "s_flights s ! n" and ?s = "moved s n f' g"
  have inv: "group_inv (s_group s)" using assms(1) by (simp add: sys_inv_def)
  note fok = flight_at [OF assms(1,2)]
  have "honest (s_committed s (f_key ?f)) (in_answer inp)" if "answer_step (in_answer inp) ?f f' (s_group s) g"
    using that assms(3) by (auto simp: answer_step_def)
  then have ok: "step_ok s f' g ?f"
    using flight_step_kind [OF inv assms(4)] assms(1) fok
    by (blast intro: quiet_step_ok hit_step_ok answer_step_ok commit_step_ok barrier_step_ok)
  have gr: "grows s ?s" and f': "flight_ok ?s f'" and kept: "f_key f' = f_key ?f" "f_fence f' = f_fence ?f"
    and srv: "\<And>need. need \<le> s_notified s (f_key ?f) \<Longrightarrow> serves need ?f \<Longrightarrow> serves need f'"
    using ok by (auto simp: step_ok_def flight_kept_def)
  have "flight_ok ?s f" if "f \<in> set ((s_flights s)[n := f'])" for f
    using that set_update_subset_insert [of "s_flights s" n f'] f' grows_flight_ok [OF gr] assms(1)
    by (auto simp: sys_inv_def list_all_iff)
  then have flights: "list_all (flight_ok ?s) (s_flights ?s)"
    by (simp add: list_all_iff)
  have fenced: "serves need f" if "need \<le> s_notified s key" "f \<in> set ((s_flights s)[n := f'])"
      "f_key f = key" "f_fence f = fence"
      "\<forall>f \<in> set (s_flights s). f_key f = key \<and> f_fence f = fence \<longrightarrow> serves need f" for f key fence need
    using that set_update_subset_insert [of "s_flights s" n f'] srv [of need] kept nth_mem [OF assms(2)]
    by (cases "f = f'") auto
  have "caller_ok ?s c" if "caller_ok s c" for c
  proof (cases c)
    case (GFenced ctx key need fence)
    with that gr fenced show ?thesis by (auto simp: grows_def intro: order_trans)
  next
    case (GWaiting ctx key need m)
    with that kept srv show ?thesis by (cases "m = n") auto
  qed (use that in auto)
  then have "list_all (caller_ok ?s) (s_callers s)"
    using assms(1) by (auto simp: sys_inv_def list_all_iff)
  with flights ok assms(1) show ?thesis
    by (auto simp: sys_inv_def step_ok_def)
qed

subsection \<open>Invalidations\<close>

lemma unat_add_of_nat:
  assumes "unat (x :: 64 word) + d < 2 ^ 64"
  shows "unat (x + of_nat d) = unat x + d"
proof -
  have "unat (of_nat d :: 64 word) = d" using assms by (simp add: unsigned_of_nat take_bit_nat_eq_self)
  with assms show ?thesis by (simp add: unat_word_ariths)
qed

lemma epochs_grew_unat:
  assumes "epochs_grew g d g'" "b < length (epochs g)" "unat (epochs g ! b) + d b < 2 ^ 64"
  shows "unat (epochs g' ! b) = unat (epochs g ! b) + d b"
  using assms unat_add_of_nat by (simp add: epochs_grew_def)

lemma known_at_cached: "cached (mainCache g) key = Some (v, t) \<Longrightarrow> live_view now key (mainCache g) = Some v \<Longrightarrow>
  Version v \<le> known_at now key g"
  by (simp add: known_at_def live_version_def)

definition notify :: "sys \<Rightarrow> string \<Rightarrow> int \<Rightarrow> Group \<Rightarrow> sys" where
  "notify s key version g =
     s\<lparr>s_group := g, s_notified := (s_notified s)(key := max (s_notified s key) version),
       s_invalidations := s_invalidations s + 1\<rparr>"

lemma notify_fields [simp]:
  "s_group (notify s key version g) = g" "s_flights (notify s key version g) = s_flights s"
  "s_callers (notify s key version g) = s_callers s" "s_committed (notify s key version g) = s_committed s"
  "s_notified (notify s key version g) = (s_notified s)(key := max (s_notified s key) version)"
  "s_invalidations (notify s key version g) = s_invalidations s + 1"
  by (simp_all add: notify_def)

lemma notify_inv:
  fixes t1 t2 :: gotime
  assumes "sys_inv s" "version \<le> s_committed s key" "ValidateKey key = None" "0 \<le> version"
    and "2 * (s_invalidations s + 1) < 2 ^ 64"
  defines "g \<equiv> snd (InvalidateVersion t1 t2 key version (s_group s))"
  shows "sys_inv (notify s key version g)"
proof -
  let ?s = "notify s key version g" and ?g = "s_group s"
  let ?m = "max (known_at t1 key ?g) version"
  have inv: "group_inv ?g" using assms(1) by (simp add: sys_inv_def)
  obtain d where spec: "group_inv g" "keeps (mainCache ?g) (mainCache g)"
    "\<forall>v t. cached (mainCache g) key = Some (v, t) \<longrightarrow> version \<noteq> 0 \<and> ?m \<le> Version v"
    "floor_at (floors g) key = ?m"
    and d: "epochs_grew ?g d g" "\<forall>b. d b \<le> 2"
    and oth: "\<forall>j. j \<noteq> key \<longrightarrow> floor_at (floors g) j = floor_at (floors ?g) j \<or>
                floor_at (floors g) j = 0 \<and> 0 < d (epochBucket ?g j)"
    using InvalidateVersion_spec [OF inv assms(3,4), of t1 t2, folded g_def] by blast
  have len: "length (epochs ?g) = 256" using inv by (simp add: group_inv_def)
  have bound: "\<forall>b < 256. unat (epochs ?g ! b) \<le> 2 * s_invalidations s"
    using assms(1) by (simp add: sys_inv_def)
  have grown: "unat (epochs g ! b) = unat (epochs ?g ! b) + d b" if "b < 256" for b
    using epochs_grew_unat [OF d(1), of b] that len bound [rule_format, OF that] d(2) [rule_format, of b] assms(5)
    by simp
  have opts: "group_opts g = group_opts ?g"
    unfolding g_def by (rule InvalidateVersion_opts)
  have bucket: "epochBucket g j = epochBucket ?g j" "epochBucket ?g j < 256" for j
    using epochBucket_opts [OF opts] epochBucket_less [OF inv] len by auto
  have cur: "cur_epoch g j = cur_epoch ?g j + d (epochBucket ?g j)" for j
    using grown [OF bucket(2)] bucket(1) by (simp add: cur_epoch_def)
  have floor: "floor_at (floors ?g) key \<le> ?m" by (simp add: known_at_def)
  have gr: "grows s ?s"
    unfolding grows_def
  proof (intro allI)
    fix j
    show "s_committed s j \<le> s_committed ?s j \<and> s_notified s j \<le> s_notified ?s j \<and>
        cur_epoch (s_group s) j \<le> cur_epoch (s_group ?s) j \<and>
        (s_notified ?s j \<le> floor_at (floors (s_group ?s)) j \<or>
         s_notified ?s j = s_notified s j \<and>
           (floor_at (floors (s_group s)) j \<le> floor_at (floors (s_group ?s)) j \<or>
            cur_epoch (s_group s) j < cur_epoch (s_group ?s) j))"
      using oth spec(4) floor by (cases "j = key") (auto simp: cur)
  qed
  have "resident_ok ?s"
    using assms(1,2) keeps_found [OF spec(2)] spec(3)
    unfolding sys_inv_def resident_ok_def by fastforce
  moreover have "\<forall>b < 256. unat (epochs g ! b) \<le> 2 * (s_invalidations s + 1)"
  proof (intro allI impI)
    fix b :: nat
    assume b: "b < 256"
    show "unat (epochs g ! b) \<le> 2 * (s_invalidations s + 1)"
      using bound [rule_format, OF b] d(2) [rule_format, of b] by (simp add: grown [OF b])
  qed
  moreover have "list_all (flight_ok ?s) (s_flights ?s)" "list_all (caller_ok ?s) (s_callers ?s)"
    using assms(1) grows_flight_ok [OF gr] grows_caller_ok [OF gr]
    by (auto simp: sys_inv_def list_all_iff)
  ultimately show ?thesis
    using assms(1,2) spec(1) by (auto simp: sys_inv_def)
qed

lemma invalidated_inv:
  assumes "sys_inv s" "version \<le> s_committed s key" "2 * (s_invalidations s + 1) < 2 ^ 64"
    and "InvalidateVersion t1 t2 key version (s_group s) = (err, g)"
  shows "sys_inv (s\<lparr>s_group := g,
      s_notified := (if err = None then (s_notified s)(key := max (s_notified s key) version) else s_notified s),
      s_invalidations := s_invalidations s + 1\<rparr>)"
proof (cases "ValidateKey key = None \<and> 0 \<le> version")
  case True
  moreover have "err = None"
    using True InvalidateVersion_ok [of t1 t2 key version "s_group s"] assms(4) by simp
  ultimately show ?thesis
    using notify_inv [OF assms(1,2) _ _ assms(3), of t1 t2] assms(4) by (simp add: notify_def)
next
  case False
  then have "g = s_group s" "err \<noteq> None"
    using assms(4) InvalidateVersion_rejected [of key version t1 t2 "s_group s"]
      InvalidateVersion_ok [of t1 t2 key version "s_group s"] by auto
  moreover have "sys_inv (s\<lparr>s_invalidations := s_invalidations s + 1\<rparr>)"
  proof -
    let ?s = "s\<lparr>s_invalidations := s_invalidations s + 1\<rparr>"
    have gr: "grows s ?s" by (simp add: grows_def)
    have "list_all (flight_ok ?s) (s_flights s)" "list_all (caller_ok ?s) (s_callers s)"
      using assms(1) grows_flight_ok [OF gr] grows_caller_ok [OF gr] by (auto simp: sys_inv_def list_all_iff)
    with assms(1) show ?thesis by (auto simp: sys_inv_def resident_ok_def intro: le_SucI)
  qed
  ultimately show ?thesis by (cases err) simp_all
qed

section \<open>Reachable states\<close>

lemma sys_step_invalidations: "sys_step joins s s' \<Longrightarrow> s_invalidations s \<le> s_invalidations s'"
  by (induction rule: sys_step.induct) auto

lemma sys_inv_grown:
  assumes "sys_inv s" "grows s s'" "s_flights s' = s_flights s" "s_callers s' = s_callers s"
    and "group_inv (s_group s')" "epochs (s_group s') = epochs (s_group s)" "s_invalidations s' = s_invalidations s"
    and "\<forall>key. s_notified s' key \<le> s_committed s' key" "resident_ok s'"
  shows "sys_inv s'"
  using assms grows_flight_ok [OF assms(2)] grows_caller_ok [OF assms(2,3)]
  by (auto simp: sys_inv_def list_all_iff)

lemma source_commit_inv:
  assumes "sys_inv s" "s_committed s key < version"
  shows "sys_inv (s\<lparr>s_committed := (s_committed s)(key := version)\<rparr>)"
proof (rule sys_inv_grown [OF assms(1)])
  let ?s = "s\<lparr>s_committed := (s_committed s)(key := version)\<rparr>"
  have more: "s_committed s j \<le> s_committed ?s j" for j using assms(2) by simp
  then show "grows s ?s" by (simp add: grows_def)
  show "\<forall>j. s_notified ?s j \<le> s_committed ?s j"
    using assms(1) order_trans [OF _ more] by (simp add: sys_inv_def)
  show "resident_ok ?s"
    using assms(1) order_trans [OF _ more] by (fastforce simp: sys_inv_def resident_ok_def)
qed (use assms(1) in \<open>simp_all add: sys_inv_def\<close>)

lemma cleaned_inv:
  assumes "sys_inv s"
  shows "sys_inv (s\<lparr>s_group := CleanExpired busy clk start now stop (s_group s)\<rparr>)"
proof -
  have inv: "group_inv (s_group s)" using assms by (simp add: sys_inv_def)
  let ?g = "CleanExpired busy clk start now stop (s_group s)"
  have st: "settled (s_group s) ?g"
    using CleanExpired_spec [OF inv, of busy clk start now stop] by (auto simp: settled_def group_inv_def)
  show ?thesis
    by (rule sys_inv_grown [OF assms settled_grows [OF st]])
      (use assms st settled_resident_ok [of s "s\<lparr>s_group := ?g\<rparr>"] in \<open>auto simp: settled_def sys_inv_def\<close>)
qed

lemma get_called_inv:
  assumes "sys_inv s"
  shows "sys_inv (s\<lparr>s_callers := s_callers s @ [GCalled ctx key (s_notified s key)]\<rparr>)"
proof -
  let ?s = "s\<lparr>s_callers := s_callers s @ [GCalled ctx key (s_notified s key)]\<rparr>"
  have gr: "grows s ?s" by (simp add: grows_def)
  have "list_all (flight_ok ?s) (s_flights s)" "list_all (caller_ok ?s) (s_callers s)"
    using assms grows_flight_ok [OF gr] grows_caller_ok [OF gr] by (auto simp: sys_inv_def list_all_iff)
  with assms show ?thesis by (auto simp: sys_inv_def resident_ok_def)
qed

lemma sys_step_inv:
  assumes "sys_step joins s s'" "shares_by_key joins" "sys_inv s" "2 * s_invalidations s' < 2 ^ 64"
  shows "sys_inv s'"
  using assms
proof (induction rule: sys_step.induct)
  case (flight_moves n s inp f g)
  then show ?case using flight_moves_inv [of s n inp f g] by (simp add: moved_def)
next
  case (invalidated version s key t1 t2 err g)
  then show ?case using invalidated_inv [of s version key t1 t2 err g] by simp
qed (simp_all add: source_commit_inv get_called_inv get_returned_inv get_admitted_inv get_fenced_inv
      get_joins_inv get_starts_inv get_delivered_inv cleaned_inv)

lemma sys_reachable_inv:
  assumes "(sys_step joins)\<^sup>*\<^sup>* s s'" "shares_by_key joins" "sys_inv s" "2 * s_invalidations s' < 2 ^ 64"
  shows "sys_inv s'"
  using assms
proof (induction rule: rtranclp_induct)
  case (step s1 s2)
  then show ?case
    using sys_step_inv [OF step.hyps(2)] sys_step_invalidations [OF step.hyps(2)] by simp
qed simp

lemma sys_init_inv:
  assumes "NewGroup ceilBits roundHashes name capacity hasGetter options = Inr g" "\<forall>key. 0 \<le> committed key"
  shows "sys_inv (sys_init g committed)"
  using assms NewGroup_inv [OF assms(1)] by (simp add: sys_inv_def sys_init_def resident_ok_def)

section \<open>A load on its own\<close>

fun run_flight :: "step_input list \<Rightarrow> flight \<times> Group \<Rightarrow> (flight \<times> Group) option" where
  "run_flight [] fg = Some fg"
| "run_flight (inp # inps) (f, g) =
     (case flight_step inp f g of None \<Rightarrow> None | Some fg \<Rightarrow> run_flight inps fg)"

text \<open>The inputs of an undisturbed load at one instant, with the source's answer.\<close>

definition calm :: "gotime \<Rightarrow> bytes \<Rightarrow> int \<Rightarrow> step_input" where
  "calm now val version = \<lparr>in_clk = (\<lambda>_. now), in_slotFirst = True, in_answer = AnsVersioned val version None\<rparr>"

lemma calm_fields [simp]:
  "in_clk (calm now val version) = (\<lambda>_. now)" "in_answer (calm now val version) = AnsVersioned val version None"
  by (simp_all add: calm_def)

lemma calm_start:
  assumes "group_inv g" "group_bloom g = None" "ValidateKey key = None"
    and "ctx_Err (group_lifecycle g) now = None" "0 < opt_SourceTimeout (group_opts g)"
    and "live_view now key (mainCache g) = None"
  shows "\<exists>w c. flight_step (calm now val version) (newFlight key fence) g =
           Some ((newFlight key fence)\<lparr>f_work := w, f_phase := FLoad\<rparr>, g\<lparr>mainCache := c\<rparr>) \<and>
           ctx_Err w now = None \<and> keeps (mainCache g) c \<and> live_view now key c = None"
proof -
  let ?w = "WithTimeout (group_lifecycle g) now (opt_SourceTimeout (group_opts g))"
  have ci: "cache_inv (mainCache g)" using assms(1) by (simp add: group_inv_def)
  have w: "ctx_Err ?w now = None" by (rule WithTimeout_alive [OF assms(4,5)])
  obtain c where c: "cache_get now key (mainCache g) = (None, c)"
    using cache_get_view [OF ci, of now key] assms(6) by (cases "cache_get now key (mainCache g)") auto
  have "keeps (mainCache g) c" "live_view now key c = None"
    using cache_get_keeps [OF ci, of now key] cache_get_cached [OF ci, of now key] c assms(6)
    by (simp_all add: live_view_def)
  with w c assms(2,3) show ?thesis
    by (intro exI [of _ ?w] exI [of _ c])
      (simp add: flight_step_def newFlight_def flight_lookup_def lookupAtLeast_def lookup_def)
qed

lemma calm_acquire:
  assumes "f_phase f = FLoad" "ctx_Err (f_work f) now = None"
    and "slots (group_limiter g) < slots_cap (group_limiter g)"
  shows "\<exists>evs. flight_step (calm now val version) f g =
           Some (f\<lparr>f_phase := FReady\<rparr>,
                 g\<lparr>group_limiter := (group_limiter g)\<lparr>slots := slots (group_limiter g) + 1\<rparr>, events := evs\<rparr>)"
  using assms observe_events [of "''slot''" "''acquired''" 0
      "g\<lparr>group_limiter := (group_limiter g)\<lparr>slots := slots (group_limiter g) + 1\<rparr>\<rparr>"]
  by (simp add: flight_step_def acquire_start_def acquired_step_def slotResult_def Let_def)

lemma calm_call:
  assumes "f_phase f = FReady" "ctx_Err (f_work f) now = None"
  shows "\<exists>evs. run_flight [calm now val version, calm now val version] (f, g) =
           Some (f\<lparr>f_phase := FAnswered now (AnsVersioned val version None)\<rparr>, g\<lparr>events := evs\<rparr>)"
proof -
  have "\<exists>evs. observeInflight 1 g = g\<lparr>events := evs\<rparr>"
    by (auto simp: observeInflight_def intro: exI [of _ "events g"])
  with assms show ?thesis by (simp add: flight_step_def)
qed

lemma calm_commit:
  assumes "f_phase f = FAnswered now (AnsVersioned val version None)" "ctx_Err (f_work f) now = None"
    and "group_inv g" "0 < version" "length val \<le> MaxValueBytes"
    and "max (fence_minimum (f_retry f)) (known_at now (f_key f) g) \<le> version"
    and "0 < slots (group_limiter g)"
  shows "\<exists>f' v g'. flight_step (calm now val version) f g = Some (f', g') \<and> f_phase f' = FReturn v None \<and>
           Version v = version \<and> view_b v = val \<and>
           group_limiter g' = (group_limiter g)\<lparr>slots := slots (group_limiter g) - 1\<rparr> \<and>
           apiWaiters g' = apiWaiters g \<and>
           (fence_epoch (f_retry f) = currentEpoch (f_key f) g \<and> fits (f_key f) val g \<and> 0 \<le> now \<longrightarrow>
              fst (cache_get now (f_key f) (mainCache g')) = Some v)"
proof -
  define g1 where "g1 = observe ''source'' (Result None) 0 g"
  obtain c where c: "knownVersionLocked now (f_key f) g1 = (known_at now (f_key f) g1, g1\<lparr>mainCache := c\<rparr>)"
      "keeps (mainCache g1) c"
    using knownVersionLocked_spec [of g1 now "f_key f"] assms(3) by (auto simp: g1_def)
  have k: "known_at now (f_key f) g1 = known_at now (f_key f) g" by (simp add: g1_def known_at_def)
  obtain v c' evs where lc: "load_commit (\<lambda>_. now) (f_key f) (f_retry f) val version g1 =
      Some (\<lparr>res_value = v, res_minimum = max (fence_minimum (f_retry f)) (known_at now (f_key f) g)\<rparr>, None,
            g1\<lparr>mainCache := c', events := evs\<rparr>)" "Version v = version" "view_b v = val"
    using load_commit_fresh [of "\<lambda>_. now" "f_key f" g1, OF c(1)] c(2) assms(6) k by (fastforce simp: keeps_def)
  have stored: "fst (cache_get now (f_key f) c') = Some v"
    if "fence_epoch (f_retry f) = currentEpoch (f_key f) g" "fits (f_key f) val g" "0 \<le> now"
    using load_commit_stores [OF c(1) _ _ _ _ that(3) lc(1)] that(1,2) c(2) assms(6) k
      epochBucket_opts [of "g1\<lparr>mainCache := c\<rparr>" g]
    by (simp add: keeps_def currentEpoch_def fits_def g1_def)
  have la: "load_answered (\<lambda>_. now) now (AnsVersioned val version None) f g =
      Some (\<lparr>res_value = v, res_minimum = max (fence_minimum (f_retry f)) (known_at now (f_key f) g)\<rparr>, None,
            g1\<lparr>mainCache := c', events := evs\<rparr>)"
    using assms(2,4,5) lc(1) by (simp add: load_answered_def g1_def Let_def)
  have "group_limiter g1 = group_limiter g" "apiWaiters g1 = apiWaiters g" by (simp_all add: g1_def)
  then have "releaseSlot (observeInflight (-1) (g1\<lparr>mainCache := c', events := evs\<rparr>)) =
      Some ((observeInflight (-1) (g1\<lparr>mainCache := c', events := evs\<rparr>))
              \<lparr>group_limiter := (group_limiter g)\<lparr>slots := slots (group_limiter g) - 1\<rparr>\<rparr>)"
    using assms(7) by (simp add: releaseSlot_def limiter_release_def)
  with assms(1) la lc(2,3) stored \<open>apiWaiters g1 = apiWaiters g\<close> show ?thesis
    by (simp add: flight_step_def loaded_step_def Let_def)
qed

lemma run_flight_append:
  "run_flight (xs @ ys) fg = (case run_flight xs fg of None \<Rightarrow> None | Some fg' \<Rightarrow> run_flight ys fg')"
  by (induction xs fg rule: run_flight.induct) (auto split: option.split)

text \<open>A group on which an undisturbed miss of \<open>key\<close> at \<open>now\<close> can be loaded.\<close>

definition ready :: "gotime \<Rightarrow> string \<Rightarrow> Group \<Rightarrow> bool" where
  "ready now key g \<longleftrightarrow>
     group_bloom g = None \<and> ValidateKey key = None \<and> ctx_Err (group_lifecycle g) now = None \<and>
     0 < opt_SourceTimeout (group_opts g) \<and> live_view now key (mainCache g) = None \<and>
     slots (group_limiter g) < slots_cap (group_limiter g)"

lemma flight_alone:
  assumes "group_inv g" "ready now key g" "0 < version" "length val \<le> MaxValueBytes"
    and "fence_minimum fence \<le> version" "floor_at (floors g) key \<le> version"
  shows "\<exists>f' v g'. run_flight (replicate 5 (calm now val version)) (newFlight key fence, g) = Some (f', g') \<and>
           f_phase f' = FReturn v None \<and> Version v = version \<and> view_b v = val \<and>
           group_limiter g' = group_limiter g \<and> apiWaiters g' = apiWaiters g \<and>
           (fence_epoch fence = currentEpoch key g \<and> fits key val g \<and> 0 \<le> now \<longrightarrow>
              fst (cache_get now key (mainCache g')) = Some v)"
proof -
  let ?inp = "calm now val version" and ?l = "group_limiter g" and ?f = "newFlight key fence"
  obtain w c where s1: "flight_step ?inp ?f g = Some (?f\<lparr>f_work := w, f_phase := FLoad\<rparr>, g\<lparr>mainCache := c\<rparr>)"
    and w: "ctx_Err w now = None" "keeps (mainCache g) c" "live_view now key c = None"
    using calm_start [OF assms(1), of key now val version fence] assms(2) by (auto simp: ready_def)
  obtain e2 where s2: "flight_step ?inp (?f\<lparr>f_work := w, f_phase := FLoad\<rparr>) (g\<lparr>mainCache := c\<rparr>) =
      Some (?f\<lparr>f_work := w, f_phase := FReady\<rparr>, g\<lparr>mainCache := c, group_limiter := ?l\<lparr>slots := slots ?l + 1\<rparr>, events := e2\<rparr>)"
    using calm_acquire [of "?f\<lparr>f_work := w, f_phase := FLoad\<rparr>" now "g\<lparr>mainCache := c\<rparr>" val version] w assms(2)
    by (auto simp: ready_def)
  let ?g2 = "g\<lparr>mainCache := c, group_limiter := ?l\<lparr>slots := slots ?l + 1\<rparr>, events := e2\<rparr>"
  let ?f2 = "?f\<lparr>f_work := w, f_phase := FReady\<rparr>"
  let ?f3 = "?f\<lparr>f_work := w, f_phase := FAnswered now (AnsVersioned val version None)\<rparr>"
  obtain e3 where s3: "run_flight [?inp, ?inp] (?f2, ?g2) = Some (?f3, ?g2\<lparr>events := e3\<rparr>)"
    using calm_call [of ?f2 now val version ?g2] w by auto
  let ?g3 = "?g2\<lparr>events := e3\<rparr>"
  have "known_at now key ?g3 = max (floor_at (floors g) key) 0"
    using w(3) by (simp add: known_at_def live_version_def)
  then have k: "max (fence_minimum (f_retry ?f3)) (known_at now (f_key ?f3) ?g3) \<le> version"
    using assms(3,5,6) by (simp add: newFlight_def)
  have inv3: "group_inv ?g3" using assms(1) w(2) by (simp add: group_inv_def keeps_def)
  obtain f' v g' where s4: "flight_step ?inp ?f3 ?g3 = Some (f', g')" "f_phase f' = FReturn v None"
    "Version v = version" "view_b v = val" "group_limiter g' = ?l" "apiWaiters g' = apiWaiters g"
    and stored: "fence_epoch fence = currentEpoch key ?g3 \<and> fits key val ?g3 \<and> 0 \<le> now \<longrightarrow>
      fst (cache_get now key (mainCache g')) = Some v"
    using calm_commit [OF _ _ inv3 assms(3,4) k] w by (auto simp: newFlight_def)
  have "currentEpoch key ?g3 = currentEpoch key g" "fits key val ?g3 = fits key val g"
    using epochBucket_opts [of ?g3 g] w(2) by (simp_all add: currentEpoch_def fits_def keeps_def)
  note stored = stored [unfolded this]
  have "replicate 5 ?inp = [?inp, ?inp] @ [?inp, ?inp] @ [?inp]" by (simp add: eval_nat_numeral)
  with s1 s2 s3 s4 show ?thesis
    by (simp only: run_flight_append) (simp add: s1 s2 s4 stored)
qed

lemma run_flight_sys:
  assumes "n < length (s_flights s)" "\<forall>inp \<in> set inps. honest (s_committed s (f_key (s_flights s ! n))) (in_answer inp)"
    and "group_inv (s_group s)" "run_flight inps (s_flights s ! n, s_group s) = Some (f', g')"
  shows "(sys_step joins)\<^sup>*\<^sup>* s (moved s n f' g')"
  using assms
proof (induction inps arbitrary: s)
  case Nil
  then have "moved s n f' g' = s" by (auto simp: moved_def)
  then show ?case by simp
next
  case (Cons inp inps)
  let ?f = "s_flights s ! n"
  obtain f1 g1 where step: "flight_step inp ?f (s_group s) = Some (f1, g1)"
      "run_flight inps (f1, g1) = Some (f', g')"
    using Cons.prems(4) by (auto split: option.splits)
  have kind: "f_key f1 = f_key ?f" "group_inv g1"
    using flight_step_kind [OF Cons.prems(3) step(1)] Cons.prems(3)
    by (auto simp: flight_step_kinds flight_kept_def settled_def commit_adds_def)
  let ?s1 = "moved s n f1 g1"
  have "sys_step joins s ?s1"
    unfolding moved_def by (rule flight_moves) (use Cons.prems step in auto)
  moreover have "(sys_step joins)\<^sup>*\<^sup>* ?s1 (moved ?s1 n f' g')"
    using Cons.prems kind step(2) by (intro Cons.IH) auto
  moreover have "moved ?s1 n f' g' = moved s n f' g'" by (simp add: moved_def)
  ultimately show ?case by (simp add: converse_rtranclp_into_rtranclp)
qed

lemma shares_by_key_Nil: "shares_by_key joins \<Longrightarrow> joins [] key = None"
  by (cases "joins [] key") (fastforce simp: shares_by_key_def)+

text \<open>From the call of \<open>Get\<close> for a missing key to the start of its flight.\<close>

definition waiting_sys :: "sys \<Rightarrow> Group \<Rightarrow> nat \<Rightarrow> string \<Rightarrow> int \<Rightarrow> readFence \<Rightarrow> sys" where
  "waiting_sys s g i key need fence =
     s\<lparr>s_group := g, s_flights := [newFlight key fence],
       s_callers := (s_callers s)[i := GWaiting Background key need 0]\<rparr>"

lemma Get_lookup_misses:
  assumes "group_inv g" "ready now key g" "apiWaiters g < nat (opt_MaxMissWaiters (group_opts g))"
  shows "\<exists>c evs. Get_lookup Background (\<lambda>_. now) key g =
           (GetAdmitted, g\<lparr>mainCache := c, events := evs, apiWaiters := apiWaiters g + 1\<rparr>) \<and>
           keeps (mainCache g) c \<and> live_view now key c = None"
proof -
  have ci: "cache_inv (mainCache g)" using assms(1) by (simp add: group_inv_def)
  obtain c where c: "cache_get now key (mainCache g) = (None, c)"
    using cache_get_view [OF ci, of now key] assms(2) by (cases "cache_get now key (mainCache g)") (auto simp: ready_def)
  have kc: "keeps (mainCache g) c" "live_view now key c = None"
    using cache_get_keeps [OF ci, of now key] cache_get_cached [OF ci, of now key] c assms(2)
    by (simp_all add: live_view_def ready_def)
  obtain evs where "observe ''lookup_api'' ''miss'' 0 (g\<lparr>mainCache := c\<rparr>) = g\<lparr>mainCache := c, events := evs\<rparr>"
    using observe_events [of "''lookup_api''" "''miss''" 0 "g\<lparr>mainCache := c\<rparr>"] by auto
  with assms(2,3) c kc show ?thesis
    by (intro exI [of _ c] exI [of _ evs]) (simp add: Get_lookup_def lookup_def ready_def admit_def)
qed

lemma get_miss_starts:
  assumes "group_inv (s_group s)" "ready now key (s_group s)"
    and "apiWaiters (s_group s) < nat (opt_MaxMissWaiters (group_opts (s_group s)))"
    and "s_flights s = []" "shares_by_key joins"
    and "i < length (s_callers s)" "s_callers s ! i = GCalled Background key need"
  shows "\<exists>g fence. (sys_step joins)\<^sup>*\<^sup>* s (waiting_sys s g i key need fence) \<and>
           group_inv g \<and> ready now key g \<and> floors g = floors (s_group s) \<and> 0 < apiWaiters g \<and>
           fence_minimum fence = max (floor_at (floors g) key) 0 \<and> fence_epoch fence = currentEpoch key g \<and>
           (fits key val (s_group s) \<longrightarrow> fits key val g)"
proof -
  let ?g = "s_group s"
  obtain c evs where c: "Get_lookup Background (\<lambda>_. now) key ?g =
        (GetAdmitted, ?g\<lparr>mainCache := c, events := evs, apiWaiters := apiWaiters ?g + 1\<rparr>)"
      "keeps (mainCache ?g) c" "live_view now key c = None"
    using Get_lookup_misses [OF assms(1-3)] by blast
  define g1 where "g1 = ?g\<lparr>mainCache := c, events := evs, apiWaiters := apiWaiters ?g + 1\<rparr>"
  let ?s1 = "s\<lparr>s_group := g1, s_callers := (s_callers s)[i := GAdmitted Background key need]\<rparr>"
  have st1: "sys_step joins s ?s1"
    by (rule get_admitted [OF assms(6,7) c(1) [folded g1_def]])
  have inv1: "group_inv g1" using assms(1) c(2) by (simp add: g1_def group_inv_def keeps_def)
  obtain fence c2 where rb: "readBarrier now key g1 = (fence, g1\<lparr>mainCache := c2\<rparr>)"
      "fence_minimum fence = known_at now key g1" "keeps (mainCache g1) c2" "group_inv (g1\<lparr>mainCache := c2\<rparr>)"
      "fence_epoch fence = currentEpoch key (g1\<lparr>mainCache := c2\<rparr>)"
  proof -
    obtain c2 where "readBarrier now key g1 =
          (\<lparr>fence_epoch = epochs g1 ! epochBucket g1 key, fence_minimum = known_at now key g1\<rparr>, g1\<lparr>mainCache := c2\<rparr>)"
        "keeps (mainCache g1) c2" "group_inv (g1\<lparr>mainCache := c2\<rparr>)"
      using readBarrier_spec [OF inv1, of now key] by blast
    then show thesis
      by (intro that [of "\<lparr>fence_epoch = epochs g1 ! epochBucket g1 key, fence_minimum = known_at now key g1\<rparr>" c2])
        (simp_all add: currentEpoch_def epochBucket_opts [of "g1\<lparr>mainCache := c2\<rparr>" g1])
  qed
  let ?g2 = "g1\<lparr>mainCache := c2\<rparr>"
  let ?s2 = "s\<lparr>s_group := ?g2, s_callers := (s_callers s)[i := GFenced Background key need fence]\<rparr>"
  have st2: "sys_step joins ?s1 ?s2"
    using get_fenced [of i ?s1 Background key need now fence ?g2 joins] rb assms(6) by simp
  have st3: "sys_step joins ?s2 (waiting_sys s ?g2 i key need fence)"
    using get_starts [of i ?s2 Background key need fence joins] assms(4,6) shares_by_key_Nil [OF assms(5)]
    by (simp add: flight_keys_def waiting_sys_def)
  have "known_at now key g1 = max (floor_at (floors ?g2) key) 0"
    using c(3) by (simp add: known_at_def live_version_def g1_def)
  moreover have "ready now key ?g2"
    using assms(2) c(3) keeps_live [OF rb(3)] by (auto simp: ready_def g1_def)
  moreover have "(sys_step joins)\<^sup>*\<^sup>* s (waiting_sys s ?g2 i key need fence)"
    using st1 st2 st3 by (meson converse_rtranclp_into_rtranclp rtranclp.rtrancl_refl)
  moreover have "floors ?g2 = floors ?g" "0 < apiWaiters ?g2" by (simp_all add: g1_def)
  moreover have "fits key val ?g \<longrightarrow> fits key val ?g2"
    using c(2) rb(3) by (simp add: fits_def keeps_def g1_def)
  ultimately show ?thesis
    using rb(2,4,5) by (intro exI [of _ ?g2] exI [of _ fence]) simp
qed

lemma get_miss_run:
  assumes "group_inv (s_group s)" "ready now key (s_group s)"
    and "apiWaiters (s_group s) < nat (opt_MaxMissWaiters (group_opts (s_group s)))"
    and "s_flights s = []" "shares_by_key joins"
    and "i < length (s_callers s)" "s_callers s ! i = GCalled Background key need"
    and "0 < s_committed s key" "floor_at (floors (s_group s)) key \<le> s_committed s key"
    and "length val \<le> MaxValueBytes"
  shows "\<exists>s' v. (sys_step joins)\<^sup>*\<^sup>* s s' \<and> s_callers s' = (s_callers s)[i := GDone key need v None] \<and>
           view_b v = val \<and> Version v = s_committed s key \<and> s_invalidations s' = s_invalidations s \<and>
           (fits key val (s_group s) \<and> 0 \<le> now \<longrightarrow> fst (cache_get now key (mainCache (s_group s'))) = Some v)"
proof -
  obtain g fence where st: "(sys_step joins)\<^sup>*\<^sup>* s (waiting_sys s g i key need fence)"
    and g: "group_inv g" "ready now key g" "floors g = floors (s_group s)" "0 < apiWaiters g"
      "fence_minimum fence = max (floor_at (floors g) key) 0" "fence_epoch fence = currentEpoch key g"
      "fits key val (s_group s) \<longrightarrow> fits key val g"
    using get_miss_starts [OF assms(1-7), of val] by blast
  let ?s = "waiting_sys s g i key need fence" and ?inp = "calm now val (s_committed s key)"
  have "fence_minimum fence \<le> s_committed s key" "floor_at (floors g) key \<le> s_committed s key"
    using g assms(8,9) by simp_all
  from flight_alone [OF g(1,2) assms(8,10) this] obtain f' v g' where
    fl: "run_flight (replicate 5 ?inp) (newFlight key fence, g) = Some (f', g')"
      "f_phase f' = FReturn v None" "Version v = s_committed s key" "view_b v = val" "apiWaiters g' = apiWaiters g"
      "fits key val (s_group s) \<and> 0 \<le> now \<longrightarrow> fst (cache_get now key (mainCache g')) = Some v"
    using g(6,7) by blast
  let ?m = "moved ?s 0 f' g'" and ?g' = "g'\<lparr>apiWaiters := apiWaiters g' - 1\<rparr>"
  have "(sys_step joins)\<^sup>*\<^sup>* ?s ?m"
    using g(1) fl(1) by (intro run_flight_sys) (auto simp: newFlight_def waiting_sys_def)
  moreover have "leaveWaiters g' = Some ?g'" using g(4) fl(5) by (simp add: leaveWaiters_def)
  then have "sys_step joins ?m (?m\<lparr>s_group := ?g', s_callers := (s_callers s)[i := GDone key need v None]\<rparr>)"
    using get_delivered [of i ?m Background key need 0 "\<lambda>_. now" True v None ?g' joins] assms(6) fl(2)
    by (simp add: await_def flight_result_def waiting_sys_def)
  ultimately have "(sys_step joins)\<^sup>*\<^sup>* s (?m\<lparr>s_group := ?g', s_callers := (s_callers s)[i := GDone key need v None]\<rparr>)"
    using st by (meson rtranclp.rtrancl_into_rtrancl rtranclp_trans)
  then show ?thesis
    using fl(3,4,6)
    by (intro exI [of _ "?m\<lparr>s_group := ?g', s_callers := (s_callers s)[i := GDone key need v None]\<rparr>"] exI [of _ v])
      (simp add: waiting_sys_def)
qed

section \<open>Properties\<close>

text \<open>
  C1: no stale read. In every reachable state of a node (any interleaving of calls, loads,
  notifications, evictions, expiry, retired floors and shared flights, with fewer than \<open>2^63\<close>
  invalidation calls), a \<open>Get\<close> that returned a value returned a version at least as new as every
  notification the node had applied for the key when the call began, even if it joined a load that
  another caller had started.
\<close>

theorem get_not_stale:
  assumes "NewGroup ceilBits roundHashes name capacity hasGetter options = Inr g" "\<forall>key. 0 \<le> committed key"
    and "shares_by_key joins" "(sys_step joins)\<^sup>*\<^sup>* (sys_init g committed) s" "s_invalidations s < 2 ^ 63"
    and "GDone key need v None \<in> set (s_callers s)"
  shows "need \<le> Version v"
proof -
  have "sys_inv s"
    using sys_reachable_inv [OF assms(4,3) sys_init_inv [OF assms(1,2)]] assms(5) by simp
  with assms(6) show ?thesis by (fastforce simp: sys_inv_def list_all_iff)
qed

text \<open>
  C2: no stale resurrection. In every reachable state of a node, whatever a lookup can find for a
  key is at least as new as every notification applied for it so far, and is a version the source
  has committed: a load that read the source before a notification never puts its value back, even
  after the floor that the notification left has been retired.
\<close>

theorem no_stale_resurrection:
  assumes "NewGroup ceilBits roundHashes name capacity hasGetter options = Inr g" "\<forall>key. 0 \<le> committed key"
    and "shares_by_key joins" "(sys_step joins)\<^sup>*\<^sup>* (sys_init g committed) s" "s_invalidations s < 2 ^ 63"
    and "fst (cache_get now key (mainCache (s_group s))) = Some v"
  shows "s_notified s key \<le> Version v \<and> Version v \<le> s_committed s key"
proof -
  have inv: "sys_inv s"
    using sys_reachable_inv [OF assms(4,3) sys_init_inv [OF assms(1,2)]] assms(5) by simp
  then have "cache_inv (mainCache (s_group s))" by (simp add: sys_inv_def group_inv_def)
  with assms(6) have "live_view now key (mainCache (s_group s)) = Some v" by (simp add: cache_get_view)
  from live_view_cached [OF this] inv show ?thesis by (auto simp: sys_inv_def resident_ok_def)
qed

text \<open>
  C7: a miss is served. When the source answers, a slot is free and nobody interferes, a caller
  whose key is not cached gets the bytes and the version the source has committed, and if the value
  fits the capacity the next lookup finds it.
\<close>

theorem get_miss_served:
  assumes "group_inv (s_group s)" "ready now key (s_group s)"
    and "apiWaiters (s_group s) < nat (opt_MaxMissWaiters (group_opts (s_group s)))"
    and "s_flights s = []" "shares_by_key joins"
    and "i < length (s_callers s)" "s_callers s ! i = GCalled Background key need"
    and "0 < s_committed s key" "floor_at (floors (s_group s)) key \<le> s_committed s key"
    and "length val \<le> MaxValueBytes"
  shows "\<exists>s' v. (sys_step joins)\<^sup>*\<^sup>* s s' \<and> s_callers s' ! i = GDone key need v None \<and>
           view_b v = val \<and> Version v = s_committed s key \<and>
           (fits key val (s_group s) \<and> 0 \<le> now \<longrightarrow> fst (cache_get now key (mainCache (s_group s'))) = Some v)"
  using get_miss_run [OF assms] assms(6) by fastforce

text \<open>A concrete node: defaults, one key committed at version 3 and notified of it, one caller.\<close>

definition demoOptions :: Options where
  "demoOptions = \<lparr>opt_TTL = 0, opt_KnownKeys = None, opt_SourceTimeout = 0, opt_Limiter = None,
     opt_Lifecycle = None, opt_Observer = NoObserver, opt_EpochBuckets = 0, opt_MaxMissWaiters = 0,
     opt_CleanupInterval = 0, opt_CleanupBatch = 0\<rparr>"

lemma demoGroup:
  "\<exists>g. NewGroup (\<lambda>_. 64) (\<lambda>_ _. 1) ''products'' 1024 True demoOptions = Inr g \<and>
     group_bloom g = None \<and> group_lifecycle g = Background \<and> 0 < opt_SourceTimeout (group_opts g) \<and>
     slots (group_limiter g) < slots_cap (group_limiter g) \<and>
     apiWaiters g < nat (opt_MaxMissWaiters (group_opts g)) \<and>
     0 < opt_TTL (group_opts g) \<and> cacheBytes (mainCache g) = 1024"
  by (simp add: newCache_def NewGroup_def normalizeOptions_def demoOptions_def Let_def NewSourceLimiter_def
      NewSourceLimiterWithQueue_def DefaultSourcePending_def duration_defs defaultSourceTimeout_def
      DefaultMissWaiters_def powerOfTwo_def)

lemma demo_key: "ValidateKey ''k'' = None"
  by code_simp

definition demo_start :: "Group \<Rightarrow> sys" where
  "demo_start g =
     \<lparr>s_group = snd (InvalidateVersion 0 0 ''k'' 3 g), s_flights = [], s_callers = [GCalled Background ''k'' 3],
      s_committed = (\<lambda>_. 3), s_notified = (\<lambda>_. 0)(''k'' := 3), s_invalidations = 1\<rparr>"

lemma demo_start_reachable: "(sys_step joins)\<^sup>*\<^sup>* (sys_init g (\<lambda>_. 3)) (demo_start g)"
proof -
  let ?g = "snd (InvalidateVersion 0 0 ''k'' 3 g)"
  let ?s = "(sys_init g (\<lambda>_. 3))\<lparr>s_group := ?g, s_notified := (\<lambda>_. 0)(''k'' := 3), s_invalidations := 1\<rparr>"
  have err: "InvalidateVersion 0 0 ''k'' 3 g = (None, ?g)"
    using InvalidateVersion_ok [of 0 0 "''k''" 3 g] demo_key by (cases "InvalidateVersion 0 0 ''k'' 3 g") simp
  have "sys_step joins (sys_init g (\<lambda>_. 3)) ?s"
    using invalidated [of 3 "sys_init g (\<lambda>_. 3)" "''k''" 0 0 None ?g joins] err by (simp add: sys_init_def)
  moreover have "sys_step joins ?s (demo_start g)"
    using get_called [of joins ?s Background "''k''"] by (simp add: sys_init_def demo_start_def)
  ultimately show ?thesis by (meson converse_rtranclp_into_rtranclp rtranclp.rtrancl_refl)
qed

lemma demo_ready:
  assumes "NewGroup (\<lambda>_. 64) (\<lambda>_ _. 1) ''products'' 1024 True demoOptions = Inr g"
  shows "group_inv (s_group (demo_start g))" "ready 0 ''k'' (s_group (demo_start g))"
    "apiWaiters (s_group (demo_start g)) < nat (opt_MaxMissWaiters (group_opts (s_group (demo_start g))))"
    "floor_at (floors (s_group (demo_start g))) ''k'' = 3" "fits ''k'' ''v3'' (s_group (demo_start g))"
proof -
  let ?g = "s_group (demo_start g)"
  note new = NewGroup_inv [OF assms]
  have spec: "group_inv ?g" "keeps (mainCache g) (mainCache ?g)" "floor_at (floors ?g) ''k'' = max (known_at 0 ''k'' g) 3"
    using InvalidateVersion_spec [OF new(1) demo_key, of 3 0 0] by (simp_all add: demo_start_def)
  have "known_at 0 ''k'' g = 0"
    using new(2,3) by (simp add: known_at_def live_version_def live_view_def live_value_def)
  with spec show "group_inv ?g" "floor_at (floors ?g) ''k'' = 3" by simp_all
  have fr: "group_opts ?g = group_opts g" "group_bloom ?g = group_bloom g" "group_limiter ?g = group_limiter g"
    "apiWaiters ?g = apiWaiters g" "group_lifecycle ?g = group_lifecycle g"
    using InvalidateVersion_frame [of 0 0 "''k''" 3 g] by (simp_all add: demo_start_def)
  have demo: "group_bloom g = None" "group_lifecycle g = Background" "0 < opt_SourceTimeout (group_opts g)"
    "slots (group_limiter g) < slots_cap (group_limiter g)" "apiWaiters g < nat (opt_MaxMissWaiters (group_opts g))"
    "0 < opt_TTL (group_opts g)" "cacheBytes (mainCache g) = 1024"
    using demoGroup assms by auto
  have "live_view 0 ''k'' (mainCache ?g) = None"
    using keeps_live [OF spec(2)] new(2) by (simp add: live_view_def live_value_def)
  then show "ready 0 ''k'' ?g" using demo demo_key by (simp add: ready_def fr)
  show "apiWaiters ?g < nat (opt_MaxMissWaiters (group_opts ?g))" using demo by (simp add: fr)
  show "fits ''k'' ''v3'' ?g" using demo spec(2) by (simp add: fits_def fr keeps_def)
qed

text \<open>The whole run: notified of version 3, called, missed, loaded, delivered.\<close>

lemma demo_run:
  "\<exists>g s v. NewGroup (\<lambda>_. 64) (\<lambda>_ _. 1) ''products'' 1024 True demoOptions = Inr g \<and>
     (sys_step (\<lambda>_ _. None))\<^sup>*\<^sup>* (sys_init g (\<lambda>_. 3)) s \<and> s_invalidations s = 1 \<and>
     GDone ''k'' 3 v None \<in> set (s_callers s) \<and> view_b v = ''v3'' \<and>
     fst (cache_get 0 ''k'' (mainCache (s_group s))) = Some v"
proof -
  obtain g where g: "NewGroup (\<lambda>_. 64) (\<lambda>_ _. 1) ''products'' 1024 True demoOptions = Inr g"
    using demoGroup by blast
  note ready = demo_ready [OF g]
  have "shares_by_key (\<lambda>_ _. None)" by (simp add: shares_by_key_def)
  from get_miss_run [OF ready(1-3) _ this, of 0 3 "''v3''"] ready(4,5)
  obtain s v where "(sys_step (\<lambda>_ _. None))\<^sup>*\<^sup>* (demo_start g) s" "s_callers s = [GDone ''k'' 3 v None]"
    "view_b v = ''v3''" "s_invalidations s = 1" "fst (cache_get 0 ''k'' (mainCache (s_group s))) = Some v"
    by (auto simp: demo_start_def MaxValueBytes_def)
  with g demo_start_reachable [of "\<lambda>_ _. None" g] show ?thesis
    by (auto intro!: exI [of _ g] exI [of _ s] exI [of _ v] intro: rtranclp_trans)
qed

theorem get_not_stale_witness:
  "\<exists>g s v. NewGroup (\<lambda>_. 64) (\<lambda>_ _. 1) ''products'' 1024 True demoOptions = Inr g \<and>
     (sys_step (\<lambda>_ _. None))\<^sup>*\<^sup>* (sys_init g (\<lambda>_. 3)) s \<and> GDone ''k'' 3 v None \<in> set (s_callers s) \<and> 3 \<le> Version v"
proof -
  obtain g s v where run: "NewGroup (\<lambda>_. 64) (\<lambda>_ _. 1) ''products'' 1024 True demoOptions = Inr g"
    "(sys_step (\<lambda>_ _. None))\<^sup>*\<^sup>* (sys_init g (\<lambda>_. 3)) s" "s_invalidations s = 1"
    "GDone ''k'' 3 v None \<in> set (s_callers s)"
    using demo_run by blast
  have "3 \<le> Version v"
    by (rule get_not_stale [OF run(1) _ _ run(2) _ run(4)]) (simp_all add: shares_by_key_def run(3))
  with run show ?thesis by blast
qed

theorem no_stale_resurrection_witness:
  "\<exists>g s v. NewGroup (\<lambda>_. 64) (\<lambda>_ _. 1) ''products'' 1024 True demoOptions = Inr g \<and>
     (sys_step (\<lambda>_ _. None))\<^sup>*\<^sup>* (sys_init g (\<lambda>_. 3)) s \<and>
     fst (cache_get 0 ''k'' (mainCache (s_group s))) = Some v \<and> s_notified s ''k'' \<le> Version v"
proof -
  obtain g s v where run: "NewGroup (\<lambda>_. 64) (\<lambda>_ _. 1) ''products'' 1024 True demoOptions = Inr g"
    "(sys_step (\<lambda>_ _. None))\<^sup>*\<^sup>* (sys_init g (\<lambda>_. 3)) s" "s_invalidations s = 1"
    "fst (cache_get 0 ''k'' (mainCache (s_group s))) = Some v"
    using demo_run by blast
  have "s_notified s ''k'' \<le> Version v \<and> Version v \<le> s_committed s ''k''"
    by (rule no_stale_resurrection [OF run(1) _ _ run(2) _ run(4)]) (simp_all add: shares_by_key_def run(3))
  with run show ?thesis by blast
qed

theorem get_miss_served_witness:
  "\<exists>g s' v. NewGroup (\<lambda>_. 64) (\<lambda>_ _. 1) ''products'' 1024 True demoOptions = Inr g \<and>
     (sys_step (\<lambda>_ _. None))\<^sup>*\<^sup>* (demo_start g) s' \<and> s_callers s' ! 0 = GDone ''k'' 3 v None \<and>
     view_b v = ''v3'' \<and> Version v = 3 \<and> fst (cache_get 0 ''k'' (mainCache (s_group s'))) = Some v"
proof -
  obtain g where g: "NewGroup (\<lambda>_. 64) (\<lambda>_ _. 1) ''products'' 1024 True demoOptions = Inr g"
    using demoGroup by blast
  note ready = demo_ready [OF g]
  have "shares_by_key (\<lambda>_ _. None)" by (simp add: shares_by_key_def)
  from get_miss_served [OF ready(1-3) _ this, of 0 3 "''v3''"] ready(4,5) g show ?thesis
    by (auto simp: demo_start_def MaxValueBytes_def)
qed

end
