(* ===== verification/Go_Net.thy ===== *)
theory Go_Net
  imports Go_Text "HOL-Library.List_Lexorder" "HOL-Library.Char_ord"
begin

text \<open>
  The parts of \<open>net/url\<close>, \<open>net\<close> and \<open>net/http\<close> the program relies on: percent-encoding, query
  strings, URLs, host and port, headers, requests and responses. Only the body of a bracketed IPv6
  host (checked by \<open>net/netip\<close>) and the lower case of non-ASCII text are arguments.
\<close>

section \<open>Percent-encoding\<close>

datatype encoding =
    encodePath | encodePathSegment | encodeHost | encodeUserPassword | encodeQueryComponent | encodeFragment

definition code :: "char \<Rightarrow> nat" where
  "code c = of_char c"

definition isUpper :: "char \<Rightarrow> bool" where
  "isUpper c \<longleftrightarrow> 65 \<le> code c \<and> code c \<le> 90"

definition isLower :: "char \<Rightarrow> bool" where
  "isLower c \<longleftrightarrow> 97 \<le> code c \<and> code c \<le> 122"

definition isAlnum :: "char \<Rightarrow> bool" where
  "isAlnum c \<longleftrightarrow> isDigit c \<or> isUpper c \<or> isLower c"

definition shouldEscape :: "encoding \<Rightarrow> char \<Rightarrow> bool" where
  "shouldEscape mode c =
     (if isAlnum c then False
      else if mode = encodeHost \<and> c \<in> set ''!$&()*+,;=:[]<>'' \<union> {CHR 0x27, CHR 0x22} then False
      else if c \<in> set ''-_.~'' then False
      else if c \<in> set ''$&+,/:;=?@'' then
        (case mode of
           encodePath \<Rightarrow> c = CHR ''?''
         | encodePathSegment \<Rightarrow> c \<in> set ''/;,?''
         | encodeUserPassword \<Rightarrow> c \<in> set ''@/?:''
         | encodeQueryComponent \<Rightarrow> True
         | encodeFragment \<Rightarrow> False
         | encodeHost \<Rightarrow> True)
      else if mode = encodeFragment \<and> c \<in> set ''!()*'' then False
      else True)"

definition upperhex :: "nat \<Rightarrow> char" where
  "upperhex d = char_of (if d < 10 then 48 + d else 55 + d)"

definition unhex :: "char \<Rightarrow> nat option" where
  "unhex c =
     (if isDigit c then Some (code c - 48)
      else if 97 \<le> code c \<and> code c \<le> 102 then Some (code c - 87)
      else if 65 \<le> code c \<and> code c \<le> 70 then Some (code c - 55)
      else None)"

definition escape_char :: "encoding \<Rightarrow> char \<Rightarrow> string" where
  "escape_char mode c =
     (if shouldEscape mode c then
        if c = CHR '' '' \<and> mode = encodeQueryComponent then ''+''
        else [CHR ''%'', upperhex (code c div 16), upperhex (code c mod 16)]
      else [c])"

definition escape :: "encoding \<Rightarrow> string \<Rightarrow> string" where
  "escape mode s = concat (map (escape_char mode) s)"

text \<open>One \<open>%xx\<close>; a host allows only \<open>%25\<close> and the bytes of non-ASCII text.\<close>

definition hex_byte :: "encoding \<Rightarrow> char \<Rightarrow> char \<Rightarrow> char option" where
  "hex_byte mode a b =
     (case (unhex a, unhex b) of
        (Some x, Some y) \<Rightarrow> if mode = encodeHost \<and> x < 8 \<and> [a, b] \<noteq> ''25'' then None else Some (char_of (16 * x + y))
      | _ \<Rightarrow> None)"

definition plain_char :: "encoding \<Rightarrow> char \<Rightarrow> char option" where
  "plain_char mode c =
     (if c = CHR ''+'' \<and> mode = encodeQueryComponent then Some (CHR '' '')
      else if mode = encodeHost \<and> code c < 128 \<and> shouldEscape mode c then None
      else Some c)"

fun unescape :: "encoding \<Rightarrow> string \<Rightarrow> string option" where
  "unescape mode [] = Some []"
| "unescape mode (c # s) =
     (if c = CHR ''%'' then
        (case s of
           a # b # r \<Rightarrow>
             (case (hex_byte mode a b, unescape mode r) of (Some x, Some y) \<Rightarrow> Some (x # y) | _ \<Rightarrow> None)
         | _ \<Rightarrow> None)
      else
        (case (plain_char mode c, unescape mode s) of (Some x, Some y) \<Rightarrow> Some (x # y) | _ \<Rightarrow> None))"

definition PathEscape :: "string \<Rightarrow> string" where
  "PathEscape s = escape encodePathSegment s"

definition PathUnescape :: "string \<Rightarrow> string option" where
  "PathUnescape s = unescape encodePathSegment s"

definition QueryEscape :: "string \<Rightarrow> string" where
  "QueryEscape s = escape encodeQueryComponent s"

lemma code_less: "code c < 256"
  by (simp add: code_def)

lemma char_of_code [simp]: "char_of (code c) = c"
  by (simp add: code_def)

lemma upperhex_code: "d < 16 \<Longrightarrow> code (upperhex d) = (if d < 10 then 48 + d else 55 + d)"
  by (simp add: upperhex_def code_def of_char_of)

lemma unhex_upperhex: "d < 16 \<Longrightarrow> unhex (upperhex d) = Some d"
  using upperhex_code [of d] by (auto simp: unhex_def isDigit_def code_def)

lemma hex_byte_escape:
  assumes "mode \<noteq> encodeHost"
  shows "hex_byte mode (upperhex (code c div 16)) (upperhex (code c mod 16)) = Some c"
proof -
  have "code c div 16 < 16" using code_less [of c] by (simp add: less_mult_imp_div_less)
  then have "unhex (upperhex (code c div 16)) = Some (code c div 16)" "unhex (upperhex (code c mod 16)) = Some (code c mod 16)"
    by (simp_all add: unhex_upperhex)
  then show ?thesis using assms by (simp add: hex_byte_def)
qed

lemma shouldEscape_percent: "shouldEscape mode (CHR ''%'')"
  by (simp add: shouldEscape_def isAlnum_def isDigit_def isUpper_def isLower_def code_def)

lemma shouldEscape_plus: "shouldEscape encodeQueryComponent (CHR ''+'')"
  by (simp add: shouldEscape_def isAlnum_def isDigit_def isUpper_def isLower_def code_def)

lemma unescape_escape_char:
  assumes "mode \<noteq> encodeHost"
  shows "unescape mode (escape_char mode c @ s) = map_option ((#) c) (unescape mode s)"
proof (cases "shouldEscape mode c")
  case True
  then show ?thesis
    using assms hex_byte_escape [OF assms, of c]
    by (auto simp: escape_char_def plain_char_def split: option.split)
next
  case False
  then have "c \<noteq> CHR ''%''" "mode = encodeQueryComponent \<Longrightarrow> c \<noteq> CHR ''+''"
    using shouldEscape_percent [of mode] shouldEscape_plus by auto
  then show ?thesis
    using False assms by (auto simp: escape_char_def plain_char_def split: option.split)
qed

lemma unescape_escape: "mode \<noteq> encodeHost \<Longrightarrow> unescape mode (escape mode s) = Some s"
  by (induction s) (simp_all add: escape_def unescape_escape_char)

lemma PathUnescape_PathEscape: "PathUnescape (PathEscape s) = Some s"
  by (simp add: PathUnescape_def PathEscape_def unescape_escape)

definition segment_char :: "char \<Rightarrow> bool" where
  "segment_char c \<longleftrightarrow> isAlnum c \<or> c \<in> set ''-_.~$&+:=@%''"

lemma upperhex_alnum: "d < 16 \<Longrightarrow> isAlnum (upperhex d)"
  using upperhex_code [of d] by (auto simp: isAlnum_def isDigit_def isUpper_def code_def)

lemma escape_char_segment: "c \<in> set (escape_char encodePathSegment d) \<Longrightarrow> segment_char c"
proof -
  have "code d div 16 < 16" using code_less [of d] by (simp add: less_mult_imp_div_less)
  then have "isAlnum (upperhex (code d div 16))" "isAlnum (upperhex (code d mod 16))"
    by (simp_all add: upperhex_alnum)
  moreover have "\<not> shouldEscape encodePathSegment d \<Longrightarrow> segment_char d"
    by (auto simp: shouldEscape_def segment_char_def split: if_splits)
  ultimately show "c \<in> set (escape_char encodePathSegment d) \<Longrightarrow> segment_char c"
    by (auto simp: escape_char_def segment_char_def split: if_splits)
qed

lemma PathEscape_chars: "c \<in> set (PathEscape s) \<Longrightarrow> segment_char c"
  by (auto simp: PathEscape_def escape_def escape_char_segment)

lemma alnum_code: "isAlnum c \<Longrightarrow> 48 \<le> code c \<and> code c \<le> 122 \<and> code c \<noteq> 63 \<and> code c \<noteq> 58"
  by (auto simp: isAlnum_def isDigit_def isUpper_def isLower_def code_def)

lemma segment_char_props:
  assumes "segment_char c"
  shows "c \<noteq> CHR ''/''" "c \<noteq> CHR ''?''" "c \<noteq> CHR ''#''" "32 \<le> code c" "code c \<noteq> 127"
  using assms alnum_code [of c] by (auto simp: segment_char_def) (auto simp: code_def)

lemma unescape_mode: "unescape encodePath s = unescape encodePathSegment s"
  by (induction encodePath s rule: unescape.induct)
    (auto simp: hex_byte_def plain_char_def split: list.splits option.splits)

lemma unescape_plain:
  "mode \<noteq> encodeHost \<Longrightarrow> mode \<noteq> encodeQueryComponent \<Longrightarrow> CHR ''%'' \<notin> set a \<Longrightarrow>
   unescape mode (a @ b) = map_option ((@) a) (unescape mode b)"
  by (induction a) (auto simp: plain_char_def option.map_comp comp_def option.map_ident map_option_idI split: option.splits)

lemma unescape_PathEscape_append: "unescape encodePath (PathEscape a @ b) = map_option ((@) a) (unescape encodePath b)"
proof (induction a)
  case (Cons c a)
  then show ?case
    using unescape_escape_char [of encodePathSegment c] unescape_mode
    by (simp add: PathEscape_def escape_def option.map_comp comp_def)
qed (simp add: PathEscape_def escape_def option.map_ident map_option_idI)

section \<open>Query strings\<close>

text \<open>\<open>url.ParseQuery\<close>: the pairs in order, and whether some pair was malformed.\<close>

function ParseQuery :: "string \<Rightarrow> (string \<times> string) list \<times> bool" where
  "ParseQuery query =
     (if query = [] then ([], False)
      else case Cut (CHR ''&'') query of (pair, rest, _) \<Rightarrow>
        (case ParseQuery rest of (m, err) \<Rightarrow>
           if CHR '';'' \<in> set pair then (m, True)
           else if pair = [] then (m, err)
           else case Cut (CHR ''='') pair of (k, v, _) \<Rightarrow>
             (case (unescape encodeQueryComponent k, unescape encodeQueryComponent v) of
                (Some k', Some v') \<Rightarrow> ((k', v') # m, err)
              | _ \<Rightarrow> (m, True))))"
  by auto
termination
  by (relation "measure length") (auto dest!: sym [of "(_, _, _)"] Cut_length)

declare ParseQuery.simps [simp del]

section \<open>URLs\<close>

record url =
  url_Scheme :: string
  url_Opaque :: string
  url_User :: bool
  url_Host :: string
  url_Path :: string
  url_RawPath :: string
  url_RawQuery :: string
  url_Fragment :: string

definition noURL :: url where
  "noURL = \<lparr>url_Scheme = '''', url_Opaque = '''', url_User = False, url_Host = '''', url_Path = '''',
            url_RawPath = '''', url_RawQuery = '''', url_Fragment = ''''\<rparr>"

definition setPath :: "string \<Rightarrow> url \<Rightarrow> url option" where
  "setPath p u =
     (case unescape encodePath p of
        None \<Rightarrow> None
      | Some path \<Rightarrow> Some (u\<lparr>url_Path := path, url_RawPath := (if p = escape encodePath path then [] else p)\<rparr>))"

definition validEncoded :: "encoding \<Rightarrow> string \<Rightarrow> bool" where
  "validEncoded mode s =
     list_all (\<lambda>c. c \<in> set ''!$&()*+,;=:@[]%'' \<or> c = CHR 0x27 \<or> \<not> shouldEscape mode c) s"

definition EscapedPath :: "url \<Rightarrow> string" where
  "EscapedPath u =
     (if url_RawPath u \<noteq> [] \<and> validEncoded encodePath (url_RawPath u) \<and>
         unescape encodePath (url_RawPath u) = Some (url_Path u)
      then url_RawPath u
      else if url_Path u = ''*'' then ''*''
      else escape encodePath (url_Path u))"

lemma setPath_EscapedPath:
  assumes "setPath p u = Some u'" "validEncoded encodePath p" "p \<noteq> []" "url_Path u' \<noteq> ''*''"
  shows "EscapedPath u' = p"
  using assms by (auto simp: setPath_def EscapedPath_def split: option.splits if_splits)

lemma validEncoded_segment:
  assumes "\<And>c. c \<in> set p \<Longrightarrow> segment_char c \<or> c = CHR ''/''"
  shows "validEncoded encodePath p"
proof -
  have "c \<in> set ''!$&()*+,;=:@[]%'' \<or> c = CHR 0x27 \<or> \<not> shouldEscape encodePath c" if "c \<in> set p" for c
    using assms [OF that] by (auto simp: segment_char_def shouldEscape_def)
  then show ?thesis by (simp add: validEncoded_def list_all_iff)
qed

fun scheme_end :: "nat \<Rightarrow> string \<Rightarrow> nat option option" where
  "scheme_end i [] = Some None"
| "scheme_end i (c # s) =
     (if isUpper c \<or> isLower c then scheme_end (i + 1) s
      else if isDigit c \<or> c \<in> set ''+-.'' then (if i = 0 then Some None else scheme_end (i + 1) s)
      else if c = CHR '':'' then (if i = 0 then None else Some (Some i))
      else Some None)"

text \<open>\<open>getScheme\<close>: \<open>None\<close> is the error of a missing scheme.\<close>

definition getScheme :: "string \<Rightarrow> (string \<times> string) option" where
  "getScheme raw =
     (case scheme_end 0 raw of
        None \<Rightarrow> None
      | Some None \<Rightarrow> Some ([], raw)
      | Some (Some i) \<Rightarrow> Some (take i raw, drop (i + 1) raw))"

definition lowerChar :: "char \<Rightarrow> char" where
  "lowerChar c = (if isUpper c then char_of (code c + 32) else c)"

definition isASCII :: "string \<Rightarrow> bool" where
  "isASCII s = list_all (\<lambda>c. code c < 128) s"

definition ToLower :: "(string \<Rightarrow> string) \<Rightarrow> string \<Rightarrow> string" where
  "ToLower unicode s = (if isASCII s then map lowerChar s else unicode s)"

definition lastIndex :: "char \<Rightarrow> string \<Rightarrow> nat option" where
  "lastIndex c s = (if c \<in> set s then Some (length s - 1 - length (takeWhile (\<lambda>x. x \<noteq> c) (rev s))) else None)"

definition validOptionalPort :: "string \<Rightarrow> bool" where
  "validOptionalPort port = (port = [] \<or> hd port = CHR '':'' \<and> list_all isDigit (tl port))"

definition parseHost :: "(string \<Rightarrow> string option) \<Rightarrow> string \<Rightarrow> string option" where
  "parseHost bracketed host =
     (if CHR ''['' \<in> set host then bracketed host
      else case lastIndex (CHR '':'') host of
        Some i \<Rightarrow> if validOptionalPort (drop i host) then unescape encodeHost host else None
      | None \<Rightarrow> unescape encodeHost host)"

definition validUserinfo :: "string \<Rightarrow> bool" where
  "validUserinfo s = list_all (\<lambda>c. isAlnum c \<or> c \<in> set ''-._:~!$&()*+,;=%@'' \<or> c = CHR 0x27) s"

definition parseAuthority :: "(string \<Rightarrow> string option) \<Rightarrow> string \<Rightarrow> (bool \<times> string) option" where
  "parseAuthority bracketed authority =
     (case lastIndex (CHR ''@'') authority of
        None \<Rightarrow> map_option (\<lambda>h. (False, h)) (parseHost bracketed authority)
      | Some i \<Rightarrow>
          (case parseHost bracketed (drop (i + 1) authority) of
             None \<Rightarrow> None
           | Some h \<Rightarrow>
               let info = take i authority in
               if \<not> validUserinfo info then None
               else case Cut (CHR '':'') info of (user, password, _) \<Rightarrow>
                 if unescape encodeUserPassword user = None \<or> unescape encodeUserPassword password = None
                 then None else Some (True, h)))"

definition cutQuery :: "string \<Rightarrow> string \<times> string" where
  "cutQuery rest =
     (if HasSuffix rest ''?'' \<and> length (filter (\<lambda>c. c = CHR ''?'') rest) = 1 then (butlast rest, [])
      else case Cut (CHR ''?'') rest of (p, q, _) \<Rightarrow> (p, q))"

lemma cutQuery_absent:
  assumes "CHR ''?'' \<notin> set s"
  shows "cutQuery s = (s, [])"
proof -
  have "filter (\<lambda>c. c = CHR ''?'') s = []" using assms by (auto simp: filter_empty_conv)
  then show ?thesis using assms by (simp add: cutQuery_def Cut_absent)
qed

definition parse_rest :: "(string \<Rightarrow> string option) \<Rightarrow> string \<Rightarrow> string \<Rightarrow> string \<Rightarrow> url option" where
  "parse_rest bracketed scheme rest query =
     (let u = noURL\<lparr>url_Scheme := scheme, url_RawQuery := query\<rparr> in
      if \<not> HasPrefix rest ''/'' \<and> scheme \<noteq> [] then Some (u\<lparr>url_Opaque := rest\<rparr>)
      else if \<not> HasPrefix rest ''/'' \<and> CHR '':'' \<in> set (fst (Cut (CHR ''/'') rest)) then None
      else if (scheme \<noteq> [] \<or> \<not> HasPrefix rest ''///'') \<and> HasPrefix rest ''//'' then
        (let authority = takeWhile (\<lambda>c. c \<noteq> CHR ''/'') (drop 2 rest);
             path = dropWhile (\<lambda>c. c \<noteq> CHR ''/'') (drop 2 rest)
         in case parseAuthority bracketed authority of
              None \<Rightarrow> None
            | Some (user, host) \<Rightarrow> setPath path (u\<lparr>url_User := user, url_Host := host\<rparr>))
      else setPath rest u)"

definition url_Parse :: "(string \<Rightarrow> string option) \<Rightarrow> string \<Rightarrow> url option" where
  "url_Parse bracketed raw =
     (case Cut (CHR ''#'') raw of (base, frag, _) \<Rightarrow>
        if list_ex (\<lambda>c. code c < 32 \<or> code c = 127) base then None
        else case (if base = ''*'' then Some (noURL\<lparr>url_Path := ''*''\<rparr>)
                   else case getScheme base of
                     None \<Rightarrow> None
                   | Some (scheme, rest) \<Rightarrow>
                       (case cutQuery rest of (p, q) \<Rightarrow> parse_rest bracketed (map lowerChar scheme) p q)) of
          None \<Rightarrow> None
        | Some u \<Rightarrow>
            if frag = [] then Some u
            else map_option (\<lambda>f. u\<lparr>url_Fragment := f\<rparr>) (unescape encodeFragment frag))"

section \<open>Hosts and ports\<close>

definition SplitHostPort :: "string \<Rightarrow> (string \<times> string) option" where
  "SplitHostPort hostport =
     (case lastIndex (CHR '':'') hostport of
        None \<Rightarrow> None
      | Some i \<Rightarrow>
          if hd hostport = CHR ''['' then
            (let host = takeWhile (\<lambda>c. c \<noteq> CHR '']'') (tl hostport); e = length host + 1
             in if CHR '']'' \<notin> set hostport \<or> e + 1 \<noteq> i
                then None
                else if CHR ''['' \<in> set (drop 1 hostport) \<or> CHR '']'' \<in> set (drop (e + 1) hostport) then None
                else Some (host, drop (i + 1) hostport))
          else if CHR '':'' \<in> set (take i hostport) \<or> CHR ''['' \<in> set hostport \<or> CHR '']'' \<in> set hostport then None
          else Some (take i hostport, drop (i + 1) hostport))"

definition JoinHostPort :: "string \<Rightarrow> string \<Rightarrow> string" where
  "JoinHostPort host port = (if CHR '':'' \<in> set host then ''['' @ host @ '']:'' @ port else host @ '':'' @ port)"

section \<open>Headers, requests and responses\<close>

type_synonym header = "(string \<times> string) list"

fun canonical :: "bool \<Rightarrow> string \<Rightarrow> string" where
  "canonical up [] = []"
| "canonical up (c # s) =
     (if up \<and> isLower c then char_of (code c - 32) else if \<not> up \<and> isUpper c then char_of (code c + 32) else c)
     # canonical (c = CHR ''-'') s"

definition HeaderValues :: "string \<Rightarrow> header \<Rightarrow> string list" where
  "HeaderValues k h = map snd (filter (\<lambda>(n, _). n = canonical True k) h)"

definition HeaderGet :: "string \<Rightarrow> header \<Rightarrow> string" where
  "HeaderGet k h = (case HeaderValues k h of [] \<Rightarrow> '''' | v # _ \<Rightarrow> v)"

definition HeaderSet :: "string \<Rightarrow> string \<Rightarrow> header \<Rightarrow> header" where
  "HeaderSet k v h = filter (\<lambda>(n, _). n \<noteq> canonical True k) h @ [(canonical True k, v)]"

lemma HeaderValues_Set: "HeaderValues k (HeaderSet k v h) = [v]"
  by (simp add: HeaderValues_def HeaderSet_def case_prod_beta)

lemma HeaderValues_Set_other:
  "canonical True k \<noteq> canonical True j \<Longrightarrow> HeaderValues k (HeaderSet j v h) = HeaderValues k h"
  by (induction h) (auto simp: HeaderValues_def HeaderSet_def)

lemma HeaderGet_Set: "HeaderGet k (HeaderSet k v h) = v"
  by (simp add: HeaderGet_def HeaderValues_Set)

lemma HeaderGet_Set_other: "canonical True k \<noteq> canonical True j \<Longrightarrow> HeaderGet k (HeaderSet j v h) = HeaderGet k h"
  by (simp add: HeaderGet_def HeaderValues_Set_other)

record request =
  req_Method :: string
  req_URL :: url
  req_Header :: header
  req_Body :: "bytes option"

record response =
  resp_Status :: int
  resp_Header :: header
  resp_Body :: bytes

definition http_Error :: "string \<Rightarrow> int \<Rightarrow> header \<Rightarrow> response" where
  "http_Error message status h =
     \<lparr>resp_Status = status,
      resp_Header = HeaderSet ''X-Content-Type-Options'' ''nosniff''
                      (HeaderSet ''Content-Type'' ''text/plain; charset=utf-8''
                        (filter (\<lambda>(n, _). n \<noteq> ''Content-Length'') h)),
      resp_Body = message @ [char_of (10::nat)]\<rparr>"

end
