(* ===== verification/Go_IP.thy ===== *)
theory Go_IP
  imports Go_Net
begin

text \<open>
  What the program uses of \<open>net.IP\<close>: \<open>ParseIP\<close> (IPv4 and IPv6 texts, no zones), \<open>To4\<close>, \<open>IsLoopback\<close>
  and the text of an IPv4 address. An address is its sixteen bytes.
\<close>

section \<open>Splitting\<close>

fun Split :: "char \<Rightarrow> string \<Rightarrow> string list" where
  "Split sep [] = [[]]"
| "Split sep (c # s) =
     (if c = sep then [] # Split sep s
      else case Split sep s of [] \<Rightarrow> [[c]] | f # fs \<Rightarrow> (c # f) # fs)"

lemma Split_nonempty: "Split sep s \<noteq> []"
  by (induction s) (auto split: list.splits)

lemma Split_absent: "sep \<notin> set s \<Longrightarrow> Split sep s = [s]"
  by (induction s) auto

lemma Split_found: "sep \<notin> set a \<Longrightarrow> Split sep (a @ sep # b) = a # Split sep b"
  using Split_nonempty by (induction a) auto

section \<open>Parsing\<close>

definition octet :: "string \<Rightarrow> nat option" where
  "octet s =
     (if s \<noteq> [] \<and> list_all isDigit s \<and> (length s = 1 \<or> hd s \<noteq> CHR ''0'') \<and> digitsVal s \<le> 255
      then Some (digitsVal s) else None)"

definition parseIPv4Fields :: "string \<Rightarrow> nat list option" where
  "parseIPv4Fields s =
     (case map octet (Split (CHR ''.'') s) of
        [Some a, Some b, Some c, Some d] \<Rightarrow> Some [a, b, c, d]
      | _ \<Rightarrow> None)"

definition hexVal :: "string \<Rightarrow> nat" where
  "hexVal s = fold (\<lambda>c n. 16 * n + (case unhex c of Some d \<Rightarrow> d | None \<Rightarrow> 0)) s 0"

text \<open>
  One group of an IPv6 text, given the bytes so far and the position of the ellipsis: the loop fails,
  ends, or goes on with the rest of the text.
\<close>

datatype group_result = Failed | Ended "nat list" "nat option" | Goes_on string "nat list" "nat option"

definition parseGroup :: "string \<Rightarrow> nat list \<Rightarrow> nat option \<Rightarrow> group_result" where
  "parseGroup s ip ellipsis =
     (let hex = takeWhile (\<lambda>c. unhex c \<noteq> None) s; rest = drop (length hex) s; acc = hexVal hex;
          ip' = ip @ [acc div 256, acc mod 256] in
      if hex = [] \<or> length hex > 4 then Failed
      else if rest \<noteq> [] \<and> hd rest = CHR ''.'' then
        if ellipsis = None \<and> length ip \<noteq> 12 \<or> length ip > 12 then Failed
        else (case parseIPv4Fields s of None \<Rightarrow> Failed | Some f \<Rightarrow> Ended (ip @ f) ellipsis)
      else if rest = [] then Ended ip' ellipsis
      else if hd rest \<noteq> CHR '':'' \<or> tl rest = [] then Failed
      else if hd (tl rest) = CHR '':'' then
        if ellipsis \<noteq> None then Failed
        else if tl (tl rest) = [] then Ended ip' (Some (length ip'))
        else Goes_on (tl (tl rest)) ip' (Some (length ip'))
      else Goes_on (tl rest) ip' ellipsis)"

lemma parseIPv4Fields_length: "parseIPv4Fields s = Some f \<Longrightarrow> length f = 4"
  by (auto simp: parseIPv4Fields_def split: list.splits option.splits)

lemma parseGroup_Goes_on: "parseGroup s ip ellipsis = Goes_on s' ip' e \<Longrightarrow> length ip' = length ip + 2"
  unfolding parseGroup_def Let_def by (auto split: if_splits option.splits)

lemma parseGroup_Ended: "parseGroup s ip ellipsis = Ended ip' e \<Longrightarrow> length ip' = length ip + 2 \<or> length ip' \<le> 16"
  unfolding parseGroup_def Let_def by (auto split: if_splits option.splits dest: parseIPv4Fields_length)

function parseGroups :: "string \<Rightarrow> nat list \<Rightarrow> nat option \<Rightarrow> (nat list \<times> nat option) option" where
  "parseGroups s ip ellipsis =
     (if length ip \<ge> 16 then if s = [] then Some (ip, ellipsis) else None
      else case parseGroup s ip ellipsis of
        Failed \<Rightarrow> None
      | Ended ip' e \<Rightarrow> Some (ip', e)
      | Goes_on s' ip' e \<Rightarrow> parseGroups s' ip' e)"
  by pat_completeness auto
termination
  by (relation "measure (\<lambda>(s, ip, _). 16 - length ip)") (auto dest: parseGroup_Goes_on)

declare parseGroups.simps [simp del]

definition expandEllipsis :: "nat list \<times> nat option \<Rightarrow> nat list option" where
  "expandEllipsis = (\<lambda>(ip, ellipsis).
     if length ip < 16
     then map_option (\<lambda>e. take e ip @ replicate (16 - length ip) 0 @ drop e ip) ellipsis
     else if ellipsis = None then Some ip else None)"

definition parseIPv6 :: "string \<Rightarrow> nat list option" where
  "parseIPv6 s =
     (if HasPrefix s ''::'' then
        if drop 2 s = [] then Some (replicate 16 0)
        else Option.bind (parseGroups (drop 2 s) [] (Some 0)) expandEllipsis
      else Option.bind (parseGroups s [] None) expandEllipsis)"

definition ParseIP :: "string \<Rightarrow> nat list option" where
  "ParseIP s =
     (if CHR ''%'' \<in> set s then None
      else case find (\<lambda>c. c = CHR ''.'' \<or> c = CHR '':'') s of
        None \<Rightarrow> None
      | Some c \<Rightarrow>
          if c = CHR ''.'' then map_option (\<lambda>f. replicate 10 0 @ [255, 255] @ f) (parseIPv4Fields s)
          else parseIPv6 s)"

definition To4 :: "nat list \<Rightarrow> nat list option" where
  "To4 ip = (if take 12 ip = replicate 10 0 @ [255, 255] then Some (drop 12 ip) else None)"

definition IsLoopback :: "nat list \<Rightarrow> bool" where
  "IsLoopback ip = (case To4 ip of Some ip4 \<Rightarrow> hd ip4 = 127 | None \<Rightarrow> ip = replicate 15 0 @ [1])"

definition dotted :: "nat list \<Rightarrow> string" where
  "dotted ip4 = concat (map (\<lambda>(i, b). (if i = 0 then [] else ''.'') @ decimal b) (enumerate 0 ip4))"

lemma ParseIP_examples:
  "ParseIP ''127.0.0.1'' = Some (replicate 10 0 @ [255, 255, 127, 0, 0, 1])" "ParseIP ''127.0.0.01'' = None"
  "ParseIP ''::1'' = Some (replicate 15 0 @ [1])" "ParseIP ''::0:10.0.0.7'' = Some (replicate 12 0 @ [10, 0, 0, 7])"
  "ParseIP ''1:2:3:4:5:6:7::'' = Some [0, 1, 0, 2, 0, 3, 0, 4, 0, 5, 0, 6, 0, 7, 0, 0]" "ParseIP ''1::2::3'' = None"
  "ParseIP ''localhost'' = None" "ParseIP ''::1%lo'' = None"
  by code_simp+

lemma dotted_examples: "dotted [10, 0, 0, 7] = ''10.0.0.7''"
  by code_simp

section \<open>Addresses with a port\<close>

lemma dotted_chars: "c \<in> set (dotted ip4) \<Longrightarrow> isDigit c \<or> c = CHR ''.''"
  using decimal_digits by (fastforce simp: dotted_def list_all_iff split: if_splits)

lemma dotted_nonempty: "ip4 \<noteq> [] \<Longrightarrow> dotted ip4 \<noteq> []"
  by (cases ip4) (simp_all add: dotted_def)

lemma lastIndex_app: "c \<notin> set b \<Longrightarrow> lastIndex c (a @ c # b) = Some (length a)"
  by (simp add: lastIndex_def takeWhile_append)

lemma SplitHostPort_Join:
  assumes "host \<noteq> []" "\<And>c. c \<in> set host \<union> set port \<Longrightarrow> c \<notin> set '':[]''"
  shows "SplitHostPort (JoinHostPort host port) = Some (host, port)"
proof -
  have no: "CHR '':'' \<notin> set host" "CHR '':'' \<notin> set port" "CHR ''['' \<notin> set host \<union> set port" "CHR '']'' \<notin> set host \<union> set port"
    using assms(2) by auto
  have "hd (host @ CHR '':'' # port) \<noteq> CHR ''[''" using assms(1) no(3) by (cases host) auto
  then show ?thesis
    using no lastIndex_app [of "CHR '':''" port host] by (simp add: SplitHostPort_def JoinHostPort_def)
qed

lemma digit_not_reserved: "isDigit c \<Longrightarrow> c \<notin> set '':[]/?#.''"
  by (auto simp: isDigit_def)

lemma FormatInt_digits: "0 \<le> n \<Longrightarrow> c \<in> set (FormatInt n) \<Longrightarrow> isDigit c"
  using decimal_digits [of "nat n"] by (auto simp: FormatInt_def list_all_iff split: if_splits)

section \<open>A parsed address has sixteen bytes\<close>

lemma parseGroups_length:
  "parseGroups s ip ellipsis = Some (ip', e) \<Longrightarrow> even (length ip) \<Longrightarrow> length ip \<le> 16 \<Longrightarrow> length ip' \<le> 16"
proof (induction s ip ellipsis rule: parseGroups.induct)
  case (1 s ip ellipsis)
  show ?case
  proof (cases "length ip \<ge> 16")
    case True
    then show ?thesis using 1(2,4) by (auto simp: parseGroups.simps [of s] split: if_splits)
  next
    case False
    then have lt: "length ip + 2 \<le> 16" using 1(3) by (auto elim: evenE)
    show ?thesis
    proof (cases "parseGroup s ip ellipsis")
      case Failed
      then show ?thesis using 1(2) False by (simp add: parseGroups.simps [of s])
    next
      case (Ended a b)
      then show ?thesis using 1(2) False lt parseGroup_Ended [OF Ended] by (auto simp: parseGroups.simps [of s])
    next
      case (Goes_on s' a b)
      then show ?thesis
        using 1(1) [OF False Goes_on] 1(2,3) False lt parseGroup_Goes_on [OF Goes_on] by (simp add: parseGroups.simps [of s])
    qed
  qed
qed

lemma expandEllipsis_length: "expandEllipsis (ip, e) = Some r \<Longrightarrow> length ip \<le> 16 \<Longrightarrow> length r = 16"
  by (auto simp: expandEllipsis_def split: if_splits)

lemma ParseIP_length: "ParseIP s = Some ip \<Longrightarrow> length ip = 16"
  by (auto simp: ParseIP_def parseIPv6_def bind_eq_Some_conv
      dest!: parseIPv4Fields_length parseGroups_length expandEllipsis_length split: if_splits option.splits)

lemma To4_length: "length ip = 16 \<Longrightarrow> To4 ip = Some ip4 \<Longrightarrow> length ip4 = 4"
  by (auto simp: To4_def split: if_splits)

end
