(* ===== verification/Product_Store.thy ===== *)
theory Product_Store
  imports Cache_Errors "HOL-Library.Product_Lexorder"
begin

text \<open>
  \<open>internal/source/postgres/postgres.go\<close> and \<open>outbox.go\<close>: the authoritative product table and
  the outbox of version notifications. Every SQL statement of the two files is a function on the
  two tables; one statement is one transaction, so it is atomic. The PostgreSQL driver is an
  argument, the \<open>outcome\<close> of a round trip: the statement was executed and its reply arrived, it
  was not executed, or it was executed and the reply was lost. The clock readings of a statement
  are \<open>clk 0, clk 1, \<dots>\<close>; \<open>SKIP LOCKED\<close> skips the row ids another transaction holds, the
  argument \<open>locked\<close>. Intervals are exact here; the server rounds them to microseconds.
\<close>

section \<open>Tables\<close>

record product =
  prod_value :: bytes
  prod_version :: int
  prod_deleted :: bool
  prod_updated :: gotime

record outbox_row =
  row_id :: int
  row_key :: string
  row_version :: int
  row_created :: gotime
  row_available :: gotime
  row_leased :: "gotime option"
  row_attempts :: int
  row_delivered :: "gotime option"

record database =
  db_products :: "string \<rightharpoonup> product"
  db_outbox :: "outbox_row list"
  db_nextId :: int

section \<open>Statements\<close>

text \<open>
  \<open>version + 1\<close> on a \<open>bigint\<close> column raises an error at the largest value.
\<close>

definition maxBigint :: int where
  "maxBigint = 2 ^ 63 - 1"

definition outOfRange :: goerror where
  "outOfRange = NewError ''bigint out of range''"

text \<open>\<open>INSERT INTO simplecache_outbox(key,version)\<close> with the column defaults.\<close>

definition emit :: "(nat \<Rightarrow> gotime) \<Rightarrow> string \<Rightarrow> int \<Rightarrow> database \<Rightarrow> database" where
  "emit clk key version db =
     db\<lparr>db_outbox := db_outbox db @
          [\<lparr>row_id = db_nextId db, row_key = key, row_version = version, row_created = clk 1,
            row_available = clk 2, row_leased = None, row_attempts = 0, row_delivered = None\<rparr>],
        db_nextId := db_nextId db + 1\<rparr>"

text \<open>
  The common shape of the mutation statements: change one row, then insert its key and new version
  into the outbox, returning the version; no change and no row otherwise.
\<close>

definition change_row ::
  "(nat \<Rightarrow> gotime) \<Rightarrow> string \<Rightarrow> bytes \<Rightarrow> bool \<Rightarrow> int \<Rightarrow> database \<Rightarrow> goerror + int option \<times> database" where
  "change_row clk key val deleted version db =
     (if version \<ge> maxBigint then Inl outOfRange
      else
        (let p = \<lparr>prod_value = val, prod_version = version + 1, prod_deleted = deleted, prod_updated = clk 0\<rparr>
         in Inr (Some (version + 1), emit clk key (version + 1) (db\<lparr>db_products := (db_products db)(key \<mapsto> p)\<rparr>))))"

definition insert_row ::
  "(nat \<Rightarrow> gotime) \<Rightarrow> string \<Rightarrow> bytes \<Rightarrow> database \<Rightarrow> goerror + int option \<times> database" where
  "insert_row clk key val db =
     (let p = \<lparr>prod_value = val, prod_version = 1, prod_deleted = False, prod_updated = clk 0\<rparr>
      in Inr (Some 1, emit clk key 1 (db\<lparr>db_products := (db_products db)(key \<mapsto> p)\<rparr>)))"

definition sql_put :: "(nat \<Rightarrow> gotime) \<Rightarrow> string \<Rightarrow> bytes \<Rightarrow> database \<Rightarrow> goerror + int option \<times> database" where
  "sql_put clk key val db =
     (case db_products db key of
        None \<Rightarrow> insert_row clk key val db
      | Some p \<Rightarrow> change_row clk key val False (prod_version p) db)"

definition sql_create :: "(nat \<Rightarrow> gotime) \<Rightarrow> string \<Rightarrow> bytes \<Rightarrow> database \<Rightarrow> goerror + int option \<times> database" where
  "sql_create clk key val db =
     (case db_products db key of
        None \<Rightarrow> insert_row clk key val db
      | Some p \<Rightarrow> if prod_deleted p then change_row clk key val False (prod_version p) db
                  else Inr (None, db))"

definition sql_update ::
  "(nat \<Rightarrow> gotime) \<Rightarrow> string \<Rightarrow> bytes \<Rightarrow> int \<Rightarrow> database \<Rightarrow> goerror + int option \<times> database" where
  "sql_update clk key val expected db =
     (case db_products db key of
        None \<Rightarrow> Inr (None, db)
      | Some p \<Rightarrow> if prod_version p = expected \<and> \<not> prod_deleted p
                  then change_row clk key val False (prod_version p) db else Inr (None, db))"

definition sql_delete :: "(nat \<Rightarrow> gotime) \<Rightarrow> string \<Rightarrow> database \<Rightarrow> goerror + int option \<times> database" where
  "sql_delete clk key db =
     (case db_products db key of
        None \<Rightarrow> Inr (None, db)
      | Some p \<Rightarrow> if \<not> prod_deleted p then change_row clk key [] True (prod_version p) db
                  else Inr (None, db))"

definition sql_delete_if ::
  "(nat \<Rightarrow> gotime) \<Rightarrow> string \<Rightarrow> int \<Rightarrow> database \<Rightarrow> goerror + int option \<times> database" where
  "sql_delete_if clk key expected db =
     (case db_products db key of
        None \<Rightarrow> Inr (None, db)
      | Some p \<Rightarrow> if prod_version p = expected \<and> \<not> prod_deleted p
                  then change_row clk key [] True (prod_version p) db else Inr (None, db))"

definition sql_read :: "string \<Rightarrow> database \<Rightarrow> (bytes \<times> int) option" where
  "sql_read key db =
     (case db_products db key of
        None \<Rightarrow> None
      | Some p \<Rightarrow> if prod_deleted p then None else Some (prod_value p, prod_version p))"

section \<open>The driver\<close>

datatype outcome = Replied | NotExecuted goerror | ReplyLost goerror

definition round_trip :: "outcome \<Rightarrow> (goerror + 'r \<times> database) \<Rightarrow> database \<Rightarrow> (goerror + 'r) \<times> database" where
  "round_trip out stmt db =
     (case out of
        Replied \<Rightarrow> (case stmt of Inl e \<Rightarrow> (Inl e, db) | Inr (r, db') \<Rightarrow> (Inr r, db'))
      | NotExecuted e \<Rightarrow> (Inl e, db)
      | ReplyLost e \<Rightarrow> (Inl e, case stmt of Inl _ \<Rightarrow> db | Inr (_, db') \<Rightarrow> db'))"

text \<open>\<open>QueryRow(...).Scan\<close>: no row is the error \<open>pgx.ErrNoRows\<close>.\<close>

definition scan_row :: "goerror + 'r option \<Rightarrow> goerror + 'r" where
  "scan_row r = (case r of Inl e \<Rightarrow> Inl e | Inr None \<Rightarrow> Inl ErrNoRows | Inr (Some x) \<Rightarrow> Inr x)"

section \<open>Errors\<close>

definition databaseError :: "string \<Rightarrow> goerror \<Rightarrow> goerror" where
  "databaseError message cause = Wrap message cause"

definition writeError :: "gocontext \<Rightarrow> gotime \<Rightarrow> goerror option \<Rightarrow> goerror option" where
  "writeError ctx now err =
     (case err of
        None \<Rightarrow> None
      | Some e \<Rightarrow> (case ctx_Err ctx now of
                     Some c \<Rightarrow> Some c
                   | None \<Rightarrow> Some (databaseError ''PostgreSQL write failed'' e)))"

definition mutationResult :: "gocontext \<Rightarrow> gotime \<Rightarrow> goerror + int \<Rightarrow> int \<times> goerror option" where
  "mutationResult ctx now r =
     (case r of
        Inl e \<Rightarrow> if errors_Is e ErrNoRows then (0, Some ErrPreconditionFailed)
                 else (0, writeError ctx now (Some e))
      | Inr version \<Rightarrow> (version, None))"

definition validateValue :: "string \<Rightarrow> bytes \<Rightarrow> goerror option" where
  "validateValue key val =
     (case ValidateKey key of
        Some err \<Rightarrow> Some err
      | None \<Rightarrow> if length val > MaxValueBytes then Some ErrValueTooLarge else None)"

section \<open>The store\<close>

text \<open>
  \<open>Open\<close>: the driver's answers are arguments (whether the URL parses, the pool is made, and the
  two schema probes succeed); the result is the error and whether the pool is left open.
\<close>

definition Open :: "bool \<Rightarrow> int \<Rightarrow> bool \<Rightarrow> bool \<Rightarrow> bool \<Rightarrow> goerror option \<times> bool" where
  "Open parsed maxConnections created products outbox =
     (if \<not> parsed then (Some (NewError ''invalid DATABASE_URL''), False)
      else if maxConnections < 1 then (Some (NewError ''PostgreSQL connection limit must be positive''), False)
      else if \<not> created then (Some (NewError ''could not create PostgreSQL pool''), False)
      else if \<not> products
      then (Some (NewError ''PostgreSQL startup check failed; check connectivity and apply schema.sql''), False)
      else if \<not> outbox
      then (Some (NewError ''PostgreSQL outbox startup check failed; apply schema.sql''), False)
      else (None, True))"

definition GetVersioned ::
  "outcome \<Rightarrow> gocontext \<Rightarrow> gotime \<Rightarrow> string \<Rightarrow> database \<Rightarrow> (bytes \<times> int) \<times> goerror option" where
  "GetVersioned out ctx now key db =
     (case ValidateKey key of
        Some err \<Rightarrow> (([], 0), Some err)
      | None \<Rightarrow>
          (case scan_row (fst (round_trip out (Inr (sql_read key db, db)) db)) of
             Inr r \<Rightarrow> (r, None)
           | Inl e \<Rightarrow>
               if errors_Is e ErrNoRows then (([], 0), Some ErrNotFound)
               else (case ctx_Err ctx now of
                       Some c \<Rightarrow> (([], 0), Some c)
                     | None \<Rightarrow> (([], 0), Some (databaseError ''PostgreSQL read failed'' e)))))"

definition store_Get :: "outcome \<Rightarrow> gocontext \<Rightarrow> gotime \<Rightarrow> string \<Rightarrow> database \<Rightarrow> bytes \<times> goerror option" where
  "store_Get out ctx now key db = (case GetVersioned out ctx now key db of ((val, _), err) \<Rightarrow> (val, err))"

definition store_Put ::
  "outcome \<Rightarrow> gocontext \<Rightarrow> gotime \<Rightarrow> (nat \<Rightarrow> gotime) \<Rightarrow> string \<Rightarrow> bytes \<Rightarrow> database \<Rightarrow> goerror option \<times> database" where
  "store_Put out ctx now clk key val db =
     (case validateValue key val of
        Some err \<Rightarrow> (Some err, db)
      | None \<Rightarrow>
          (case round_trip out (sql_put clk key val db) db of
             (Inl e, db') \<Rightarrow> (writeError ctx now (Some e), db')
           | (Inr _, db') \<Rightarrow> (None, db')))"

definition PutIfVersion ::
  "outcome \<Rightarrow> gocontext \<Rightarrow> gotime \<Rightarrow> (nat \<Rightarrow> gotime) \<Rightarrow> string \<Rightarrow> bytes \<Rightarrow> int \<Rightarrow> database \<Rightarrow>
   (int \<times> goerror option) \<times> database" where
  "PutIfVersion out ctx now clk key val expected db =
     (case validateValue key val of
        Some err \<Rightarrow> ((0, Some err), db)
      | None \<Rightarrow>
          if expected < 0 then ((0, Some (NewError ''invalid expected version'')), db)
          else case round_trip out (if expected = 0 then sql_create clk key val db
                                    else sql_update clk key val expected db) db of
            (r, db') \<Rightarrow> (mutationResult ctx now (scan_row r), db'))"

definition store_Delete ::
  "outcome \<Rightarrow> gocontext \<Rightarrow> gotime \<Rightarrow> (nat \<Rightarrow> gotime) \<Rightarrow> string \<Rightarrow> database \<Rightarrow> goerror option \<times> database" where
  "store_Delete out ctx now clk key db =
     (case ValidateKey key of
        Some err \<Rightarrow> (Some err, db)
      | None \<Rightarrow>
          (case round_trip out (sql_delete clk key db) db of
             (Inl e, db') \<Rightarrow> (writeError ctx now (Some e), db')
           | (Inr _, db') \<Rightarrow> (None, db')))"

definition DeleteIfVersion ::
  "outcome \<Rightarrow> gocontext \<Rightarrow> gotime \<Rightarrow> (nat \<Rightarrow> gotime) \<Rightarrow> string \<Rightarrow> int \<Rightarrow> database \<Rightarrow>
   (int \<times> goerror option) \<times> database" where
  "DeleteIfVersion out ctx now clk key expected db =
     (case ValidateKey key of
        Some err \<Rightarrow> ((0, Some err), db)
      | None \<Rightarrow>
          if expected \<le> 0 then ((0, Some (NewError ''invalid expected version'')), db)
          else case round_trip out (sql_delete_if clk key expected db) db of
            (r, db') \<Rightarrow> (mutationResult ctx now (scan_row r), db'))"

end
