(* ===== verification/Outbox_Store.thy ===== *)
theory Outbox_Store
  imports Product_Store
begin

text \<open>
  \<open>internal/source/postgres/outbox.go\<close>: the queue side of the outbox table, claim with a lease,
  completion under that lease, statistics and retention. \<open>at\<close> gives the clock when the condition
  of a row is evaluated (\<open>clock_timestamp()\<close> advances during a statement) and \<open>setAt\<close> the clock
  when the new values are computed.
\<close>

section \<open>Events and statistics\<close>

record Event =
  ev_ID :: int
  ev_Key :: string
  ev_Version :: int
  ev_Attempt :: int

definition noEvent :: Event where
  "noEvent = \<lparr>ev_ID = 0, ev_Key = '''', ev_Version = 0, ev_Attempt = 0\<rparr>"

record outboxStats =
  ob_PurgeEligible :: int
  ob_TableBytes :: int
  ob_Pending :: int
  ob_OldestAge :: duration

definition LeaseDuration :: duration where
  "LeaseDuration = 10 * Second"

definition Retention :: duration where
  "Retention = 7 * 24 * Hour"

section \<open>Claim\<close>

definition claimable :: "(int \<Rightarrow> gotime) \<Rightarrow> int list \<Rightarrow> outbox_row \<Rightarrow> bool" where
  "claimable at locked r \<longleftrightarrow>
     row_delivered r = None \<and> row_available r \<le> at (row_id r) \<and>
     (case row_leased r of None \<Rightarrow> True | Some t \<Rightarrow> t \<le> at (row_id r)) \<and> row_id r \<notin> set locked"

definition candidate :: "(int \<Rightarrow> gotime) \<Rightarrow> int list \<Rightarrow> database \<Rightarrow> outbox_row option" where
  "candidate at locked db =
     (case sort_key (\<lambda>r. (row_available r, row_id r)) (filter (claimable at locked) (db_outbox db)) of
        [] \<Rightarrow> None
      | r # _ \<Rightarrow> Some r)"

definition update_rows :: "(outbox_row \<Rightarrow> bool) \<Rightarrow> (outbox_row \<Rightarrow> outbox_row) \<Rightarrow> database \<Rightarrow> database" where
  "update_rows P f db = db\<lparr>db_outbox := map (\<lambda>r. if P r then f r else r) (db_outbox db)\<rparr>"

definition sql_claim ::
  "(int \<Rightarrow> gotime) \<Rightarrow> gotime \<Rightarrow> int list \<Rightarrow> duration \<Rightarrow> database \<Rightarrow> goerror + Event option \<times> database" where
  "sql_claim at setAt locked lease db =
     (case candidate at locked db of
        None \<Rightarrow> Inr (None, db)
      | Some r \<Rightarrow>
          if row_attempts r \<ge> maxBigint then Inl outOfRange
          else Inr (Some \<lparr>ev_ID = row_id r, ev_Key = row_key r, ev_Version = row_version r,
                          ev_Attempt = row_attempts r + 1\<rparr>,
                    update_rows (\<lambda>e. row_id e = row_id r)
                      (\<lambda>e. e\<lparr>row_attempts := row_attempts e + 1, row_leased := Some (setAt + lease)\<rparr>) db))"

definition Claim ::
  "outcome \<Rightarrow> (int \<Rightarrow> gotime) \<Rightarrow> gotime \<Rightarrow> int list \<Rightarrow> duration \<Rightarrow> database \<Rightarrow>
   (Event \<times> bool \<times> goerror option) \<times> database" where
  "Claim out at setAt locked lease db =
     (if lease \<le> 0 \<or> lease > Minute then ((noEvent, False, Some (NewError ''invalid outbox lease'')), db)
      else case round_trip out (sql_claim at setAt locked lease db) db of
        (r, db') \<Rightarrow>
          (case scan_row r of
             Inr event \<Rightarrow> ((event, True, None), db')
           | Inl e \<Rightarrow>
               if errors_Is e ErrNoRows then ((noEvent, False, None), db')
               else ((noEvent, False, Some (databaseError ''outbox claim failed'' e)), db')))"

section \<open>Finish\<close>

definition finishable :: "(int \<Rightarrow> gotime) \<Rightarrow> Event \<Rightarrow> outbox_row \<Rightarrow> bool" where
  "finishable at ev r \<longleftrightarrow>
     row_id r = ev_ID ev \<and> row_attempts r = ev_Attempt ev \<and> row_delivered r = None \<and>
     (case row_leased r of None \<Rightarrow> False | Some t \<Rightarrow> t > at (row_id r))"

definition sql_finish ::
  "(int \<Rightarrow> gotime) \<Rightarrow> gotime \<Rightarrow> Event \<Rightarrow> bool \<Rightarrow> duration \<Rightarrow> database \<Rightarrow> goerror + nat \<times> database" where
  "sql_finish at setAt ev delivered retry db =
     Inr (length (filter (finishable at ev) (db_outbox db)),
          update_rows (finishable at ev)
            (\<lambda>r. r\<lparr>row_delivered := (if delivered then Some setAt else None),
                   row_available := (if delivered then row_available r else setAt + retry),
                   row_leased := None\<rparr>) db)"

definition Finish ::
  "outcome \<Rightarrow> (int \<Rightarrow> gotime) \<Rightarrow> gotime \<Rightarrow> Event \<Rightarrow> bool \<Rightarrow> duration \<Rightarrow> database \<Rightarrow>
   (bool \<times> goerror option) \<times> database" where
  "Finish out at setAt ev delivered retry db =
     (if ev_ID ev \<le> 0 \<or> ev_Attempt ev \<le> 0 \<or> retry < 0 \<or> retry > Minute
      then ((False, Some (NewError ''invalid outbox completion'')), db)
      else case round_trip out (sql_finish at setAt ev delivered retry db) db of
        (Inl e, db') \<Rightarrow> ((False, Some (databaseError ''outbox completion failed'' e)), db')
      | (Inr n, db') \<Rightarrow> ((n = 1, None), db'))"

section \<open>Statistics and retention\<close>

text \<open>
  The two queries of \<open>Stats\<close> are two statements; \<open>bytes\<close> is the relation size the server reports.
  The age goes through floating-point seconds in the code and is exact here.
\<close>

definition pending_rows :: "database \<Rightarrow> outbox_row list" where
  "pending_rows db = filter (\<lambda>r. row_delivered r = None) (db_outbox db)"

definition oldest_age :: "gotime \<Rightarrow> database \<Rightarrow> duration" where
  "oldest_age now db =
     (case map row_created (pending_rows db) of
        [] \<Rightarrow> 0
      | t # ts \<Rightarrow> now - foldr min ts t)"

definition purgeable :: "gotime \<Rightarrow> duration \<Rightarrow> outbox_row \<Rightarrow> bool" where
  "purgeable now retention r \<longleftrightarrow>
     (case row_delivered r of None \<Rightarrow> False | Some t \<Rightarrow> t < now - retention)"

definition outbox_Stats ::
  "outcome \<Rightarrow> gotime \<Rightarrow> database \<Rightarrow> outcome \<Rightarrow> gotime \<Rightarrow> int \<Rightarrow> database \<Rightarrow> outboxStats \<times> goerror option" where
  "outbox_Stats out1 now1 db1 out2 now2 size2 db2 =
     (let zero = \<lparr>ob_PurgeEligible = 0, ob_TableBytes = 0, ob_Pending = 0, ob_OldestAge = 0\<rparr>
      in case fst (round_trip out1 (Inr ((int (length (pending_rows db1)), oldest_age now1 db1), db1)) db1) of
        Inl e \<Rightarrow> (zero, Some (databaseError ''outbox stats failed'' e))
      | Inr (pending, age) \<Rightarrow>
          (case fst (round_trip out2 (Inr (length (filter (purgeable now2 Retention) (db_outbox db2)), db2)) db2) of
             Inl e \<Rightarrow> (zero\<lparr>ob_Pending := pending\<rparr>, Some (databaseError ''outbox storage stats failed'' e))
           | Inr n \<Rightarrow> (zero\<lparr>ob_Pending := pending, ob_PurgeEligible := int n, ob_TableBytes := size2,
                           ob_OldestAge := max 0 age\<rparr>, None)))"

definition purge_ids :: "(int \<Rightarrow> gotime) \<Rightarrow> int list \<Rightarrow> duration \<Rightarrow> nat \<Rightarrow> database \<Rightarrow> int list" where
  "purge_ids at locked retention limit db =
     map row_id (take limit (sort_key (\<lambda>r. (the (row_delivered r), row_id r))
       (filter (\<lambda>r. purgeable (at (row_id r)) retention r \<and> row_id r \<notin> set locked) (db_outbox db))))"

definition sql_purge ::
  "(int \<Rightarrow> gotime) \<Rightarrow> int list \<Rightarrow> duration \<Rightarrow> nat \<Rightarrow> database \<Rightarrow> goerror + nat \<times> database" where
  "sql_purge at locked retention limit db =
     (let ids = purge_ids at locked retention limit db
      in Inr (length (filter (\<lambda>r. row_id r \<in> set ids) (db_outbox db)),
              db\<lparr>db_outbox := filter (\<lambda>r. row_id r \<notin> set ids) (db_outbox db)\<rparr>))"

definition PurgeDelivered ::
  "outcome \<Rightarrow> (int \<Rightarrow> gotime) \<Rightarrow> int list \<Rightarrow> duration \<Rightarrow> int \<Rightarrow> database \<Rightarrow> (nat \<times> goerror option) \<times> database" where
  "PurgeDelivered out at locked retention limit db =
     (if retention < Hour \<or> limit < 1 \<or> limit > 1000
      then ((0, Some (NewError ''invalid outbox retention'')), db)
      else case round_trip out (sql_purge at locked retention (nat limit) db) db of
        (Inl e, db') \<Rightarrow> ((0, Some (databaseError ''outbox retention failed'' e)), db')
      | (Inr n, db') \<Rightarrow> ((n, None), db'))"

section \<open>Invariant\<close>

text \<open>
  Row ids are unique and positive, attempts count up from zero, and every notification carries a
  version its product has reached.
\<close>

definition committed :: "database \<Rightarrow> string \<Rightarrow> int" where
  "committed db key = (case db_products db key of None \<Rightarrow> 0 | Some p \<Rightarrow> prod_version p)"

definition row_ok :: "database \<Rightarrow> outbox_row \<Rightarrow> bool" where
  "row_ok db r \<longleftrightarrow>
     0 < row_id r \<and> row_id r < db_nextId db \<and> 0 \<le> row_attempts r \<and>
     0 < row_version r \<and> row_version r \<le> committed db (row_key r) \<and>
     (row_leased r \<noteq> None \<longrightarrow> row_delivered r = None)"

definition db_inv :: "database \<Rightarrow> bool" where
  "db_inv db \<longleftrightarrow>
     0 < db_nextId db \<and> distinct (map row_id (db_outbox db)) \<and> list_all (row_ok db) (db_outbox db) \<and>
     (\<forall>key p. db_products db key = Some p \<longrightarrow> 0 < prod_version p \<and> prod_version p \<le> maxBigint)"

section \<open>Rows by id\<close>

definition row_at :: "database \<Rightarrow> int \<rightharpoonup> outbox_row" where
  "row_at db = map_of (map (\<lambda>r. (row_id r, r)) (db_outbox db))"

lemma row_at_mem: "row_at db i = Some r \<Longrightarrow> r \<in> set (db_outbox db) \<and> row_id r = i"
  by (auto simp: row_at_def dest!: map_of_SomeD)

lemma row_at_unique:
  "distinct (map row_id (db_outbox db)) \<Longrightarrow> r \<in> set (db_outbox db) \<Longrightarrow> row_at db (row_id r) = Some r"
  by (auto simp: row_at_def comp_def intro!: map_of_is_SomeI)

lemma row_at_None: "i \<notin> row_id ` set (db_outbox db) \<Longrightarrow> row_at db i = None"
  by (auto simp: row_at_def map_of_eq_None_iff)

lemma row_at_products [simp]: "row_at (db\<lparr>db_products := m\<rparr>) = row_at db"
  by (simp add: row_at_def)

lemma map_of_update:
  assumes "\<And>r. row_id (f r) = row_id r"
  shows "map_of (map ((\<lambda>r. (row_id r, r)) \<circ> f) rows) i = map_option f (map_of (map (\<lambda>r. (row_id r, r)) rows) i)"
  using assms by (induction rows) simp_all

lemma row_at_update:
  assumes "\<And>r. row_id (f r) = row_id r"
  shows "row_at (update_rows P f db) i = map_option (\<lambda>r. if P r then f r else r) (row_at db i)"
  using assms map_of_update [of "\<lambda>r. if P r then f r else r"] by (simp add: row_at_def update_rows_def)

lemma row_at_emit:
  assumes "list_all (row_ok db) (db_outbox db)"
  shows "row_at (emit clk key v db) i =
           (if i = db_nextId db
            then Some \<lparr>row_id = db_nextId db, row_key = key, row_version = v, row_created = clk 1,
                       row_available = clk 2, row_leased = None, row_attempts = 0, row_delivered = None\<rparr>
            else row_at db i)"
proof -
  have "row_at db (db_nextId db) = None"
    using assms by (intro row_at_None) (auto simp: list_all_iff row_ok_def)
  then show ?thesis
    by (auto simp: row_at_def emit_def map_add_def split: option.split)
qed

lemma map_of_filter_key:
  "map_of (map (\<lambda>r. (f r, r)) (filter (\<lambda>r. f r \<notin> A) xs)) k =
     (if k \<in> A then None else map_of (map (\<lambda>r. (f r, r)) xs) k)"
  by (induction xs) auto

section \<open>Statements change one product and announce it\<close>

definition emits :: "string \<Rightarrow> int \<Rightarrow> database \<Rightarrow> database \<Rightarrow> bool" where
  "emits key v db db' \<longleftrightarrow>
     v = committed db key + 1 \<and> v \<le> maxBigint \<and>
     (\<exists>p clk. prod_version p = v \<and> db' = emit clk key v (db\<lparr>db_products := (db_products db)(key \<mapsto> p)\<rparr>))"

definition stmt_ok :: "string \<Rightarrow> (goerror + int option \<times> database) \<Rightarrow> database \<Rightarrow> bool" where
  "stmt_ok key stmt db \<longleftrightarrow>
     (\<forall>r db'. stmt = Inr (r, db') \<longrightarrow> (case r of None \<Rightarrow> db' = db | Some v \<Rightarrow> emits key v db db'))"

lemma emitsI:
  "v = committed db key + 1 \<Longrightarrow> v \<le> maxBigint \<Longrightarrow> prod_version p = v \<Longrightarrow>
   emits key v db (emit clk key v (db\<lparr>db_products := (db_products db)(key \<mapsto> p)\<rparr>))"
  unfolding emits_def by blast

lemma change_row_ok:
  "db_products db key = Some p \<Longrightarrow> stmt_ok key (change_row clk key val deleted (prod_version p) db) db"
  by (auto simp: stmt_ok_def change_row_def committed_def Let_def intro!: emitsI split: if_splits)

lemma insert_row_ok: "db_products db key = None \<Longrightarrow> stmt_ok key (insert_row clk key val db) db"
  by (auto simp: stmt_ok_def insert_row_def committed_def Let_def maxBigint_def intro!: emitsI)

lemma nothing_ok: "stmt_ok key (Inr (None, db)) db"
  by (simp add: stmt_ok_def)

lemmas sql_defs = sql_put_def sql_create_def sql_update_def sql_delete_def sql_delete_if_def

lemma sql_ok:
  "stmt_ok key (sql_put clk key val db) db" "stmt_ok key (sql_create clk key val db) db"
  "stmt_ok key (sql_update clk key val expected db) db" "stmt_ok key (sql_delete clk key db) db"
  "stmt_ok key (sql_delete_if clk key expected db) db"
  by (auto simp: sql_defs change_row_ok insert_row_ok nothing_ok split: option.split)

lemma round_trip_emits:
  assumes "stmt_ok key stmt db" "round_trip out stmt db = (r, db')"
  shows "db' = db \<or> (\<exists>v. emits key v db db')"
proof (cases "db' = db")
  case False
  then obtain x where "stmt = Inr (x, db')"
    using assms(2) by (auto simp: round_trip_def split: outcome.splits sum.splits)
  then show ?thesis
    using assms(1) by (cases x) (auto simp: stmt_ok_def)
qed simp

lemma committed_emits:
  "emits key v db db' \<Longrightarrow> committed db' j = (if j = key then v else committed db j)"
  by (auto simp: emits_def committed_def emit_def)

lemma emits_mono: "emits key v db db' \<Longrightarrow> committed db j \<le> committed db' j"
  by (auto simp: committed_emits) (simp add: emits_def)

lemma emits_nextId: "emits key v db db' \<Longrightarrow> db_nextId db' = db_nextId db + 1"
  by (auto simp: emits_def emit_def)

lemma emits_row_ok: "emits key v db db' \<Longrightarrow> row_ok db r \<Longrightarrow> row_ok db' r"
  using emits_mono [of key v db db' "row_key r"] emits_nextId [of key v db db'] by (auto simp: row_ok_def)

lemma committed_nonneg: "db_inv db \<Longrightarrow> 0 \<le> committed db key"
  by (auto simp: db_inv_def committed_def split: option.split dest: less_imp_le)

lemma emits_inv:
  assumes "db_inv db" "emits key v db db'"
  shows "db_inv db'"
proof -
  obtain p clk where e: "v = committed db key + 1" "v \<le> maxBigint" "prod_version p = v"
      "db' = emit clk key v (db\<lparr>db_products := (db_products db)(key \<mapsto> p)\<rparr>)"
    using assms(2) by (auto simp: emits_def)
  have v: "0 < v" using e(1) committed_nonneg [OF assms(1), of key] by simp
  let ?new = "\<lparr>row_id = db_nextId db, row_key = key, row_version = v, row_created = clk 1,
      row_available = clk 2, row_leased = None, row_attempts = 0, row_delivered = None\<rparr>"
  have out: "db_outbox db' = db_outbox db @ [?new]" "db_nextId db' = db_nextId db + 1"
    by (simp_all add: e(4) emit_def)
  have "row_ok db' ?new"
    using assms(1) v committed_emits [OF assms(2), of key] by (simp add: row_ok_def out db_inv_def)
  moreover have "list_all (row_ok db') (db_outbox db)"
    using assms(1) emits_row_ok [OF assms(2)] by (auto simp: db_inv_def list_all_iff)
  moreover have "db_nextId db \<notin> row_id ` set (db_outbox db)"
    using assms(1) by (auto simp: db_inv_def list_all_iff row_ok_def)
  moreover have "\<forall>j p'. db_products db' j = Some p' \<longrightarrow> 0 < prod_version p' \<and> prod_version p' \<le> maxBigint"
    using assms(1) e v by (auto simp: db_inv_def emit_def)
  ultimately show ?thesis
    using assms(1) out by (auto simp: db_inv_def)
qed

section \<open>Queue operations\<close>

lemma candidate_spec: "candidate at locked db = Some r \<Longrightarrow> r \<in> set (db_outbox db) \<and> claimable at locked r"
proof -
  assume *: "candidate at locked db = Some r"
  let ?xs = "sort_key (\<lambda>r. (row_available r, row_id r)) (filter (claimable at locked) (db_outbox db))"
  have "?xs \<noteq> [] \<and> r = hd ?xs" using * by (auto simp: candidate_def simp del: sort_key_simps split: list.splits)
  then have "r \<in> set ?xs" by (metis list.set_sel(1))
  then show ?thesis by (simp only: set_sort set_filter mem_Collect_eq)
qed

lemma update_rows_fields [simp]:
  "db_products (update_rows P f db) = db_products db" "db_nextId (update_rows P f db) = db_nextId db"
  "committed (update_rows P f db) = committed db"
  by (simp_all add: update_rows_def committed_def fun_eq_iff)

lemma update_rows_inv:
  assumes "db_inv db" "\<And>r. row_id (f r) = row_id r"
    and "\<And>r. r \<in> set (db_outbox db) \<Longrightarrow> P r \<Longrightarrow> row_ok db r \<Longrightarrow> row_ok db (f r)"
  shows "db_inv (update_rows P f db)"
proof -
  have ids: "map row_id (db_outbox (update_rows P f db)) = map row_id (db_outbox db)"
    using assms(2) by (simp add: update_rows_def)
  have ok: "row_ok (update_rows P f db) = row_ok db"
    by (simp add: row_ok_def fun_eq_iff)
  show ?thesis
    using assms(1,3) by (auto simp: db_inv_def ids ok list_all_iff) (auto simp: update_rows_def)
qed

lemma claim_rows:
  assumes "sql_claim at setAt locked lease db = Inr (ev, db')"
  shows "(ev = None \<and> db' = db) \<or>
         (\<exists>r. candidate at locked db = Some r \<and> row_attempts r < maxBigint \<and>
              ev = Some \<lparr>ev_ID = row_id r, ev_Key = row_key r, ev_Version = row_version r,
                         ev_Attempt = row_attempts r + 1\<rparr> \<and>
              db' = update_rows (\<lambda>e. row_id e = row_id r)
                      (\<lambda>e. e\<lparr>row_attempts := row_attempts e + 1, row_leased := Some (setAt + lease)\<rparr>) db)"
  using assms by (auto simp: sql_claim_def split: option.splits if_splits)

lemma sql_claim_inv:
  assumes "db_inv db" "sql_claim at setAt locked lease db = Inr (ev, db')"
  shows "db_inv db'"
proof -
  consider "db' = db" | r where "candidate at locked db = Some r"
      "db' = update_rows (\<lambda>e. row_id e = row_id r)
               (\<lambda>e. e\<lparr>row_attempts := row_attempts e + 1, row_leased := Some (setAt + lease)\<rparr>) db"
    using claim_rows [OF assms(2)] by blast
  then show ?thesis
  proof cases
    case 2
    note r = candidate_spec [OF 2(1)]
    have "e = r" if "e \<in> set (db_outbox db)" "row_id e = row_id r" for e
      using that r assms(1) by (auto simp: db_inv_def distinct_map dest: inj_onD)
    then show ?thesis
      unfolding 2(2) using r by (intro update_rows_inv assms(1)) (auto simp: row_ok_def claimable_def)
  qed (simp add: assms(1))
qed

lemma sql_finish_inv:
  assumes "db_inv db" "sql_finish at setAt ev delivered retry db = Inr (n, db')"
  shows "db_inv db'"
proof -
  have "db' = update_rows (finishable at ev)
            (\<lambda>r. r\<lparr>row_delivered := (if delivered then Some setAt else None),
                   row_available := (if delivered then row_available r else setAt + retry),
                   row_leased := None\<rparr>) db"
    using assms(2) by (simp add: sql_finish_def)
  then show ?thesis
    by (simp only:) (intro update_rows_inv assms(1), auto simp: row_ok_def)
qed

lemma sql_purge_inv:
  assumes "db_inv db" "sql_purge at locked retention limit db = Inr (n, db')"
  shows "db_inv db'"
proof -
  obtain P where db': "db' = db\<lparr>db_outbox := filter P (db_outbox db)\<rparr>"
    using assms(2) by (auto simp: sql_purge_def Let_def)
  have "row_ok db' = row_ok db" by (simp add: db' row_ok_def committed_def fun_eq_iff)
  then show ?thesis
    using assms(1) by (auto simp: db' db_inv_def list_all_iff distinct_map intro: inj_on_subset)
qed

lemma purge_ids_delivered:
  assumes "i \<in> set (purge_ids at locked retention limit db)"
  shows "\<exists>r\<in>set (db_outbox db). row_id r = i \<and> purgeable (at i) retention r"
  using assms by (fastforce simp: purge_ids_def dest: in_set_takeD)

end
