(* ===== verification/Store_Run.thy ===== *)
theory Store_Run
  imports Outbox_Store
begin

text \<open>
  Runs of the store: any sequence of the mutations of \<open>postgres.go\<close> and the queue operations of
  \<open>outbox.go\<close>, by any number of replicas and workers, each with its own driver outcome and clock
  readings. A statement is a transaction, so a run of the store is a list of calls. What is shown:
  compare-and-set, one notification for every committed version, fencing of old leases, and that
  no notification is lost.
\<close>

section \<open>Operations\<close>

datatype store_op =
    DoPut outcome gocontext gotime "nat \<Rightarrow> gotime" string bytes
  | DoPutIf outcome gocontext gotime "nat \<Rightarrow> gotime" string bytes int
  | DoDelete outcome gocontext gotime "nat \<Rightarrow> gotime" string
  | DoDeleteIf outcome gocontext gotime "nat \<Rightarrow> gotime" string int
  | DoClaim outcome "int \<Rightarrow> gotime" gotime "int list" duration
  | DoFinish outcome "int \<Rightarrow> gotime" gotime Event bool duration
  | DoPurge outcome "int \<Rightarrow> gotime" "int list" duration int

fun store_step :: "store_op \<Rightarrow> database \<Rightarrow> database" where
  "store_step (DoPut out ctx now clk key val) db = snd (store_Put out ctx now clk key val db)"
| "store_step (DoPutIf out ctx now clk key val expected) db = snd (PutIfVersion out ctx now clk key val expected db)"
| "store_step (DoDelete out ctx now clk key) db = snd (store_Delete out ctx now clk key db)"
| "store_step (DoDeleteIf out ctx now clk key expected) db = snd (DeleteIfVersion out ctx now clk key expected db)"
| "store_step (DoClaim out at setAt locked lease) db = snd (Claim out at setAt locked lease db)"
| "store_step (DoFinish out at setAt ev delivered retry) db = snd (Finish out at setAt ev delivered retry db)"
| "store_step (DoPurge out at locked retention limit) db = snd (PurgeDelivered out at locked retention limit db)"

definition run_store :: "store_op list \<Rightarrow> database \<Rightarrow> database" where
  "run_store ops db = fold store_step ops db"

lemma run_store_simps [simp]:
  "run_store [] db = db" "run_store (op # ops) db = run_store ops (store_step op db)"
  "run_store (ops1 @ ops2) db = run_store ops2 (run_store ops1 db)"
  by (simp_all add: run_store_def)

fun mutates :: "store_op \<Rightarrow> string option" where
  "mutates (DoPut _ _ _ _ key _) = Some key"
| "mutates (DoPutIf _ _ _ _ key _ _) = Some key"
| "mutates (DoDelete _ _ _ _ key) = Some key"
| "mutates (DoDeleteIf _ _ _ _ key _) = Some key"
| "mutates _ = None"

fun delivers :: "int \<Rightarrow> store_op \<Rightarrow> bool" where
  "delivers i (DoFinish _ _ _ ev delivered _) \<longleftrightarrow> delivered \<and> ev_ID ev = i"
| "delivers i _ \<longleftrightarrow> False"

text \<open>A small database: key \<open>a\<close> was written once, its notification is pending.\<close>

definition emptyDb :: database where
  "emptyDb = \<lparr>db_products = Map.empty, db_outbox = [], db_nextId = 1\<rparr>"

definition sampleDb :: database where
  "sampleDb = run_store [DoPut Replied Background 0 (\<lambda>_. 0) ''a'' ''x''] emptyDb"

section \<open>One operation\<close>

lemma round_trip_db:
  "snd (round_trip out stmt db) = db \<or> (\<exists>r. stmt = Inr (r, snd (round_trip out stmt db)))"
  by (auto simp: round_trip_def split: outcome.split sum.split)

lemma mutation_step:
  assumes "mutates op = Some key"
  shows "store_step op db = db \<or> (\<exists>v. emits key v db (store_step op db))"
proof -
  note rt = round_trip_emits [OF sql_ok(1)] round_trip_emits [OF sql_ok(2)] round_trip_emits [OF sql_ok(3)]
    round_trip_emits [OF sql_ok(4)] round_trip_emits [OF sql_ok(5)]
  show ?thesis
  proof (cases op)
    case (DoPut out ctx now clk k val)
    then show ?thesis using assms rt(1)
      by (auto simp: store_Put_def split: option.split prod.split sum.split)
  next
    case (DoPutIf out ctx now clk k val expected)
    then show ?thesis using assms rt(2,3)
      by (auto simp: PutIfVersion_def split: option.split prod.split)
  next
    case (DoDelete out ctx now clk k)
    then show ?thesis using assms rt(4)
      by (auto simp: store_Delete_def split: option.split prod.split sum.split)
  next
    case (DoDeleteIf out ctx now clk k expected)
    then show ?thesis using assms rt(5)
      by (auto simp: DeleteIfVersion_def split: option.split prod.split)
  qed (use assms in auto)
qed

lemma Claim_db:
  "snd (Claim out at setAt locked lease db) = db \<or>
   (\<exists>ev. sql_claim at setAt locked lease db = Inr (ev, snd (Claim out at setAt locked lease db)))"
  using round_trip_db [of out "sql_claim at setAt locked lease db" db]
  by (auto simp: Claim_def split: prod.split sum.split)

lemma Finish_db:
  "snd (Finish out at setAt ev delivered retry db) = db \<or>
   (\<exists>n. sql_finish at setAt ev delivered retry db = Inr (n, snd (Finish out at setAt ev delivered retry db)))"
  using round_trip_db [of out "sql_finish at setAt ev delivered retry db" db]
  by (auto simp: Finish_def split: prod.split sum.split)

lemma Purge_db:
  "snd (PurgeDelivered out at locked retention limit db) = db \<or>
   (\<exists>n. sql_purge at locked retention (nat limit) db = Inr (n, snd (PurgeDelivered out at locked retention limit db)))"
  using round_trip_db [of out "sql_purge at locked retention (nat limit) db" db]
  by (auto simp: PurgeDelivered_def split: prod.split sum.split)

lemma store_step_inv [intro]:
  assumes "db_inv db"
  shows "db_inv (store_step op db)"
proof (cases "mutates op")
  case None
  show ?thesis
  proof (cases op)
    case (DoClaim out at setAt locked lease)
    then show ?thesis
      using Claim_db [of out at setAt locked lease db] sql_claim_inv [OF assms] assms by auto
  next
    case (DoFinish out at setAt ev delivered retry)
    then show ?thesis
      using Finish_db [of out at setAt ev delivered retry db] sql_finish_inv [OF assms] assms by auto
  next
    case (DoPurge out at locked retention limit)
    then show ?thesis
      using Purge_db [of out at locked retention limit db] sql_purge_inv [OF assms] assms by auto
  qed (use None in auto)
next
  case (Some key)
  then show ?thesis
    using mutation_step [of op key db] emits_inv [OF assms] assms by auto
qed

lemma run_store_inv [intro]: "db_inv db \<Longrightarrow> db_inv (run_store ops db)"
  by (induction ops arbitrary: db) auto

lemma emptyDb_inv: "db_inv emptyDb"
  by (simp add: emptyDb_def db_inv_def)

lemma sampleDb_inv: "db_inv sampleDb"
  unfolding sampleDb_def by (rule run_store_inv [OF emptyDb_inv])

section \<open>One row through a run\<close>

text \<open>
  A row keeps its id, key and version, its attempts only grow, and it stays undelivered until a
  completion that says delivered; only delivered rows disappear.
\<close>

definition same_event :: "outbox_row \<Rightarrow> outbox_row \<Rightarrow> bool" where
  "same_event r r' \<longleftrightarrow>
     row_id r' = row_id r \<and> row_key r' = row_key r \<and> row_version r' = row_version r \<and>
     row_created r' = row_created r \<and> row_attempts r \<le> row_attempts r'"

lemma same_event_refl [simp]: "same_event r r"
  by (simp add: same_event_def)

lemma same_event_trans: "same_event r s \<Longrightarrow> same_event s t \<Longrightarrow> same_event r t"
  by (auto simp: same_event_def)

definition row_kept :: "bool \<Rightarrow> outbox_row option \<Rightarrow> outbox_row option \<Rightarrow> bool" where
  "row_kept fin x y \<longleftrightarrow>
     (\<forall>r. x = Some r \<longrightarrow>
        (case y of
           None \<Rightarrow> row_delivered r \<noteq> None
         | Some r' \<Rightarrow> same_event r r' \<and> (row_delivered r = None \<longrightarrow> row_delivered r' = None \<or> fin)))"

lemma row_kept_refl [simp]: "row_kept fin x x"
  by (auto simp: row_kept_def split: option.split)

lemma emits_row_at:
  assumes "db_inv db" "emits key v db db'" "row_at db i = Some r"
  shows "row_at db' i = Some r"
proof -
  obtain p clk where db': "db' = emit clk key v (db\<lparr>db_products := (db_products db)(key \<mapsto> p)\<rparr>)"
    using assms(2) by (auto simp: emits_def)
  have "i \<noteq> db_nextId db"
    using row_at_mem [OF assms(3)] assms(1) by (auto simp: db_inv_def list_all_iff row_ok_def)
  then show ?thesis
    using assms(3) by (auto simp: db' row_at_def emit_def map_add_def split: option.split)
qed

lemma claim_row_kept:
  assumes "sql_claim at setAt locked lease db = Inr (ev, db')"
  shows "row_kept fin (row_at db i) (row_at db' i)"
  using claim_rows [OF assms]
  by (auto simp: row_at_update row_kept_def same_event_def split: option.split)

lemma finish_rows:
  "sql_finish at setAt ev delivered retry db = Inr (n, db') \<Longrightarrow>
   db' = update_rows (finishable at ev)
           (\<lambda>r. r\<lparr>row_delivered := (if delivered then Some setAt else None),
                  row_available := (if delivered then row_available r else setAt + retry),
                  row_leased := None\<rparr>) db"
  by (simp add: sql_finish_def)

lemma finish_row_kept:
  assumes "sql_finish at setAt ev delivered retry db = Inr (n, db')"
  shows "row_kept (delivered \<and> ev_ID ev = i) (row_at db i) (row_at db' i)"
proof (cases "row_at db i")
  case (Some r)
  have "row_id r = i" using row_at_mem [OF Some] by simp
  then show ?thesis
    using assms Some by (auto simp: sql_finish_def row_at_update row_kept_def same_event_def finishable_def)
qed (simp add: row_kept_def)

lemma row_at_purge:
  assumes "sql_purge at locked retention limit db = Inr (n, db')"
  shows "row_at db' i = (if i \<in> set (purge_ids at locked retention limit db) then None else row_at db i)"
  using assms map_of_filter_key [of row_id "set (purge_ids at locked retention limit db)" "db_outbox db" i]
  by (auto simp: sql_purge_def Let_def row_at_def)

lemma purge_row_kept:
  assumes "db_inv db" "sql_purge at locked retention limit db = Inr (n, db')"
  shows "row_kept fin (row_at db i) (row_at db' i)"
proof (cases "i \<in> set (purge_ids at locked retention limit db)")
  case True
  obtain r where r: "r \<in> set (db_outbox db)" "row_id r = i" "purgeable (at i) retention r"
    using purge_ids_delivered [OF True] by blast
  have "row_at db i = Some r" using row_at_unique [of db r] r assms(1) by (auto simp: db_inv_def)
  then show ?thesis
    using r(3) by (auto simp: row_kept_def purgeable_def row_at_purge [OF assms(2)] True split: option.splits)
qed (simp add: row_at_purge [OF assms(2)])

lemma step_row_kept:
  assumes "db_inv db"
  shows "row_kept (delivers i op) (row_at db i) (row_at (store_step op db) i)"
proof (cases "mutates op")
  case None
  show ?thesis
  proof (cases op)
    case (DoClaim out at setAt locked lease)
    then show ?thesis
      using Claim_db [of out at setAt locked lease db] claim_row_kept by auto
  next
    case (DoFinish out at setAt ev delivered retry)
    then show ?thesis
      using Finish_db [of out at setAt ev delivered retry db] finish_row_kept [of at setAt ev delivered retry db]
      by auto
  next
    case (DoPurge out at locked retention limit)
    then show ?thesis
      using Purge_db [of out at locked retention limit db] purge_row_kept [OF assms] by auto
  qed (use None in auto)
next
  case (Some key)
  have "row_at (store_step op db) i = Some r" if "row_at db i = Some r" for r
    using mutation_step [OF Some, of db] emits_row_at [OF assms] that by metis
  then show ?thesis by (auto simp: row_kept_def)
qed

lemma run_undelivered:
  assumes "db_inv db" "row_at db i = Some r" "row_delivered r = None"
    and "\<not> list_ex (delivers i) ops"
  shows "\<exists>r'. row_at (run_store ops db) i = Some r' \<and> same_event r r' \<and> row_delivered r' = None"
  using assms
proof (induction ops arbitrary: db r)
  case (Cons op ops)
  have "row_kept False (row_at db i) (row_at (store_step op db) i)"
    using step_row_kept [OF Cons.prems(1), of i op] Cons.prems(4) by simp
  then obtain r1 where r1: "row_at (store_step op db) i = Some r1" "same_event r r1" "row_delivered r1 = None"
    using Cons.prems(2,3) by (auto simp: row_kept_def split: option.splits)
  show ?case
    using Cons.IH [OF store_step_inv [OF Cons.prems(1)] r1(1,3)] Cons.prems(4) same_event_trans [OF r1(2)]
    by (auto intro: same_event_trans)
qed simp

lemma update_rows_new: "row_at db i = None \<Longrightarrow> (\<And>r. row_id (f r) = row_id r) \<Longrightarrow> row_at (update_rows P f db) i = None"
  by (simp add: row_at_update)

lemma claim_new:
  assumes "sql_claim at setAt locked lease db = Inr (ev, db')"
  shows "db_nextId db' = db_nextId db" "row_at db i = None \<Longrightarrow> row_at db' i = None"
  using claim_rows [OF assms] by (auto simp: row_at_update)

lemma finish_new:
  assumes "sql_finish at setAt ev delivered retry db = Inr (n, db')"
  shows "db_nextId db' = db_nextId db" "row_at db i = None \<Longrightarrow> row_at db' i = None"
  using finish_rows [OF assms] by (auto simp: row_at_update)

lemma purge_new:
  assumes "sql_purge at locked retention limit db = Inr (n, db')"
  shows "db_nextId db' = db_nextId db" "row_at db i = None \<Longrightarrow> row_at db' i = None"
  using assms row_at_purge [OF assms] by (auto simp: sql_purge_def Let_def)

lemma emits_new: "emits key v db db' \<Longrightarrow> row_at db i = None \<Longrightarrow> i < db_nextId db \<Longrightarrow> row_at db' i = None"
  by (auto simp: emits_def row_at_def emit_def map_add_def split: option.split)

lemma step_new:
  "db_nextId db \<le> db_nextId (store_step op db)" (is ?mono)
  "row_at db i = None \<Longrightarrow> i < db_nextId db \<Longrightarrow> row_at (store_step op db) i = None" (is "?gone \<Longrightarrow> ?below \<Longrightarrow> ?still")
proof -
  have "?mono \<and> (?gone \<longrightarrow> ?below \<longrightarrow> ?still)"
  proof (cases "mutates op")
    case None
    show ?thesis
    proof (cases op)
      case (DoClaim out at setAt locked lease)
      then show ?thesis using Claim_db [of out at setAt locked lease db] by (auto simp: claim_new)
    next
      case (DoFinish out at setAt ev delivered retry)
      then show ?thesis using Finish_db [of out at setAt ev delivered retry db] by (auto simp: finish_new)
    next
      case (DoPurge out at locked retention limit)
      then show ?thesis using Purge_db [of out at locked retention limit db] by (auto simp: purge_new)
    qed (use None in auto)
  next
    case (Some key)
    then show ?thesis
      using mutation_step [OF Some, of db] by (auto simp: emits_new emits_nextId)
  qed
  then show ?mono "?gone \<Longrightarrow> ?below \<Longrightarrow> ?still" by blast+
qed

section \<open>Fencing\<close>

definition fenced :: "int \<Rightarrow> int \<Rightarrow> database \<Rightarrow> bool" where
  "fenced i a db \<longleftrightarrow> i < db_nextId db \<and> (\<forall>r. row_at db i = Some r \<longrightarrow> a \<le> row_attempts r)"

lemma step_fenced:
  assumes "db_inv db" "fenced i a db"
  shows "fenced i a (store_step op db)"
proof (cases "row_at db i")
  case None
  then show ?thesis using step_new(1) [of db op] step_new(2) [of db i op] assms(2) by (auto simp: fenced_def)
next
  case (Some r)
  then show ?thesis
    using step_row_kept [OF assms(1), of i op] step_new(1) [of db op] assms(2)
    by (auto simp: fenced_def row_kept_def same_event_def)
qed

lemma run_fenced: "db_inv db \<Longrightarrow> fenced i a db \<Longrightarrow> fenced i a (run_store ops db)"
  by (induction ops arbitrary: db) (auto intro: step_fenced)

lemma Claim_found:
  assumes "Claim out at setAt locked lease db = ((ev, True, None), db')" "db_inv db"
  shows "\<exists>r. row_at db (ev_ID ev) = Some r \<and> claimable at locked r \<and> ev_Attempt ev = row_attempts r + 1 \<and>
             ev_Key ev = row_key r \<and> ev_Version ev = row_version r \<and>
             row_at db' (ev_ID ev) = Some (r\<lparr>row_attempts := row_attempts r + 1, row_leased := Some (setAt + lease)\<rparr>)"
proof -
  have "sql_claim at setAt locked lease db = Inr (Some ev, db')"
    using assms(1) by (auto simp: Claim_def scan_row_def round_trip_def
        split: if_splits outcome.splits sum.splits option.splits prod.splits)
  from claim_rows [OF this] obtain r where r: "candidate at locked db = Some r"
      "ev = \<lparr>ev_ID = row_id r, ev_Key = row_key r, ev_Version = row_version r, ev_Attempt = row_attempts r + 1\<rparr>"
      "db' = update_rows (\<lambda>e. row_id e = row_id r)
               (\<lambda>e. e\<lparr>row_attempts := row_attempts e + 1, row_leased := Some (setAt + lease)\<rparr>) db"
    by auto
  have "row_at db (row_id r) = Some r"
    using row_at_unique candidate_spec [OF r(1)] assms(2) by (auto simp: db_inv_def)
  then show ?thesis
    using candidate_spec [OF r(1)] by (simp add: r(2,3) row_at_update)
qed

lemma Claim_fences:
  assumes "Claim out at setAt locked lease db = ((ev, True, None), db')" "db_inv db"
  shows "fenced (ev_ID ev) (ev_Attempt ev) db'"
proof -
  obtain r where r: "row_at db' (ev_ID ev) = Some r" "row_attempts r = ev_Attempt ev"
    using Claim_found [OF assms] by auto
  have "db_inv db'" using store_step_inv [OF assms(2), of "DoClaim out at setAt locked lease"] assms(1) by simp
  then show ?thesis
    using r row_at_mem [OF r(1)] by (auto simp: fenced_def db_inv_def list_all_iff row_ok_def)
qed

lemma update_rows_id:
  "(\<And>r. r \<in> set (db_outbox db) \<Longrightarrow> \<not> P r) \<Longrightarrow> update_rows P f db = db"
  by (simp add: update_rows_def map_idI)

lemma Finish_fenced:
  assumes "db_inv db" "fenced (ev_ID ev) a db" "ev_Attempt ev < a"
  shows "snd (Finish out at setAt ev delivered retry db) = db \<and> \<not> fst (fst (Finish out at setAt ev delivered retry db))"
proof -
  have no: "\<not> finishable at ev r" if "r \<in> set (db_outbox db)" for r
    using row_at_unique [of db r] that assms by (auto simp: db_inv_def fenced_def finishable_def)
  have none: "filter (finishable at ev) (db_outbox db) = []"
    using no by (simp add: filter_empty_conv)
  have "sql_finish at setAt ev delivered retry db = Inr (0, db)"
    by (simp add: sql_finish_def update_rows_id no none)
  then show ?thesis
    by (auto simp: Finish_def round_trip_def split: outcome.split)
qed

text \<open>
  C17: lease fencing. A worker that claimed an event and whose lease was then claimed by another
  worker can never complete it: whatever every replica does in between and afterwards, its
  \<open>Finish\<close> changes nothing and does not report ownership.
\<close>

theorem finish_fenced_after_reclaim:
  assumes "db_inv db"
    and "Claim out1 at1 setAt1 locked1 lease1 db = ((ev, True, None), db1)"
    and "Claim out2 at2 setAt2 locked2 lease2 (run_store ops1 db1) = ((ev', True, None), db2)"
    and "ev_ID ev' = ev_ID ev"
  shows "snd (Finish out at setAt ev delivered retry (run_store ops2 db2)) = run_store ops2 db2 \<and>
         \<not> fst (fst (Finish out at setAt ev delivered retry (run_store ops2 db2)))"
proof -
  have i1: "db_inv db1" using store_step_inv [OF assms(1), of "DoClaim out1 at1 setAt1 locked1 lease1"] assms(2) by simp
  have i2: "db_inv (run_store ops1 db1)" using i1 by (rule run_store_inv)
  have i3: "db_inv db2" using store_step_inv [OF i2, of "DoClaim out2 at2 setAt2 locked2 lease2"] assms(3) by simp
  have "fenced (ev_ID ev) (ev_Attempt ev) (run_store ops1 db1)"
    using Claim_fences [OF assms(2,1)] i1 by (rule run_fenced [rotated])
  then have "ev_Attempt ev < ev_Attempt ev'"
    using Claim_found [OF assms(3) i2] assms(4) by (auto simp: fenced_def)
  moreover have "fenced (ev_ID ev) (ev_Attempt ev') (run_store ops2 db2)"
    using run_fenced [OF i3 Claim_fences [OF assms(3) i2]] assms(4) by simp
  ultimately show ?thesis
    using Finish_fenced [OF run_store_inv [OF i3]] by blast
qed

definition sampleClaim :: "gotime \<Rightarrow> database \<Rightarrow> (Event \<times> bool \<times> goerror option) \<times> database" where
  "sampleClaim t db = Claim Replied (\<lambda>_. t) t [] Second db"

definition sampleEvent :: "int \<Rightarrow> Event" where
  "sampleEvent n = \<lparr>ev_ID = 1, ev_Key = ''a'', ev_Version = 1, ev_Attempt = n\<rparr>"

lemma sample_key: "ValidateKey ''a'' = None"
  by code_simp

lemma sampleDb_eq:
  "sampleDb =
     \<lparr>db_products = [''a'' \<mapsto> \<lparr>prod_value = ''x'', prod_version = 1, prod_deleted = False, prod_updated = 0\<rparr>],
      db_outbox = [\<lparr>row_id = 1, row_key = ''a'', row_version = 1, row_created = 0, row_available = 0,
                    row_leased = None, row_attempts = 0, row_delivered = None\<rparr>],
      db_nextId = 2\<rparr>"
  by (simp add: sampleDb_def emptyDb_def store_Put_def validateValue_def sample_key MaxValueBytes_def
      round_trip_def sql_put_def insert_row_def emit_def)

lemmas claim_simps = Claim_def sql_claim_def candidate_def claimable_def round_trip_def scan_row_def update_rows_def
  Second_def Minute_def maxBigint_def

lemma sampleClaim_first: "fst (sampleClaim 1 sampleDb) = (sampleEvent 1, True, None)"
  by (simp add: sampleClaim_def sampleDb_eq claim_simps sampleEvent_def)

lemma sampleClaim_second: "fst (sampleClaim (2 * Second) (snd (sampleClaim 1 sampleDb))) = (sampleEvent 2, True, None)"
  by (simp add: sampleClaim_def sampleDb_eq claim_simps sampleEvent_def)

theorem finish_fenced_after_reclaim_witness:
  "let db1 = snd (sampleClaim 1 sampleDb); db2 = snd (sampleClaim (2 * Second) db1)
   in snd (Finish Replied (\<lambda>_. 2 * Second) (2 * Second) (sampleEvent 1) True 0 db2) = db2"
proof -
  let ?db1 = "snd (sampleClaim 1 sampleDb)" and ?db2 = "snd (sampleClaim (2 * Second) (snd (sampleClaim 1 sampleDb)))"
  have 1: "Claim Replied (\<lambda>_. 1) 1 [] Second sampleDb = ((sampleEvent 1, True, None), ?db1)"
    using sampleClaim_first by (simp add: prod_eq_iff sampleClaim_def)
  have 2: "Claim Replied (\<lambda>_. 2 * Second) (2 * Second) [] Second (run_store [] ?db1) = ((sampleEvent 2, True, None), ?db2)"
    using sampleClaim_second by (simp add: prod_eq_iff sampleClaim_def)
  show ?thesis
    using finish_fenced_after_reclaim [OF sampleDb_inv 1 2, where ?ops2.0 = "[]"] by (simp add: sampleEvent_def Let_def)
qed

section \<open>Every committed version is announced\<close>

lemma purge_committed:
  "sql_purge at locked retention limit db = Inr (n, db') \<Longrightarrow> committed db' = committed db"
  by (auto simp: sql_purge_def Let_def committed_def fun_eq_iff)

lemma nonmutation_products:
  assumes "mutates op = None"
  shows "committed (store_step op db) = committed db"
proof (cases op)
  case (DoClaim out at setAt locked lease)
  then show ?thesis using Claim_db [of out at setAt locked lease db] by (auto dest!: claim_rows)
next
  case (DoFinish out at setAt ev delivered retry)
  then show ?thesis using Finish_db [of out at setAt ev delivered retry db] by (auto dest!: finish_rows)
next
  case (DoPurge out at locked retention limit)
  then show ?thesis using Purge_db [of out at locked retention limit db]
    by (auto dest!: purge_committed)
qed (use assms in auto)

lemma emits_version: "emits key v db db' \<Longrightarrow> v = committed db key + 1"
  by (simp add: emits_def)

lemma step_committed:
  obtains "committed (store_step op db) = committed db"
  | key v where "emits key v db (store_step op db)"
  using nonmutation_products [of op db] mutation_step [of op _ db] by (cases "mutates op") fastforce+

lemma step_mono: "committed db key \<le> committed (store_step op db) key"
  by (rule step_committed [of op db]) (auto intro: emits_mono)

lemma run_mono: "committed db key \<le> committed (run_store ops db) key"
  by (induction ops arbitrary: db) (auto intro: order_trans [OF step_mono])

lemma emits_new_row:
  assumes "db_inv db" "emits key v db db'"
  shows "\<exists>r. row_at db' (db_nextId db) = Some r \<and> row_key r = key \<and> row_version r = v \<and> row_delivered r = None"
proof -
  obtain p clk where db': "db' = emit clk key v (db\<lparr>db_products := (db_products db)(key \<mapsto> p)\<rparr>)"
    using assms(2) by (auto simp: emits_def)
  have "row_at db (db_nextId db) = None"
    using assms(1) by (intro row_at_None) (auto simp: db_inv_def list_all_iff row_ok_def)
  then show ?thesis
    by (auto simp: db' row_at_def emit_def map_add_def)
qed

text \<open>
  C16: no notification is lost. Take any run of mutations, claims, completions and purges by any
  number of replicas, with any driver failures. For every version a product reached during the
  run, the notification of that version was stored in the transaction that committed it, under
  some id, and at the end it is still stored undelivered unless a completion reported it delivered.
\<close>

theorem no_notification_lost:
  assumes "db_inv db" "committed db key < v" "v \<le> committed (run_store ops db) key"
  shows "\<exists>ops1 ops2 i r. ops = ops1 @ ops2 \<and>
           row_at (run_store ops1 db) i = Some r \<and> row_key r = key \<and> row_version r = v \<and> row_delivered r = None \<and>
           (list_ex (delivers i) ops2 \<or>
            (\<exists>r'. row_at (run_store ops db) i = Some r' \<and> same_event r r' \<and> row_delivered r' = None))"
  using assms
proof (induction ops arbitrary: db)
  case (Cons op ops)
  let ?db1 = "store_step op db"
  show ?case
  proof (cases "v \<le> committed ?db1 key")
    case True
    then obtain k u where em: "emits k u db ?db1"
      using Cons.prems(2) step_committed [of op db] by (metis not_le)
    moreover have "k = key" "u = v"
      using True Cons.prems(2) committed_emits [OF em, of key] emits_version [OF em] by (simp_all split: if_splits)
    ultimately have em: "emits key v db ?db1" by simp
    obtain r where r: "row_at ?db1 (db_nextId db) = Some r" "row_key r = key" "row_version r = v" "row_delivered r = None"
      using emits_new_row [OF Cons.prems(1) em] by blast
    then show ?thesis
      using run_undelivered [OF store_step_inv [OF Cons.prems(1)] r(1,4), of ops]
      by (intro exI [of _ "[op]"] exI [of _ ops] exI [of _ "db_nextId db"] exI [of _ r]) auto
  next
    case False
    then obtain ops1 ops2 i r where "ops = ops1 @ ops2" "row_at (run_store ops1 ?db1) i = Some r"
        "row_key r = key" "row_version r = v" "row_delivered r = None"
        "list_ex (delivers i) ops2 \<or>
         (\<exists>r'. row_at (run_store ops ?db1) i = Some r' \<and> same_event r r' \<and> row_delivered r' = None)"
      using Cons.IH [OF store_step_inv [OF Cons.prems(1)], of op] Cons.prems(3) by (auto simp: not_le)
    then show ?thesis
      by (intro exI [of _ "op # ops1"] exI [of _ ops2] exI [of _ i] exI [of _ r]) auto
  qed
qed simp

theorem no_notification_lost_witness:
  "\<exists>i r. row_at sampleDb i = Some r \<and> row_key r = ''a'' \<and> row_version r = 1 \<and> row_delivered r = None"
proof -
  define ops where "ops = [DoPut Replied Background 0 (\<lambda>_. 0) ''a'' ''x'']"
  have run: "run_store ops emptyDb = sampleDb" by (simp add: sampleDb_def ops_def)
  have 1: "committed emptyDb ''a'' < 1" by (simp add: emptyDb_def committed_def)
  have 2: "1 \<le> committed (run_store ops emptyDb) ''a''"
    unfolding run by (simp add: sampleDb_eq committed_def)
  obtain ops1 ops2 i r where *: "ops = ops1 @ ops2" "row_key r = ''a''" "row_version r = 1"
      "list_ex (delivers i) ops2 \<or>
       (\<exists>r'. row_at (run_store ops emptyDb) i = Some r' \<and> same_event r r' \<and> row_delivered r' = None)"
    using no_notification_lost [OF emptyDb_inv 1 2] by (elim exE conjE)
  have "set ops2 \<subseteq> set ops" using *(1) by simp
  then have "\<not> list_ex (delivers i) ops2" by (auto simp: list_ex_iff ops_def)
  with *(4) obtain r' where r': "row_at sampleDb i = Some r'" "same_event r r'" "row_delivered r' = None"
    unfolding run by (elim disjE exE conjE) (simp, rule that)
  have "row_key r' = ''a''" "row_version r' = 1"
    using r'(2) *(2,3) by (simp_all only: same_event_def)
  with r' show ?thesis by (intro exI conjI)
qed

lemma upto_append: "a \<le> b \<Longrightarrow> b \<le> c \<Longrightarrow> [a + 1..b] @ [b + 1..c] = [a + 1..(c::int)]"
  using upto_split1 [of "a + 1" "b + 1" c] by (cases "b = c") auto

lemma emits_outbox:
  "emits key v db db' \<Longrightarrow>
   map row_version (filter (\<lambda>r. row_key r = j) (db_outbox db')) =
   map row_version (filter (\<lambda>r. row_key r = j) (db_outbox db)) @ (if j = key then [v] else [])"
  by (auto simp: emits_def emit_def)

text \<open>
  C22: the outbox is exactly the history of versions. Whatever mutations run, with whatever driver
  failures, the notifications added for a key are the versions it went through, each once, in order.
\<close>

theorem outbox_is_version_history:
  assumes "list_all (\<lambda>op. mutates op \<noteq> None) ops"
  shows "map row_version (filter (\<lambda>r. row_key r = key) (db_outbox (run_store ops db))) =
         map row_version (filter (\<lambda>r. row_key r = key) (db_outbox db)) @
         [committed db key + 1 .. committed (run_store ops db) key]"
  using assms
proof (induction ops arbitrary: db)
  case (Cons op ops)
  let ?db1 = "store_step op db"
  obtain k where k: "mutates op = Some k" using Cons.prems by auto
  have one: "map row_version (filter (\<lambda>r. row_key r = key) (db_outbox ?db1)) =
          map row_version (filter (\<lambda>r. row_key r = key) (db_outbox db)) @ [committed db key + 1 .. committed ?db1 key]"
    using mutation_step [OF k, of db]
  proof
    assume "\<exists>v. emits k v db ?db1"
    then obtain v where em: "emits k v db ?db1" ..
    show ?thesis
      using emits_outbox [OF em, of key] committed_emits [OF em, of key] emits_version [OF em] by simp
  qed simp
  have "committed db key \<le> committed ?db1 key" "committed ?db1 key \<le> committed (run_store ops ?db1) key"
    by (rule step_mono run_mono)+
  then have "[committed db key + 1 .. committed ?db1 key] @ [committed ?db1 key + 1 .. committed (run_store ops ?db1) key] =
        [committed db key + 1 .. committed (run_store ops ?db1) key]"
    by (rule upto_append)
  then show ?case
    using Cons.IH [of ?db1] Cons.prems one by simp
qed simp

theorem outbox_is_version_history_witness:
  "map row_version (filter (\<lambda>r. row_key r = ''a'') (db_outbox sampleDb)) = [1 .. committed sampleDb ''a'']"
  using outbox_is_version_history [of "[DoPut Replied Background 0 (\<lambda>_. 0) ''a'' ''x'']" "''a''" emptyDb]
  by (simp add: sampleDb_def) (simp add: emptyDb_def committed_def)

section \<open>Compare and set\<close>

text \<open>The version readers see: 0 for a key that is absent or a tombstone.\<close>

definition reader_version :: "database \<Rightarrow> string \<Rightarrow> int" where
  "reader_version db key = (case sql_read key db of None \<Rightarrow> 0 | Some (_, v) \<Rightarrow> v)"

text \<open>
  The driver reports its own failures, never as the absence of a row and never as an error value of
  the cache package.
\<close>

definition driver_error :: "goerror \<Rightarrow> bool" where
  "driver_error e \<longleftrightarrow> \<not> errors_Is e ErrNoRows \<and> \<not> errors_Is e ErrPreconditionFailed"

fun driver_ok :: "outcome \<Rightarrow> bool" where
  "driver_ok Replied \<longleftrightarrow> True"
| "driver_ok (NotExecuted e) \<longleftrightarrow> driver_error e"
| "driver_ok (ReplyLost e) \<longleftrightarrow> driver_error e"

lemma reader_version_eq:
  "reader_version db key = (case db_products db key of None \<Rightarrow> 0 | Some p \<Rightarrow> if prod_deleted p then 0 else prod_version p)"
  by (simp add: reader_version_def sql_read_def split: option.split)

definition written :: "string \<Rightarrow> bytes option \<Rightarrow> database \<Rightarrow> database \<Rightarrow> bool" where
  "written key val db db' \<longleftrightarrow>
     emits key (committed db key + 1) db db' \<and>
     sql_read key db' = map_option (\<lambda>b. (b, committed db key + 1)) val"

definition cas :: "string \<Rightarrow> bytes option \<Rightarrow> int \<Rightarrow> (goerror + int option \<times> database) \<Rightarrow> database \<Rightarrow> bool" where
  "cas key val expected stmt db \<longleftrightarrow>
     (if reader_version db key = expected
      then \<exists>db'. stmt = Inr (Some (committed db key + 1), db') \<and> written key val db db'
      else stmt = Inr (None, db))"

lemma change_row_written:
  "db_products db key = Some p \<Longrightarrow> prod_version p < maxBigint \<Longrightarrow>
   \<exists>db'. change_row clk key val deleted (prod_version p) db = Inr (Some (prod_version p + 1), db') \<and>
         written key (if deleted then None else Some val) db db'"
  using change_row_ok [of db key p clk val deleted]
  by (auto simp: written_def change_row_def committed_def Let_def stmt_ok_def sql_read_def emit_def)

lemma insert_row_written:
  "db_products db key = None \<Longrightarrow>
   \<exists>db'. insert_row clk key val db = Inr (Some 1, db') \<and> written key (Some val) db db'"
  using insert_row_ok [of db key clk val]
  by (auto simp: written_def insert_row_def committed_def Let_def stmt_ok_def sql_read_def emit_def)

lemma sql_cas:
  assumes "db_inv db" "committed db key < maxBigint"
  shows "cas key (Some val) 0 (sql_create clk key val db) db"
    "0 < expected \<Longrightarrow> cas key (Some val) expected (sql_update clk key val expected db) db"
    "0 < expected \<Longrightarrow> cas key None expected (sql_delete_if clk key expected db) db"
proof -
  have pos: "0 < prod_version p" if "db_products db key = Some p" for p
    using assms(1) that by (auto simp: db_inv_def)
  note ch = change_row_written [where db = db and key = key]
  show "cas key (Some val) 0 (sql_create clk key val db) db"
    using pos assms(2) ch [where deleted = False and val = val] insert_row_written [of db key clk val]
    by (auto simp: cas_def reader_version_eq sql_create_def committed_def split: option.splits)
  show "cas key (Some val) expected (sql_update clk key val expected db) db" if "0 < expected"
    using that assms(2) ch [where deleted = False and val = val]
    by (auto simp: cas_def reader_version_eq sql_update_def committed_def split: option.splits)
  show "cas key None expected (sql_delete_if clk key expected db) db" if "0 < expected"
    using that assms(2) ch [where deleted = True and val = "[]"]
    by (auto simp: cas_def reader_version_eq sql_delete_if_def committed_def split: option.splits)
qed

lemma writeError_fails [simp]:
  "writeError ctx now (Some e) \<noteq> None" "\<exists>y. writeError ctx now (Some e) = Some y"
  by (simp_all add: writeError_def split: option.split)

lemma cas_reply:
  assumes "cas key val expected stmt db" "driver_ok out" "round_trip out stmt db = (r, db')"
    and "mutationResult ctx now (scan_row r) = (v, err)"
  shows "(err = None \<longleftrightarrow> out = Replied \<and> reader_version db key = expected) \<and>
         (err = None \<longrightarrow> v = committed db key + 1 \<and> written key val db db') \<and>
         (out = Replied \<and> reader_version db key \<noteq> expected \<longrightarrow> err = Some ErrPreconditionFailed \<and> db' = db) \<and>
         (err \<noteq> None \<longrightarrow> v = 0 \<and>
            (db' = db \<or> (\<exists>e. out = ReplyLost e) \<and> reader_version db key = expected \<and> written key val db db'))"
  using assms
  by (cases out; cases "reader_version db key = expected")
     (auto simp: cas_def round_trip_def scan_row_def mutationResult_def driver_error_def split: option.splits)

text \<open>
  C18: conditional writes compare and set. With a valid key and value, \<open>PutIfVersion\<close> succeeds
  exactly when the driver replied and the expected version is the one readers see (0 for an absent
  or deleted key); then the version is one more than ever committed, readers see the new value with
  it and its notification is stored. A mismatch is \<open>ErrPreconditionFailed\<close> and changes nothing.
  After any other error nothing changed, except that a lost reply may hide the one complete write.
\<close>

theorem PutIfVersion_compare_and_set:
  assumes "db_inv db" "committed db key < maxBigint" "driver_ok out"
    and "validateValue key val = None" "0 \<le> expected"
    and "PutIfVersion out ctx now clk key val expected db = ((v, err), db')"
  shows "(err = None \<longleftrightarrow> out = Replied \<and> reader_version db key = expected) \<and>
         (err = None \<longrightarrow> v = committed db key + 1 \<and> written key (Some val) db db') \<and>
         (out = Replied \<and> reader_version db key \<noteq> expected \<longrightarrow> err = Some ErrPreconditionFailed \<and> db' = db) \<and>
         (err \<noteq> None \<longrightarrow> v = 0 \<and>
            (db' = db \<or> (\<exists>e. out = ReplyLost e) \<and> reader_version db key = expected \<and> written key (Some val) db db'))"
proof -
  let ?stmt = "if expected = 0 then sql_create clk key val db else sql_update clk key val expected db"
  have "cas key (Some val) expected ?stmt db"
    using sql_cas(1,2) [OF assms(1,2)] assms(5) by auto
  moreover have "round_trip out ?stmt db = (fst (round_trip out ?stmt db), db')"
      "mutationResult ctx now (scan_row (fst (round_trip out ?stmt db))) = (v, err)"
    using assms(4,5,6) by (auto simp: PutIfVersion_def split: prod.splits)
  ultimately show ?thesis
    using cas_reply [OF _ assms(3)] by blast
qed

theorem PutIfVersion_compare_and_set_witness:
  "snd (fst (PutIfVersion Replied Background 0 (\<lambda>_. 5) ''a'' ''y'' 7 sampleDb)) = Some ErrPreconditionFailed \<and>
   fst (fst (PutIfVersion Replied Background 0 (\<lambda>_. 5) ''a'' ''y'' 1 sampleDb)) = 2"
proof -
  have v: "validateValue ''a'' ''y'' = None" by (simp add: validateValue_def sample_key MaxValueBytes_def)
  have s: "committed sampleDb ''a'' = 1" "reader_version sampleDb ''a'' = 1"
    by (simp_all add: sampleDb_eq committed_def reader_version_eq)
  have m: "committed sampleDb ''a'' < maxBigint" by (simp add: s maxBigint_def)
  show ?thesis
    using PutIfVersion_compare_and_set [OF sampleDb_inv m _ v, of Replied 7 Background 0 "\<lambda>_. 5"]
      PutIfVersion_compare_and_set [OF sampleDb_inv m _ v, of Replied 1 Background 0 "\<lambda>_. 5"]
    by (simp add: s prod_eq_iff)
qed

text \<open>
  \<open>DeleteIfVersion\<close> likewise: it succeeds exactly when the expected version is the one readers
  see; the deletion advances the version and hides the key; a mismatch changes nothing.
\<close>

lemma DeleteIfVersion_compare_and_set:
  assumes "db_inv db" "committed db key < maxBigint" "driver_ok out"
    and "ValidateKey key = None" "0 < expected"
    and "DeleteIfVersion out ctx now clk key expected db = ((v, err), db')"
  shows "(err = None \<longleftrightarrow> out = Replied \<and> reader_version db key = expected) \<and>
         (err = None \<longrightarrow> v = committed db key + 1 \<and> written key None db db') \<and>
         (out = Replied \<and> reader_version db key \<noteq> expected \<longrightarrow> err = Some ErrPreconditionFailed \<and> db' = db) \<and>
         (err \<noteq> None \<longrightarrow> v = 0 \<and>
            (db' = db \<or> (\<exists>e. out = ReplyLost e) \<and> reader_version db key = expected \<and> written key None db db'))"
proof -
  let ?stmt = "sql_delete_if clk key expected db"
  have "round_trip out ?stmt db = (fst (round_trip out ?stmt db), db')"
      "mutationResult ctx now (scan_row (fst (round_trip out ?stmt db))) = (v, err)"
    using assms(4,5,6) by (auto simp: DeleteIfVersion_def split: prod.splits)
  then show ?thesis
    using cas_reply [OF sql_cas(3) [OF assms(1,2,5)] assms(3)] by blast
qed

lemma DeleteIfVersion_compare_and_set_witness:
  "sql_read ''a'' (snd (DeleteIfVersion Replied Background 0 (\<lambda>_. 5) ''a'' 1 sampleDb)) = None"
proof -
  have s: "committed sampleDb ''a'' = 1" "reader_version sampleDb ''a'' = 1"
    by (simp_all add: sampleDb_eq committed_def reader_version_eq)
  have m: "committed sampleDb ''a'' < maxBigint" by (simp add: s maxBigint_def)
  show ?thesis
    using DeleteIfVersion_compare_and_set [OF sampleDb_inv m _ sample_key, of Replied 1 Background 0 "\<lambda>_. 5"]
    by (simp add: s prod_eq_iff written_def)
qed

end
