(* ===== verification/Cluster.thy ===== *)
theory Cluster
  imports Versions Go_Net "HOL-Library.Product_Lexorder"
begin

text \<open>
  \<open>internal/cluster\<close>: the member directory, the invalidation fan-out with its HTTP client, and the
  handler of the receiving members. The network is an argument: a function that answers a request
  and passes the state of the other nodes along. A directory update and a fan-out read one
  immutable snapshot.
\<close>

section \<open>Protocol (\<open>protocol.go\<close>)\<close>

definition BasePath :: string where
  "BasePath = ''/_simplecache/invalidate/''"

definition InvalidationVersionHeader :: string where
  "InvalidationVersionHeader = ''X-SimpleCache-Invalidation-Version''"

fun Error :: "goerror \<Rightarrow> string" where
  "Error ErrNotFound = ''key not found''"
| "Error ErrInvalidKey = ''key must contain 1 to 256 UTF-8 bytes without NUL''"
| "Error ErrValueTooLarge = ''value exceeds 1MiB''"
| "Error ErrPreconditionFailed = ''source version precondition failed''"
| "Error ErrInvalidVersion = ''invalid source invalidation version''"
| "Error ErrStaleVersion = ''value is older than an observed source version''"
| "Error ErrOverloaded = ''cache admission capacity exhausted''"
| "Error ErrUnversionedInvalidation = ''member did not acknowledge version-aware invalidation''"
| "Error ErrNoRows = ''no rows in result set''"
| "Error DeadlineExceeded = ''context deadline exceeded''"
| "Error Canceled = ''context canceled''"
| "Error (NewError m) = m"
| "Error (Wrap m _) = m"

definition ParseInvalidationVersion :: "header \<Rightarrow> goerror + int" where
  "ParseInvalidationVersion h =
     (case HeaderValues InvalidationVersionHeader h of
        [] \<Rightarrow> Inr 0
      | [v] \<Rightarrow>
          (case ParseInt v of
             None \<Rightarrow> Inl ErrInvalidVersion
           | Some version \<Rightarrow> if version \<le> 0 \<or> FormatInt version \<noteq> v then Inl ErrInvalidVersion else Inr version)
      | _ \<Rightarrow> Inl ErrInvalidVersion)"

definition Authorized :: "header \<Rightarrow> string \<Rightarrow> bool" where
  "Authorized h token \<longleftrightarrow> token \<noteq> '''' \<and> HeaderGet ''Authorization'' h = ''Bearer '' @ token"

definition Status :: "goerror \<Rightarrow> int" where
  "Status err =
     (if errors_Is err ErrNotFound then 404
      else if errors_Is err ErrInvalidKey \<or> errors_Is err ErrInvalidVersion then 400
      else if errors_Is err DeadlineExceeded \<or> errors_Is err Canceled then 504
      else 503)"

section \<open>Directory (\<open>directory.go\<close>)\<close>

record Member =
  mem_ID :: string
  mem_Address :: string

record Client =
  cl_address :: string
  cl_timeout :: duration
  cl_token :: string

record snapshot =
  snap_clients :: "string \<rightharpoonup> Client"
  snap_members :: "Member list"

record Directory =
  dir_selfID :: string
  dir_timeout :: duration
  dir_token :: string
  dir_state :: "snapshot option"

definition validAddress :: "string \<Rightarrow> bool" where
  "validAddress address =
     (if \<exists>c\<in>set address. c \<in> set ''/?#'' then False
      else case SplitHostPort address of
        None \<Rightarrow> False
      | Some (host, port) \<Rightarrow>
          (case Atoi port of None \<Rightarrow> False | Some number \<Rightarrow> host \<noteq> [] \<and> number > 0 \<and> number \<le> 65535))"

text \<open>The members quoted in the error text are written without the escapes of \<open>%q\<close>.\<close>

fun normalize :: "Member list \<Rightarrow> Member list \<Rightarrow> goerror + Member list" where
  "normalize acc [] = Inr acc"
| "normalize acc (m # ms) =
     (if mem_ID m = [] \<or> \<not> validAddress (mem_Address m)
      then Inl (NewError (''invalid member '' @ mem_ID m @ '': '' @ mem_Address m))
      else if acc \<noteq> [] \<and> mem_ID (last acc) = mem_ID m then normalize acc ms
      else normalize (acc @ [m]) ms)"

definition sameMembers :: "Member list \<Rightarrow> Member list \<Rightarrow> bool" where
  "sameMembers a b \<longleftrightarrow> length a = length b \<and> list_all2 (=) a b"

definition sortMembers :: "Member list \<Rightarrow> Member list" where
  "sortMembers ms = sort_key (\<lambda>m. (mem_ID m, mem_Address m)) ms"

definition newSnapshot :: "Directory \<Rightarrow> Member list \<Rightarrow> snapshot" where
  "newSnapshot r ms =
     \<lparr>snap_clients = map_of (rev (map (\<lambda>m. (mem_ID m, \<lparr>cl_address = mem_Address m, cl_timeout = dir_timeout r, cl_token = dir_token r\<rparr>)) ms)),
      snap_members = ms\<rparr>"

definition Update :: "Member list \<Rightarrow> Directory \<Rightarrow> goerror option \<times> Directory" where
  "Update input r =
     (case normalize [] (sortMembers input) of
        Inl e \<Rightarrow> (Some e, r)
      | Inr normalized \<Rightarrow>
          if (case dir_state r of None \<Rightarrow> False | Some previous \<Rightarrow> sameMembers (snap_members previous) normalized)
          then (None, r)
          else (None, r\<lparr>dir_state := Some (newSnapshot r normalized)\<rparr>))"

definition NewDirectory :: "string \<Rightarrow> duration \<Rightarrow> string \<Rightarrow> string + Directory" where
  "NewDirectory selfID timeout token =
     (if selfID = [] \<or> timeout \<le> 0 then Inl ''invalid directory identity or timeout''
      else Inr (snd (Update [] \<lparr>dir_selfID = selfID, dir_timeout = timeout, dir_token = token, dir_state = None\<rparr>)))"

definition directory_Members :: "Directory \<Rightarrow> Member list" where
  "directory_Members r = (case dir_state r of None \<Rightarrow> [] | Some s \<Rightarrow> snap_members s)"

section \<open>Client and fan-out (\<open>invalidation.go\<close>)\<close>

record InvalidationResult =
  res_Node :: string
  res_Status :: string

record InvalidationReport =
  rep_KnownMembers :: nat
  rep_Version :: int
  rep_Scope :: string
  rep_Complete :: bool
  rep_Results :: "InvalidationResult list"

definition noReport :: InvalidationReport where
  "noReport = \<lparr>rep_KnownMembers = 0, rep_Version = 0, rep_Scope = '''', rep_Complete = False, rep_Results = []\<rparr>"

definition newInvalidation ::
  "(string \<Rightarrow> string option) \<Rightarrow> Client \<Rightarrow> string \<Rightarrow> string \<Rightarrow> int \<Rightarrow> request option" where
  "newInvalidation bracketed c grp key version =
     (let target = ''http://'' @ cl_address c @ BasePath @ PathEscape grp @ ''/'' @ PathEscape key in
      case url_Parse bracketed target of
        None \<Rightarrow> None
      | Some u \<Rightarrow>
          (let h = HeaderSet ''Authorization'' (''Bearer '' @ cl_token c) [] in
           Some \<lparr>req_Method = ''DELETE'', req_URL = u,
                 req_Header = (if version > 0 then HeaderSet InvalidationVersionHeader (FormatInt version) h else h),
                 req_Body = None\<rparr>))"

definition acknowledged :: "int \<Rightarrow> response \<Rightarrow> goerror option" where
  "acknowledged version resp =
     (if resp_Status resp \<noteq> 204 then Some (NewError ''member did not acknowledge invalidation'')
      else if version > 0 \<and> ParseInvalidationVersion (resp_Header resp) \<noteq> Inr version
      then Some ErrUnversionedInvalidation
      else None)"

definition client_InvalidateVersion ::
  "(string \<Rightarrow> string option) \<Rightarrow> (request \<Rightarrow> 'w \<Rightarrow> (goerror + response) \<times> 'w) \<Rightarrow> Client \<Rightarrow>
   string \<Rightarrow> string \<Rightarrow> int \<Rightarrow> 'w \<Rightarrow> goerror option \<times> 'w" where
  "client_InvalidateVersion bracketed network c grp key version w =
     (if version < 0 then (Some ErrInvalidVersion, w)
      else case newInvalidation bracketed c grp key version of
        None \<Rightarrow> (Some (NewError ''parse''), w)
      | Some req \<Rightarrow>
          (case network req w of
             (Inl e, w') \<Rightarrow> (Some e, w')
           | (Inr resp, w') \<Rightarrow> (acknowledged version resp, w')))"

definition client_Invalidate ::
  "(string \<Rightarrow> string option) \<Rightarrow> (request \<Rightarrow> 'w \<Rightarrow> (goerror + response) \<times> 'w) \<Rightarrow> Client \<Rightarrow>
   string \<Rightarrow> string \<Rightarrow> 'w \<Rightarrow> goerror option \<times> 'w" where
  "client_Invalidate bracketed network c grp key w = client_InvalidateVersion bracketed network c grp key 0 w"

definition resultStatus :: "goerror option \<Rightarrow> string" where
  "resultStatus err =
     (case err of
        None \<Rightarrow> ''ok''
      | Some e \<Rightarrow> if errors_Is e DeadlineExceeded \<or> errors_Is e Canceled then ''timeout''
                  else if errors_Is e ErrUnversionedInvalidation then ''unversioned'' else ''failed'')"

text \<open>
  The worker pool: at most eight goroutines take the job numbers; \<open>order\<close> is the order in which the
  calls happen to be made. Every result has its own slot.
\<close>

fun fan_out ::
  "(nat \<Rightarrow> 'w \<Rightarrow> goerror option \<times> 'w) \<Rightarrow> nat list \<Rightarrow> InvalidationResult list \<Rightarrow> 'w \<Rightarrow> InvalidationResult list \<times> 'w" where
  "fan_out call [] results w = (results, w)"
| "fan_out call (i # order) results w =
     (case call i w of
        (err, w') \<Rightarrow> fan_out call order (results[i + 1 := (results ! (i + 1))\<lparr>res_Status := resultStatus err\<rparr>]) w')"

definition others :: "Directory \<Rightarrow> Member list" where
  "others r = filter (\<lambda>m. mem_ID m \<noteq> dir_selfID r) (directory_Members r)"

definition clients_of :: "Directory \<Rightarrow> Client list" where
  "clients_of r =
     (case dir_state r of
        None \<Rightarrow> []
      | Some s \<Rightarrow> map (\<lambda>m. the (snap_clients s (mem_ID m))) (others r))"

definition directory_InvalidateVersion ::
  "(string \<Rightarrow> string option) \<Rightarrow> (request \<Rightarrow> 'w \<Rightarrow> (goerror + response) \<times> 'w) \<Rightarrow> nat list \<Rightarrow> gotime \<Rightarrow> gotime \<Rightarrow>
   Directory \<Rightarrow> Group \<Rightarrow> string \<Rightarrow> int \<Rightarrow> 'w \<Rightarrow> (InvalidationReport \<times> goerror option) \<times> Group \<times> 'w" where
  "directory_InvalidateVersion bracketed network order t1 t2 r grp key version w =
     (case InvalidateVersion t1 t2 key version grp of
        (Some err, grp') \<Rightarrow> ((noReport, Some err), grp', w)
      | (None, grp') \<Rightarrow>
          (let clients = clients_of r;
               results = \<lparr>res_Node = dir_selfID r, res_Status = ''ok''\<rparr> #
                         map (\<lambda>m. \<lparr>res_Node = mem_ID m, res_Status = ''''\<rparr>) (others r) in
           case fan_out (\<lambda>i. client_InvalidateVersion bracketed network (clients ! i) (group_name grp') key version) order results w of
             (results', w') \<Rightarrow>
               ((\<lparr>rep_KnownMembers = length (directory_Members r), rep_Version = version,
                  rep_Scope = ''known_members_snapshot'',
                  rep_Complete = list_all (\<lambda>x. res_Status x = ''ok'') results', rep_Results = results'\<rparr>, None),
                grp', w')))"

definition directory_Invalidate ::
  "(string \<Rightarrow> string option) \<Rightarrow> (request \<Rightarrow> 'w \<Rightarrow> (goerror + response) \<times> 'w) \<Rightarrow> nat list \<Rightarrow> gotime \<Rightarrow> gotime \<Rightarrow>
   Directory \<Rightarrow> Group \<Rightarrow> string \<Rightarrow> 'w \<Rightarrow> (InvalidationReport \<times> goerror option) \<times> Group \<times> 'w" where
  "directory_Invalidate bracketed network order t1 t2 r grp key w =
     directory_InvalidateVersion bracketed network order t1 t2 r grp key 0 w"

section \<open>Handler (\<open>server.go\<close>)\<close>

record Handler =
  h_groups :: "string \<rightharpoonup> Group"
  h_token :: string

fun add_groups :: "Group list \<Rightarrow> (string \<rightharpoonup> Group) \<Rightarrow> string + (string \<rightharpoonup> Group)" where
  "add_groups [] m = Inr m"
| "add_groups (g # gs) m =
     (if m (group_name g) \<noteq> None then Inl ''duplicate group'' else add_groups gs (m(group_name g \<mapsto> g)))"

definition NewHandlerWithToken :: "string \<Rightarrow> Group list \<Rightarrow> string + Handler" where
  "NewHandlerWithToken token groups =
     (case add_groups groups Map.empty of
        Inl p \<Rightarrow> Inl p
      | Inr m \<Rightarrow> Inr \<lparr>h_groups = m, h_token = token\<rparr>)"

definition NewHandler :: "Group list \<Rightarrow> string + Handler" where
  "NewHandler groups = NewHandlerWithToken '''' groups"

definition handler_invalidate :: "gotime \<Rightarrow> gotime \<Rightarrow> request \<Rightarrow> string \<Rightarrow> string \<Rightarrow> Handler \<Rightarrow> response \<times> Handler" where
  "handler_invalidate t1 t2 req grp key h =
     (case h_groups h grp of
        None \<Rightarrow> (http_Error ''group not found'' 404 [], h)
      | Some g \<Rightarrow>
          (case (case ParseInvalidationVersion (req_Header req) of
                   Inl e \<Rightarrow> ((0, Some e), g)
                 | Inr version \<Rightarrow> (case InvalidateVersion t1 t2 key version g of (err, g') \<Rightarrow> ((version, err), g'))) of
             ((version, Some e), g') \<Rightarrow> (http_Error (Error e) (Status e) [], h\<lparr>h_groups := (h_groups h)(grp \<mapsto> g')\<rparr>)
           | ((version, None), g') \<Rightarrow>
               (\<lparr>resp_Status = 204,
                 resp_Header = (if version > 0 then HeaderSet InvalidationVersionHeader (FormatInt version) [] else []),
                 resp_Body = []\<rparr>,
                h\<lparr>h_groups := (h_groups h)(grp \<mapsto> g')\<rparr>)))"

definition handler_ServeHTTP :: "gotime \<Rightarrow> gotime \<Rightarrow> request \<Rightarrow> Handler \<Rightarrow> response \<times> Handler" where
  "handler_ServeHTTP t1 t2 req h =
     (if req_Method req \<noteq> ''DELETE'' \<or> h_token h = ''''
      then (http_Error ''method not allowed'' 405 (HeaderSet ''Allow'' ''DELETE'' []), h)
      else if \<not> Authorized (req_Header req) (h_token h) then (http_Error ''unauthorized'' 401 [], h)
      else
        (let path = EscapedPath (req_URL req) in
         if \<not> HasPrefix path BasePath then (http_Error ''404 page not found'' 404 [], h)
         else case Cut (CHR ''/'') (TrimPrefix path BasePath) of
           (a, b, found) \<Rightarrow>
             if \<not> found then (http_Error ''bad member path'' 400 [], h)
             else case (PathUnescape a, PathUnescape b) of
               (Some grp, Some key) \<Rightarrow> handler_invalidate t1 t2 req grp key h
             | _ \<Rightarrow> (http_Error ''bad encoding'' 400 [], h)))"

end
