(* ===== verification/Delivery.thy ===== *)
theory Delivery
  imports Cluster
begin

text \<open>
  The invalidation protocol end to end: what a client of \<open>invalidation.go\<close> sends is what the
  handler of \<open>server.go\<close> applies, for every group name and key, and a fan-out that reports complete
  has been applied by every known member. The network between them is a function of the request's
  host: it delivers, loses the request or loses the reply.
\<close>

section \<open>The request on the wire\<close>

definition invalidation_path :: "string \<Rightarrow> string \<Rightarrow> string" where
  "invalidation_path grp key = BasePath @ PathEscape grp @ ''/'' @ PathEscape key"

text \<open>The client writes the escaped path on the request line, the server parses it again.\<close>

definition over_wire :: "request \<Rightarrow> request option" where
  "over_wire req = map_option (\<lambda>u. req\<lparr>req_URL := u\<rparr>) (setPath (EscapedPath (req_URL req)) noURL)"

lemma BasePath_chars: "list_all (\<lambda>c. segment_char c \<or> c = CHR ''/'') BasePath"
  by (simp add: BasePath_def segment_char_def isAlnum_def isLower_def isUpper_def isDigit_def code_def)

lemma path_chars: "c \<in> set (invalidation_path grp key) \<Longrightarrow> segment_char c \<or> c = CHR ''/''"
  using PathEscape_chars [of c grp] PathEscape_chars [of c key] BasePath_chars
  by (auto simp: invalidation_path_def list_all_iff)

lemma path_unescape:
  "unescape encodePath (invalidation_path grp key) = Some (BasePath @ grp @ ''/'' @ key)"
proof -
  have "unescape encodePath (''/'' @ PathEscape key) = Some (''/'' @ key)"
    using unescape_PathEscape_append [of key "[]"] unescape_plain [of encodePath "''/''" "PathEscape key"] by simp
  moreover have "CHR ''%'' \<notin> set BasePath" by (simp add: BasePath_def)
  ultimately show ?thesis
    using unescape_plain [of encodePath BasePath "PathEscape grp @ ''/'' @ PathEscape key"]
      unescape_PathEscape_append [of grp "''/'' @ PathEscape key"]
    by (simp add: invalidation_path_def)
qed

lemma path_escaped:
  assumes "setPath (invalidation_path grp key) u = Some u'"
  shows "EscapedPath u' = invalidation_path grp key" "url_Host u' = url_Host u"
proof -
  have "url_Path u' \<noteq> ''*''"
    using assms by (auto simp: setPath_def path_unescape BasePath_def)
  then show "EscapedPath u' = invalidation_path grp key"
    using setPath_EscapedPath [OF assms validEncoded_segment [OF path_chars]] by (simp add: invalidation_path_def BasePath_def)
  show "url_Host u' = url_Host u" using assms by (auto simp: setPath_def split: option.splits)
qed

lemma path_noURL: "\<exists>u. setPath (invalidation_path grp key) noURL = Some u"
  by (simp add: setPath_def path_unescape)

lemma scheme_http: "getScheme (''http:'' @ s) = Some (''http'', s)"
  by (simp add: getScheme_def isUpper_def isLower_def isDigit_def code_def)

lemma target_url:
  assumes "\<forall>c\<in>set addr. c \<notin> set ''/?#''"
    and "url_Parse bracketed (''http://'' @ addr @ invalidation_path grp key) = Some u"
  shows "EscapedPath u = invalidation_path grp key"
    "\<exists>user. parseAuthority bracketed addr = Some (user, url_Host u)"
proof -
  let ?p = "invalidation_path grp key"
  let ?t = "''http://'' @ addr @ ?p"
  have pc: "CHR ''#'' \<notin> set ?p" "CHR ''?'' \<notin> set ?p"
    using path_chars [of _ grp key] segment_char_props by fastforce+
  have "CHR ''#'' \<notin> set ?t" "CHR ''?'' \<notin> set (''//'' @ addr @ ?p)"
    using assms(1) pc by auto
  then have cut: "Cut (CHR ''#'') ?t = (?t, [], False)" "cutQuery (''//'' @ addr @ ?p) = (''//'' @ addr @ ?p, [])"
    by (auto simp: Cut_absent cutQuery_absent)
  have split: "takeWhile (\<lambda>c. c \<noteq> CHR ''/'') (addr @ ?p) = addr" "dropWhile (\<lambda>c. c \<noteq> CHR ''/'') (addr @ ?p) = ?p"
    using assms(1) by (auto simp: takeWhile_append dropWhile_append invalidation_path_def BasePath_def)
  have scheme: "getScheme ?t = Some (''http'', ''//'' @ addr @ ?p)"
    using scheme_http [of "''//'' @ addr @ ?p"] by simp
  have rest: "parse_rest bracketed (map lowerChar ''http'') (''//'' @ addr @ ?p) [] = Some u"
    using assms(2) cut scheme by (auto simp: url_Parse_def split: if_splits option.splits)
  have low: "map lowerChar ''http'' \<noteq> []" by simp
  obtain user host u0 where "parseAuthority bracketed addr = Some (user, host)"
      "setPath ?p (u0\<lparr>url_User := user, url_Host := host\<rparr>) = Some u"
    using rest low split by (auto simp: parse_rest_def HasPrefix_def Let_def split: option.splits prod.splits)
  then show "EscapedPath u = ?p" "\<exists>user. parseAuthority bracketed addr = Some (user, url_Host u)"
    using path_escaped by auto
qed

section \<open>The handler on such a request\<close>

lemma Status_not_204: "Status e \<noteq> 204"
  by (simp add: Status_def)

lemma http_Error_Status [simp]: "resp_Status (http_Error m st h) = st"
  by (simp add: http_Error_def)

lemma no_slash_PathEscape: "CHR ''/'' \<notin> set (PathEscape s)"
  using PathEscape_chars segment_char_props(1) by blast

lemma serve_path:
  assumes "EscapedPath (req_URL req) = invalidation_path grp key" "req_Method req = ''DELETE''"
  shows "handler_ServeHTTP t1 t2 req h =
     (if h_token h = '''' then (http_Error ''method not allowed'' 405 (HeaderSet ''Allow'' ''DELETE'' []), h)
      else if \<not> Authorized (req_Header req) (h_token h) then (http_Error ''unauthorized'' 401 [], h)
      else handler_invalidate t1 t2 req grp key h)"
proof -
  have "Cut (CHR ''/'') (PathEscape grp @ ''/'' @ PathEscape key) = (PathEscape grp, PathEscape key, True)"
    using Cut_found [OF no_slash_PathEscape] by simp
  then show ?thesis
    using assms by (simp add: handler_ServeHTTP_def invalidation_path_def PathUnescape_PathEscape)
qed

lemma ParseInvalidationVersion_Set:
  "0 < version \<Longrightarrow> int64 version \<Longrightarrow>
   ParseInvalidationVersion (HeaderSet InvalidationVersionHeader (FormatInt version) h) = Inr version"
  by (simp add: ParseInvalidationVersion_def HeaderValues_Set ParseInt_FormatInt)

definition handler_inv :: "Handler \<Rightarrow> bool" where
  "handler_inv h \<longleftrightarrow> (\<forall>n g. h_groups h n = Some g \<longrightarrow> group_inv g)"

definition applied :: "string \<Rightarrow> string \<Rightarrow> int \<Rightarrow> Handler \<Rightarrow> bool" where
  "applied grp key version h \<longleftrightarrow> (\<exists>g. h_groups h grp = Some g \<and> version \<le> floor_at (floors g) key)"

lemma InvalidateVersion_floor:
  assumes "group_inv g" "0 < version"
  shows "group_inv (snd (InvalidateVersion t1 t2 key version g))"
    "fst (InvalidateVersion t1 t2 key version g) = None \<Longrightarrow>
     version \<le> floor_at (floors (snd (InvalidateVersion t1 t2 key version g))) key"
    "version \<le> floor_at (floors g) key \<Longrightarrow>
     version \<le> floor_at (floors (snd (InvalidateVersion t1 t2 key version g))) key"
proof -
  show "group_inv (snd (InvalidateVersion t1 t2 key version g))"
    by (rule InvalidateVersion_inv [OF assms(1)])
  have spec: "version \<le> floor_at (floors (snd (InvalidateVersion t1 t2 key version g))) key" if "ValidateKey key = None"
    using InvalidateVersion_spec [OF assms(1) that, of version t1 t2] assms(2) by simp
  show "fst (InvalidateVersion t1 t2 key version g) = None \<Longrightarrow>
     version \<le> floor_at (floors (snd (InvalidateVersion t1 t2 key version g))) key"
    using spec by (cases "ValidateKey key") (simp_all add: InvalidateVersion_def)
  show "version \<le> floor_at (floors g) key \<Longrightarrow>
     version \<le> floor_at (floors (snd (InvalidateVersion t1 t2 key version g))) key"
    using spec by (cases "ValidateKey key") (simp_all add: InvalidateVersion_def)
qed

lemma handler_invalidate_cases:
  assumes "handler_invalidate t1 t2 req grp key h = (resp, h')" "ParseInvalidationVersion (req_Header req) = Inr version"
  shows "(h' = h \<and> resp_Status resp \<noteq> 204) \<or>
    (\<exists>g. h_groups h grp = Some g \<and>
         h' = h\<lparr>h_groups := (h_groups h)(grp \<mapsto> snd (InvalidateVersion t1 t2 key version g))\<rparr> \<and>
         (resp_Status resp = 204 \<longrightarrow> fst (InvalidateVersion t1 t2 key version g) = None))"
proof (cases "h_groups h grp")
  case None
  then show ?thesis using assms(1) by (auto simp: handler_invalidate_def)
next
  case (Some g)
  obtain err g' where i: "InvalidateVersion t1 t2 key version g = (err, g')" by (cases "InvalidateVersion t1 t2 key version g")
  show ?thesis
  proof (cases err)
    case None
    then show ?thesis using assms(1) by (auto simp: handler_invalidate_def Some assms(2) i)
  next
    case (Some e)
    then show ?thesis using assms(1) \<open>h_groups h grp = Some g\<close> Status_not_204 [of e]
      by (auto simp: handler_invalidate_def assms(2) i)
  qed
qed

lemma serve_effect:
  assumes "EscapedPath (req_URL req) = invalidation_path grp key" "req_Method req = ''DELETE''"
    and "ParseInvalidationVersion (req_Header req) = Inr version" "0 < version"
    and "handler_inv h" "handler_ServeHTTP t1 t2 req h = (resp, h')"
  shows "handler_inv h'" "applied grp key version h \<Longrightarrow> applied grp key version h'"
    "resp_Status resp = 204 \<Longrightarrow> applied grp key version h'"
proof -
  consider (same) "h' = h" "resp_Status resp \<noteq> 204"
    | (grp) g where "h_groups h grp = Some g"
        "h' = h\<lparr>h_groups := (h_groups h)(grp \<mapsto> snd (InvalidateVersion t1 t2 key version g))\<rparr>"
        "resp_Status resp = 204 \<longrightarrow> fst (InvalidateVersion t1 t2 key version g) = None"
  proof (cases "h_token h = [] \<or> \<not> Authorized (req_Header req) (h_token h)")
    case True
    with assms(6) show ?thesis
      by (intro same) (simp_all only: serve_path [OF assms(1,2)], auto split: if_splits)
  next
    case False
    then have "handler_invalidate t1 t2 req grp key h = (resp, h')"
      using assms(6) by (simp add: serve_path [OF assms(1,2)])
    then show ?thesis
      using that handler_invalidate_cases [OF _ assms(3)] by blast
  qed
  then have "handler_inv h' \<and> (applied grp key version h \<longrightarrow> applied grp key version h') \<and>
      (resp_Status resp = 204 \<longrightarrow> applied grp key version h')"
  proof cases
    case (grp g)
    have "group_inv g" using assms(5) grp(1) by (auto simp: handler_inv_def)
    from InvalidateVersion_floor [OF this assms(4), where ?t1.0 = t1 and ?t2.0 = t2 and key = key] grp assms(5) show ?thesis
      by (auto simp: handler_inv_def applied_def)
  qed (use assms(5) in simp)
  then show "handler_inv h'" "applied grp key version h \<Longrightarrow> applied grp key version h'"
    "resp_Status resp = 204 \<Longrightarrow> applied grp key version h'" by blast+
qed

section \<open>The network\<close>

datatype fate = Delivered | RequestLost goerror | AnswerLost goerror

definition member_network ::
  "(string \<Rightarrow> fate) \<Rightarrow> gotime \<Rightarrow> gotime \<Rightarrow> request \<Rightarrow> (string \<rightharpoonup> Handler) \<Rightarrow> (goerror + response) \<times> (string \<rightharpoonup> Handler)" where
  "member_network fate t1 t2 req w =
     (let host = url_Host (req_URL req) in
      case (fate host, over_wire req, w host) of
        (Delivered, Some r, Some h) \<Rightarrow> (case handler_ServeHTTP t1 t2 r h of (resp, h') \<Rightarrow> (Inr resp, w(host \<mapsto> h')))
      | (AnswerLost e, Some r, Some h) \<Rightarrow> (case handler_ServeHTTP t1 t2 r h of (resp, h') \<Rightarrow> (Inl e, w(host \<mapsto> h')))
      | (RequestLost e, _, _) \<Rightarrow> (Inl e, w)
      | _ \<Rightarrow> (Inl (NewError ''connection refused''), w))"

definition nodes_inv :: "(string \<rightharpoonup> Handler) \<Rightarrow> bool" where
  "nodes_inv w \<longleftrightarrow> (\<forall>a h. w a = Some h \<longrightarrow> handler_inv h)"

definition applied_at :: "string \<Rightarrow> string \<Rightarrow> int \<Rightarrow> string \<Rightarrow> (string \<rightharpoonup> Handler) \<Rightarrow> bool" where
  "applied_at grp key version host w \<longleftrightarrow> (\<exists>h. w host = Some h \<and> applied grp key version h)"

lemma newInvalidation_spec:
  assumes "newInvalidation bracketed c grp key version = Some req" "\<forall>ch\<in>set (cl_address c). ch \<notin> set ''/?#''"
    and "0 < version" "int64 version"
  shows "req_Method req = ''DELETE''" "ParseInvalidationVersion (req_Header req) = Inr version"
    "\<exists>r. over_wire req = Some r \<and> EscapedPath (req_URL r) = invalidation_path grp key \<and>
         req_Method r = req_Method req \<and> req_Header r = req_Header req"
    "\<exists>user. parseAuthority bracketed (cl_address c) = Some (user, url_Host (req_URL req))"
proof -
  obtain u where u: "url_Parse bracketed (''http://'' @ cl_address c @ invalidation_path grp key) = Some u"
      "req_URL req = u" "req_Method req = ''DELETE''"
      "req_Header req = HeaderSet InvalidationVersionHeader (FormatInt version) (HeaderSet ''Authorization'' (''Bearer '' @ cl_token c) [])"
    using assms(1,3) by (auto simp: newInvalidation_def invalidation_path_def Let_def split: option.splits)
  show "req_Method req = ''DELETE''" by (rule u(3))
  show "ParseInvalidationVersion (req_Header req) = Inr version"
    unfolding u(4) using assms(3,4) by (rule ParseInvalidationVersion_Set)
  have path: "EscapedPath u = invalidation_path grp key" by (rule target_url(1) [OF assms(2) u(1)])
  obtain v where v: "setPath (invalidation_path grp key) noURL = Some v" using path_noURL by blast
  show "\<exists>r. over_wire req = Some r \<and> EscapedPath (req_URL r) = invalidation_path grp key \<and>
         req_Method r = req_Method req \<and> req_Header r = req_Header req"
    using path_escaped(1) [OF v] v by (simp add: over_wire_def u(2) path)
  show "\<exists>user. parseAuthority bracketed (cl_address c) = Some (user, url_Host (req_URL req))"
    unfolding u(2) by (rule target_url(2) [OF assms(2) u(1)])
qed

lemma client_call:
  assumes "client_InvalidateVersion bracketed (member_network fate t1 t2) c grp key version w = (err, w')"
    and "\<forall>ch\<in>set (cl_address c). ch \<notin> set ''/?#''" "0 < version" "int64 version" "nodes_inv w"
  shows "nodes_inv w'" "applied_at grp key version a w \<Longrightarrow> applied_at grp key version a w'"
    "err = None \<Longrightarrow> \<exists>user host. parseAuthority bracketed (cl_address c) = Some (user, host) \<and> applied_at grp key version host w'"
proof -
  let ?goal = "nodes_inv w' \<and> (applied_at grp key version a w \<longrightarrow> applied_at grp key version a w') \<and>
    (err = None \<longrightarrow> (\<exists>user host. parseAuthority bracketed (cl_address c) = Some (user, host) \<and> applied_at grp key version host w'))"
  have ?goal
  proof (cases "newInvalidation bracketed c grp key version")
    case None
    then show ?thesis using assms by (auto simp: client_InvalidateVersion_def split: if_splits)
  next
    case (Some req)
    note sp = newInvalidation_spec [OF Some assms(2-4)]
    let ?host = "url_Host (req_URL req)"
    obtain r where r: "over_wire req = Some r" "EscapedPath (req_URL r) = invalidation_path grp key"
        "req_Method r = ''DELETE''" "ParseInvalidationVersion (req_Header r) = Inr version"
      using sp(1,2,3) by auto
    obtain ans where ans: "member_network fate t1 t2 req w = (ans, w')"
        "err = (case ans of Inl e \<Rightarrow> Some e | Inr resp \<Rightarrow> acknowledged version resp)"
      using assms(1,3) by (auto simp: client_InvalidateVersion_def Some split: prod.splits sum.splits)
    show ?thesis
    proof (cases "w ?host")
      case None
      then show ?thesis
        using ans assms(5) by (auto simp: member_network_def Let_def r(1) split: fate.splits)
    next
      case (Some h)
      obtain resp h' where sv: "handler_ServeHTTP t1 t2 r h = (resp, h')" by (cases "handler_ServeHTTP t1 t2 r h")
      have "handler_inv h" using assms(5) Some by (auto simp: nodes_inv_def)
      note ef = serve_effect [OF r(2,3,4) assms(3) this sv]
      have "(w' = w \<and> err \<noteq> None) \<or> (w' = w(?host \<mapsto> h') \<and> (err = None \<longrightarrow> resp_Status resp = 204))"
        using ans by (auto simp: member_network_def Let_def r(1) Some sv acknowledged_def split: fate.splits if_splits)
      then show ?thesis
        using ef assms(5) Some sp(4) by (auto simp: nodes_inv_def applied_at_def split: if_splits)
    qed
  qed
  then show "nodes_inv w'" "applied_at grp key version a w \<Longrightarrow> applied_at grp key version a w'"
    "err = None \<Longrightarrow> \<exists>user host. parseAuthority bracketed (cl_address c) = Some (user, host) \<and> applied_at grp key version host w'"
    by blast+
qed

section \<open>The directory\<close>

text \<open>
  A published snapshot is normalized: ids are strictly increasing, so distinct, addresses are valid,
  and every member has its client.
\<close>

definition members_ok :: "Member list \<Rightarrow> bool" where
  "members_ok ms \<longleftrightarrow>
     sorted_wrt (\<lambda>a b. mem_ID a < mem_ID b) ms \<and> list_all (\<lambda>m. mem_ID m \<noteq> [] \<and> validAddress (mem_Address m)) ms"

definition dir_inv :: "Directory \<Rightarrow> bool" where
  "dir_inv r \<longleftrightarrow> (\<exists>ms. dir_state r = Some (newSnapshot r ms) \<and> members_ok ms)"

definition dir_start :: "Directory \<Rightarrow> bool" where
  "dir_start r \<longleftrightarrow> dir_state r = None \<or> dir_inv r"

lemma sorted_wrt_snoc: "sorted_wrt P (xs @ [x]) \<longleftrightarrow> sorted_wrt P xs \<and> (\<forall>y\<in>set xs. P y x)"
  by (simp add: sorted_wrt_append)

lemma sorted_wrt_last: "sorted_wrt P xs \<Longrightarrow> a \<in> set xs \<Longrightarrow> a = last xs \<or> P a (last xs)"
  by (induction xs rule: rev_induct) (auto simp: sorted_wrt_snoc)

lemma normalize_lt:
  assumes "members_ok acc" "\<forall>a\<in>set acc. mem_ID a \<le> mem_ID m" "\<not> (acc \<noteq> [] \<and> mem_ID (last acc) = mem_ID m)" "a \<in> set acc"
  shows "mem_ID a < mem_ID m"
proof -
  have "acc \<noteq> []" using assms(4) by auto
  then have "mem_ID (last acc) \<le> mem_ID m" "mem_ID (last acc) \<noteq> mem_ID m" using assms(2,3) by auto
  moreover have "a = last acc \<or> mem_ID a < mem_ID (last acc)"
    using sorted_wrt_last [of "\<lambda>a b. mem_ID a < mem_ID b"] assms(1,4) by (auto simp: members_ok_def)
  ultimately show ?thesis by auto
qed

lemma normalize_ok:
  assumes "normalize acc ms = Inr out" "members_ok acc"
    and "sorted (map (\<lambda>m. (mem_ID m, mem_Address m)) ms)"
    and "\<forall>a\<in>set acc. \<forall>m\<in>set ms. mem_ID a \<le> mem_ID m"
  shows "members_ok out" "set acc \<subseteq> set out" "set out \<subseteq> set acc \<union> set ms"
    "mem_ID ` set out = mem_ID ` (set acc \<union> set ms)"
proof -
  have "members_ok out \<and> set acc \<subseteq> set out \<and> set out \<subseteq> set acc \<union> set ms \<and> mem_ID ` set out = mem_ID ` (set acc \<union> set ms)"
    using assms
  proof (induction ms arbitrary: acc)
    case (Cons m ms)
    have val: "mem_ID m \<noteq> []" "validAddress (mem_Address m)" using Cons.prems(1) by (auto split: if_splits)
    have le: "mem_ID m \<le> mem_ID x" if "x \<in> set ms" for x
      using Cons.prems(3) that by (auto simp: less_eq_prod_def)
    have srt: "sorted (map (\<lambda>m. (mem_ID m, mem_Address m)) ms)" using Cons.prems(3) by simp
    show ?case
    proof (cases "acc \<noteq> [] \<and> mem_ID (last acc) = mem_ID m")
      case True
      then have "normalize acc ms = Inr out" using Cons.prems(1) val by simp
      moreover have "mem_ID m \<in> mem_ID ` set acc" using True by (metis image_eqI last_in_set)
      ultimately show ?thesis using Cons.IH [OF _ Cons.prems(2) srt] Cons.prems(4) by auto
    next
      case False
      have "mem_ID a < mem_ID m" if "a \<in> set acc" for a
        using normalize_lt [OF Cons.prems(2) _ False that] Cons.prems(4) by simp
      then have "members_ok (acc @ [m])"
        using Cons.prems(2) val by (auto simp: members_ok_def sorted_wrt_snoc)
      moreover have "normalize (acc @ [m]) ms = Inr out" using Cons.prems(1) val False by auto
      ultimately show ?thesis using Cons.IH [of "acc @ [m]", OF _ _ srt] Cons.prems(4) le by auto
    qed
  qed simp
  then show "members_ok out" "set acc \<subseteq> set out" "set out \<subseteq> set acc \<union> set ms"
    "mem_ID ` set out = mem_ID ` (set acc \<union> set ms)" by auto
qed

definition bad_member :: "Member \<Rightarrow> bool" where
  "bad_member m \<longleftrightarrow> mem_ID m = [] \<or> \<not> validAddress (mem_Address m)"

lemma normalize_fails: "(\<exists>e. normalize acc ms = Inl e) \<longleftrightarrow> (\<exists>m\<in>set ms. bad_member m)"
  by (induction ms arbitrary: acc) (auto simp: bad_member_def)

lemma normalize_first:
  assumes "normalize acc ms = Inr out" "sorted (map (\<lambda>m. (mem_ID m, mem_Address m)) ms)"
    and "\<forall>a\<in>set acc. \<forall>m\<in>set acc \<union> set ms. mem_ID m = mem_ID a \<longrightarrow> mem_Address a \<le> mem_Address m"
    and "\<forall>a\<in>set acc. \<forall>m\<in>set ms. mem_ID a \<le> mem_ID m" "members_ok acc"
  shows "\<forall>a\<in>set out. \<forall>m\<in>set acc \<union> set ms. mem_ID m = mem_ID a \<longrightarrow> mem_Address a \<le> mem_Address m"
  using assms
proof (induction ms arbitrary: acc)
  case (Cons m ms)
  have srt: "sorted (map (\<lambda>m. (mem_ID m, mem_Address m)) ms)" using Cons.prems(2) by simp
  have le: "mem_ID m \<le> mem_ID x" "mem_ID x = mem_ID m \<Longrightarrow> mem_Address m \<le> mem_Address x" if "x \<in> set ms" for x
    using Cons.prems(2) that by (auto simp: less_eq_prod_def)
  show ?case
  proof (cases "acc \<noteq> [] \<and> mem_ID (last acc) = mem_ID m")
    case True
    then have n: "normalize acc ms = Inr out" using Cons.prems(1) by (auto split: if_splits)
    have ih: "\<forall>a\<in>set out. \<forall>x\<in>set acc \<union> set ms. mem_ID x = mem_ID a \<longrightarrow> mem_Address a \<le> mem_Address x"
      using Cons.IH [OF n srt] Cons.prems(3-5) by auto
    have l: "last acc \<in> set acc" "mem_ID (last acc) = mem_ID m" "mem_Address (last acc) \<le> mem_Address m"
      using True Cons.prems(3) by auto
    have "mem_Address a \<le> mem_Address m" if "a \<in> set out" "mem_ID m = mem_ID a" for a
      using ih that l by (metis Un_iff order_trans)
    then show ?thesis using ih by auto
  next
    case False
    then have n: "normalize (acc @ [m]) ms = Inr out" using Cons.prems(1) by (auto split: if_splits)
    have lt: "mem_ID a < mem_ID m" if "a \<in> set acc" for a
      using normalize_lt [OF Cons.prems(5) _ False that] Cons.prems(4) by simp
    have ok: "members_ok (acc @ [m])"
      using Cons.prems(1,5) lt by (auto simp: members_ok_def sorted_wrt_snoc split: if_splits)
    have f: "\<forall>a\<in>set (acc @ [m]). \<forall>x\<in>set (acc @ [m]) \<union> set ms. mem_ID x = mem_ID a \<longrightarrow> mem_Address a \<le> mem_Address x"
    proof (intro ballI impI)
      fix a x assume ax: "a \<in> set (acc @ [m])" "x \<in> set (acc @ [m]) \<union> set ms" "mem_ID x = mem_ID a"
      show "mem_Address a \<le> mem_Address x"
      proof (cases "a \<in> set acc")
        case True
        then show ?thesis using Cons.prems(3) ax by auto
      next
        case False
        then have "a = m" using ax(1) by simp
        moreover have "x \<notin> set acc" using lt ax(3) \<open>a = m\<close> by force
        ultimately show ?thesis using ax le(2) by auto
      qed
    qed
    have g: "\<forall>a\<in>set (acc @ [m]). \<forall>x\<in>set ms. mem_ID a \<le> mem_ID x" using Cons.prems(4) le(1) by auto
    have "set (acc @ [m]) \<union> set ms = set acc \<union> set (m # ms)" by simp
    then show ?thesis using Cons.IH [OF n srt f g ok] by (simp only:)
  qed
qed simp

lemma sortMembers_sorted: "sorted (map (\<lambda>m. (mem_ID m, mem_Address m)) (sortMembers ms))" "set (sortMembers ms) = set ms"
  by (simp_all add: sortMembers_def)

lemma sameMembers_eq: "sameMembers a b \<longleftrightarrow> a = b"
  by (auto simp: sameMembers_def list.rel_eq)

lemma newSnapshot_update [simp]: "newSnapshot (r\<lparr>dir_state := s\<rparr>) ms = newSnapshot r ms"
  by (simp add: newSnapshot_def)

definition first_addresses :: "Member set \<Rightarrow> Member set" where
  "first_addresses M = {m \<in> M. \<forall>m'\<in>M. mem_ID m' = mem_ID m \<longrightarrow> mem_Address m \<le> mem_Address m'}"

lemma Update_spec:
  assumes "dir_start r" "Update input r = (err, r')"
  shows "if \<exists>m\<in>set input. bad_member m then err \<noteq> None \<and> r' = r
         else err = None \<and> dir_inv r' \<and> set (directory_Members r') = first_addresses (set input) \<and>
              sorted_wrt (\<lambda>a b. mem_ID a < mem_ID b) (directory_Members r')"
proof (cases "\<exists>m\<in>set input. bad_member m")
  case True
  then obtain e where "normalize [] (sortMembers input) = Inl e"
    using normalize_fails [of "[]" "sortMembers input"] sortMembers_sorted(2) by auto
  then show ?thesis using True assms(2) by (auto simp: Update_def)
next
  case False
  then obtain out where n: "normalize [] (sortMembers input) = Inr out"
    using normalize_fails [of "[]" "sortMembers input"] sortMembers_sorted(2) by (cases "normalize [] (sortMembers input)") auto
  have ok: "members_ok out" "set out \<subseteq> set input" "mem_ID ` set out = mem_ID ` set input"
    using normalize_ok [OF n _ sortMembers_sorted(1)] sortMembers_sorted(2) by (auto simp: members_ok_def)
  have first: "\<forall>a\<in>set out. \<forall>m\<in>set input. mem_ID m = mem_ID a \<longrightarrow> mem_Address a \<le> mem_Address m"
    using normalize_first [OF n sortMembers_sorted(1)] sortMembers_sorted(2) by (auto simp: members_ok_def)
  have "set out = first_addresses (set input)"
  proof
    show "set out \<subseteq> first_addresses (set input)" using ok(2) first by (auto simp: first_addresses_def)
    show "first_addresses (set input) \<subseteq> set out"
    proof
      fix m assume m: "m \<in> first_addresses (set input)"
      then obtain a where a: "a \<in> set out" "mem_ID a = mem_ID m"
        using ok(3) unfolding first_addresses_def by (metis (no_types, lifting) imageE image_eqI mem_Collect_eq)
      then have "mem_Address a = mem_Address m"
        using m first ok(2) by (fastforce simp: first_addresses_def)
      then have "a = m" using a(2) by simp
      then show "m \<in> set out" using a(1) by simp
    qed
  qed
  moreover have "directory_Members r' = out \<and> dir_inv r' \<and> err = None"
    using assms n ok(1)
    by (auto simp: Update_def dir_start_def dir_inv_def directory_Members_def sameMembers_eq newSnapshot_def
        split: option.splits if_splits)
  ultimately show ?thesis using False ok(1) by (simp add: members_ok_def)
qed

text \<open>
  C27: what a directory update publishes depends only on the set of announced members, not on
  their order or multiplicity. One invalid member refuses the whole update and leaves the directory
  as it was; otherwise the members are the announced ones with the lexically first address of
  each id, in increasing order of their ids, and the directory stays well formed.
\<close>

theorem Update_canonical:
  assumes "dir_start r" "Update input r = (err, r')"
  shows "if \<exists>m\<in>set input. bad_member m then err \<noteq> None \<and> r' = r
         else err = None \<and> dir_inv r' \<and> set (directory_Members r') = first_addresses (set input) \<and>
              sorted_wrt (\<lambda>a b. mem_ID a < mem_ID b) (directory_Members r')"
  using assms by (rule Update_spec)

definition sampleMember :: "string \<Rightarrow> string \<Rightarrow> Member" where
  "sampleMember i a = \<lparr>mem_ID = i, mem_Address = a\<rparr>"

definition sampleDirectory :: Directory where
  "sampleDirectory = \<lparr>dir_selfID = ''n1'', dir_timeout = Second, dir_token = ''t'', dir_state = None\<rparr>"

lemma sample_address: "validAddress ''h:8001''" "validAddress ''g:8001''"
  by (simp_all add: validAddress_def SplitHostPort_def lastIndex_def Atoi_def ParseInt_def isDigit_def digitsVal_def digitVal_def)

theorem Update_canonical_witness:
  "let input = [sampleMember ''n2'' ''h:8001'', sampleMember ''n1'' ''h:8001'', sampleMember ''n2'' ''g:8001'']
   in dir_inv (snd (Update input sampleDirectory)) \<and>
      set (directory_Members (snd (Update input sampleDirectory))) = first_addresses (set input)"
proof -
  let ?input = "[sampleMember ''n2'' ''h:8001'', sampleMember ''n1'' ''h:8001'', sampleMember ''n2'' ''g:8001'']"
  have "dir_start sampleDirectory" by (simp add: dir_start_def sampleDirectory_def)
  moreover have "\<not> (\<exists>m\<in>set ?input. bad_member m)"
    by (simp add: bad_member_def sampleMember_def sample_address)
  ultimately show ?thesis
    using Update_canonical [of sampleDirectory ?input "fst (Update ?input sampleDirectory)" "snd (Update ?input sampleDirectory)"]
    by (simp add: Let_def)
qed

section \<open>The fan-out\<close>

lemma resultStatus_ok: "resultStatus err = ''ok'' \<Longrightarrow> err = None"
  by (simp add: resultStatus_def split: option.splits if_splits)

lemma fan_out_other:
  "fan_out call order results w = (results', w') \<Longrightarrow>
   length results' = length results \<and> (\<forall>j. j \<notin> Suc ` set order \<longrightarrow> results' ! j = results ! j)"
  by (induction order arbitrary: results w) (fastforce split: prod.splits)+

lemma fan_out_applied:
  assumes "fan_out call order results w = (results', w')" "distinct order" "\<forall>i\<in>set order. i + 1 < length results"
    and call: "\<And>i w err w'. i \<in> set order \<Longrightarrow> call i w = (err, w') \<Longrightarrow> I w \<Longrightarrow>
                 I w' \<and> (\<forall>j. A j w \<longrightarrow> A j w') \<and> (err = None \<longrightarrow> A i w')"
    and "I w"
  shows "I w' \<and> (\<forall>j. A j w \<longrightarrow> A j w') \<and> (\<forall>i\<in>set order. res_Status (results' ! (i + 1)) = ''ok'' \<longrightarrow> A i w')"
  using assms
proof (induction order arbitrary: results w)
  case (Cons i order)
  obtain err w1 where c: "call i w = (err, w1)" by (cases "call i w")
  let ?res = "results[i + 1 := (results ! (i + 1))\<lparr>res_Status := resultStatus err\<rparr>]"
  have f: "fan_out call order ?res w1 = (results', w')" using Cons.prems(1) c by simp
  have c1: "I w1" "\<And>j. A j w \<Longrightarrow> A j w1" "err = None \<Longrightarrow> A i w1"
    using Cons.prems(4) [OF _ c Cons.prems(5)] by simp_all
  have ih: "I w' \<and> (\<forall>j. A j w1 \<longrightarrow> A j w') \<and> (\<forall>k\<in>set order. res_Status (results' ! (k + 1)) = ''ok'' \<longrightarrow> A k w')"
    by (rule Cons.IH [OF f _ _ Cons.prems(4) [OF list.set_intros(2)] c1(1)]) (use Cons.prems(2,3) in auto)
  have "results' ! (i + 1) = ?res ! (i + 1)" using fan_out_other [OF f] Cons.prems(2) by auto
  then have "res_Status (results' ! (i + 1)) = ''ok'' \<Longrightarrow> err = None"
    using Cons.prems(3) resultStatus_ok by simp
  then show ?case using ih c1 by auto
qed simp

lemma dir_inv_members:
  assumes "dir_inv r" "m \<in> set (others r)"
  shows "validAddress (mem_Address m)" "\<forall>c\<in>set (mem_Address m). c \<notin> set ''/?#''"
proof -
  show "validAddress (mem_Address m)"
    using assms by (auto simp: dir_inv_def others_def directory_Members_def newSnapshot_def members_ok_def list_all_iff)
  then show "\<forall>c\<in>set (mem_Address m). c \<notin> set ''/?#''" by (auto simp: validAddress_def split: if_splits)
qed

lemma clients_of_eq:
  assumes "dir_inv r"
  shows "clients_of r = map (\<lambda>m. \<lparr>cl_address = mem_Address m, cl_timeout = dir_timeout r, cl_token = dir_token r\<rparr>) (others r)"
proof -
  obtain ms where ms: "dir_state r = Some (newSnapshot r ms)" "members_ok ms" using assms by (auto simp: dir_inv_def)
  have d: "distinct (map mem_ID ms)"
    using ms(2) by (auto simp: members_ok_def sorted_wrt_map [symmetric] strict_sorted_iff)
  let ?f = "\<lambda>m. (mem_ID m, \<lparr>cl_address = mem_Address m, cl_timeout = dir_timeout r, cl_token = dir_token r\<rparr>)"
  have "map_of (rev (map ?f ms)) (mem_ID m) = Some (snd (?f m))" if "m \<in> set ms" for m
    by (rule map_of_is_SomeI) (use d that in \<open>auto simp: rev_map [symmetric] comp_def\<close>)
  then show ?thesis
    by (auto simp: clients_of_def ms(1) others_def directory_Members_def newSnapshot_def)
qed

lemma complete_report_applied:
  assumes "dir_inv r" "group_inv g" "nodes_inv w" "0 < version" "int64 version"
    and "distinct order" "set order = {..<length (others r)}"
    and "directory_InvalidateVersion bracketed (member_network fate t1 t2) order t3 t4 r g key version w =
           ((report, err), g', w')" "rep_Complete report"
  shows "version \<le> floor_at (floors g') key \<and>
         (\<forall>m\<in>set (others r). \<exists>user host h gm. parseAuthority bracketed (mem_Address m) = Some (user, host) \<and>
            w' host = Some h \<and> h_groups h (group_name g) = Some gm \<and> version \<le> floor_at (floors gm) key)"
proof -
  obtain e g1 where i: "InvalidateVersion t3 t4 key version g = (e, g1)" by (cases "InvalidateVersion t3 t4 key version g")
  have e: "e = None" using assms(8,9) by (cases e) (auto simp: directory_InvalidateVersion_def i noReport_def)
  have name: "group_name g1 = group_name g" using InvalidateVersion_name [of t3 t4 key version g] i by simp
  let ?call = "\<lambda>i. client_InvalidateVersion bracketed (member_network fate t1 t2) (clients_of r ! i) (group_name g) key version"
  let ?results = "\<lparr>res_Node = dir_selfID r, res_Status = ''ok''\<rparr> # map (\<lambda>m. \<lparr>res_Node = mem_ID m, res_Status = ''''\<rparr>) (others r)"
  obtain results' where f: "fan_out ?call order ?results w = (results', w')"
      "list_all (\<lambda>x. res_Status x = ''ok'') results'" and g': "g' = g1"
    using assms(8,9) by (auto simp: directory_InvalidateVersion_def i e name Let_def split: prod.splits)
  have floor: "version \<le> floor_at (floors g') key"
    using InvalidateVersion_floor(2) [OF assms(2,4), where ?t1.0 = t3 and ?t2.0 = t4 and key = key] i e g' by simp
  have addr: "cl_address (clients_of r ! i) = mem_Address (others r ! i)" "\<forall>ch\<in>set (cl_address (clients_of r ! i)). ch \<notin> set ''/?#''"
    if "i < length (others r)" for i
    using dir_inv_members(2) [OF assms(1) nth_mem [OF that]] that by (simp_all add: clients_of_eq [OF assms(1)])
  define A where "A i w \<longleftrightarrow> (\<exists>user host. parseAuthority bracketed (mem_Address (others r ! i)) = Some (user, host) \<and>
      applied_at (group_name g) key version host w)" for i and w :: "string \<rightharpoonup> Handler"
  have calls: "nodes_inv v'" "A j v \<Longrightarrow> A j v'" "err' = None \<Longrightarrow> A i v'"
    if "i \<in> set order" "?call i v = (err', v')" "nodes_inv v" for i j v err' v'
  proof -
    have "i < length (others r)" using that(1) assms(7) by simp
    note cc = client_call [OF that(2) addr(2) [OF this] assms(4,5) that(3)]
    show "nodes_inv v'" by (rule cc(1))
    show "A j v \<Longrightarrow> A j v'" using cc(2) unfolding A_def by blast
    show "err' = None \<Longrightarrow> A i v'" using cc(3) addr(1) [OF \<open>i < length (others r)\<close>] unfolding A_def by simp
  qed
  have lens: "\<forall>i\<in>set order. i + 1 < length ?results" using assms(7) by simp
  have app: "\<forall>i\<in>set order. res_Status (results' ! (i + 1)) = ''ok'' \<longrightarrow> A i w'"
    using fan_out_applied [where I = nodes_inv and A = A, OF f(1) assms(6) lens _ assms(3)] calls by blast
  have len: "length results' = length (others r) + 1" using fan_out_other [OF f(1)] by simp
  have "A i w'" if "i < length (others r)" for i
    using app f(2) that len assms(7) by (simp add: list_all_length)
  then have "\<exists>user host. parseAuthority bracketed (mem_Address m) = Some (user, host) \<and>
      applied_at (group_name g) key version host w'" if "m \<in> set (others r)" for m
    using that by (auto simp: A_def in_set_conv_nth)
  then show ?thesis using floor by (fastforce simp: applied_at_def applied_def)
qed

text \<open>
  C24: a complete report means every known member applied the notification. For every group name
  and key, every order of the calls and every behaviour of the network (lost requests, lost
  replies, members with another token or without the group): if the report says complete, the
  initiator and every member of the snapshot hold at least that version as the floor of the key.
\<close>

theorem complete_report_applied_everywhere:
  assumes "dir_inv r" "group_inv g" "nodes_inv w" "0 < version" "int64 version"
    and "distinct order" "set order = {..<length (others r)}"
    and "directory_InvalidateVersion bracketed (member_network fate t1 t2) order t3 t4 r g key version w =
           ((report, err), g', w')" "rep_Complete report"
  shows "version \<le> floor_at (floors g') key \<and>
         (\<forall>m\<in>set (others r). \<exists>user host h gm. parseAuthority bracketed (mem_Address m) = Some (user, host) \<and>
            w' host = Some h \<and> h_groups h (group_name g) = Some gm \<and> version \<le> floor_at (floors gm) key)"
  by (rule complete_report_applied [OF assms])

section \<open>A reachable member\<close>

definition no_control :: "string \<Rightarrow> bool" where
  "no_control s = list_all (\<lambda>c. 32 \<le> code c \<and> code c \<noteq> 127) s"

lemma target_parses:
  assumes "\<forall>c\<in>set addr. c \<notin> set ''/?#''" "no_control addr" "parseAuthority bracketed addr = Some (user, host)"
  shows "\<exists>u. url_Parse bracketed (''http://'' @ addr @ invalidation_path grp key) = Some u"
proof -
  let ?p = "invalidation_path grp key"
  let ?t = "''http://'' @ addr @ ?p"
  have pc: "CHR ''#'' \<notin> set ?p" "CHR ''?'' \<notin> set ?p"
    using path_chars [of _ grp key] segment_char_props by fastforce+
  then have "CHR ''#'' \<notin> set ?t" "CHR ''?'' \<notin> set (''//'' @ addr @ ?p)" using assms(1) by auto
  then have cut: "Cut (CHR ''#'') ?t = (?t, [], False)" "cutQuery (''//'' @ addr @ ?p) = (''//'' @ addr @ ?p, [])"
    by (auto simp: Cut_absent cutQuery_absent)
  have split: "takeWhile (\<lambda>c. c \<noteq> CHR ''/'') (addr @ ?p) = addr" "dropWhile (\<lambda>c. c \<noteq> CHR ''/'') (addr @ ?p) = ?p"
    using assms(1) by (auto simp: takeWhile_append dropWhile_append invalidation_path_def BasePath_def)
  have scheme: "getScheme ?t = Some (''http'', ''//'' @ addr @ ?p)"
    using scheme_http [of "''//'' @ addr @ ?p"] by simp
  have "\<not> (code c < 32 \<or> code c = 127)" if "c \<in> set ?p" for c
    using path_chars [OF that] segment_char_props(4,5) [of c] by (auto simp: code_def)
  then have "\<not> list_ex (\<lambda>c. code c < 32 \<or> code c = 127) ?p" by (auto simp: list_ex_iff)
  moreover have "\<not> list_ex (\<lambda>c. code c < 32 \<or> code c = 127) addr"
    using assms(2) by (auto simp: no_control_def list_ex_iff list_all_iff)
  moreover have "\<not> list_ex (\<lambda>c. code c < 32 \<or> code c = 127) ''http://''" by (simp add: code_def)
  ultimately have ctl: "\<not> list_ex (\<lambda>c. code c < 32 \<or> code c = 127) ?t" by (simp only: list_ex_append simp_thms)
  obtain u where "parse_rest bracketed (map lowerChar ''http'') (''//'' @ addr @ ?p) [] = Some u"
    using split assms(3) by (auto simp: parse_rest_def HasPrefix_def Let_def setPath_def path_unescape)
  then show ?thesis using cut scheme ctl by (simp add: url_Parse_def)
qed

lemma client_delivers:
  assumes "\<forall>c\<in>set (cl_address c). c \<notin> set ''/?#''" "no_control (cl_address c)"
    and "parseAuthority bracketed (cl_address c) = Some (user, host)"
    and "fate host = Delivered" "w host = Some h" "h_token h = cl_token c" "cl_token c \<noteq> ''''"
    and "h_groups h grp = Some g" "ValidateKey key = None" "0 < version" "int64 version"
  shows "client_InvalidateVersion bracketed (member_network fate t1 t2) c grp key version w =
           (None, w(host \<mapsto> h\<lparr>h_groups := (h_groups h)(grp \<mapsto> snd (InvalidateVersion t1 t2 key version g))\<rparr>))"
proof -
  obtain u where "url_Parse bracketed (''http://'' @ cl_address c @ invalidation_path grp key) = Some u"
    using target_parses [OF assms(1-3)] by blast
  then obtain req where req: "newInvalidation bracketed c grp key version = Some req"
      "req_Header req = HeaderSet InvalidationVersionHeader (FormatInt version) (HeaderSet ''Authorization'' (''Bearer '' @ cl_token c) [])"
    using assms(10) by (simp add: newInvalidation_def invalidation_path_def Let_def)
  note sp = newInvalidation_spec [OF req(1) assms(1,10,11)]
  obtain r where r: "over_wire req = Some r" "EscapedPath (req_URL r) = invalidation_path grp key"
      "req_Method r = ''DELETE''" "req_Header r = req_Header req"
    using sp(1,3) by auto
  have "HeaderGet ''Authorization'' (req_Header r) = ''Bearer '' @ cl_token c"
    unfolding r(4) req(2)
    by (subst HeaderGet_Set_other) (simp_all add: HeaderGet_Set InvalidationVersionHeader_def isLower_def isUpper_def code_def)
  then have auth: "Authorized (req_Header r) (h_token h)" using assms(6,7) by (simp add: Authorized_def)
  have host: "url_Host (req_URL req) = host" using sp(4) assms(3) by simp
  let ?h' = "h\<lparr>h_groups := (h_groups h)(grp \<mapsto> snd (InvalidateVersion t1 t2 key version g))\<rparr>"
  let ?resp = "\<lparr>resp_Status = 204, resp_Header = HeaderSet InvalidationVersionHeader (FormatInt version) [], resp_Body = []\<rparr>"
  obtain g' where i: "InvalidateVersion t1 t2 key version g = (None, g')"
    using InvalidateVersion_ok [of t1 t2 key version g] assms(9,10) by (cases "InvalidateVersion t1 t2 key version g") auto
  have "handler_invalidate t1 t2 r grp key h = (?resp, ?h')"
    using assms(8,10) sp(2) by (simp add: handler_invalidate_def r(4) i)
  then have serve: "handler_ServeHTTP t1 t2 r h = (?resp, ?h')"
    using auth assms(6,7) serve_path [OF r(2,3)] by (simp only: serve_path [OF r(2,3)]) simp
  have "acknowledged version ?resp = None"
    using ParseInvalidationVersion_Set [OF assms(10,11)] by (simp add: acknowledged_def)
  then show ?thesis
    using assms(4,5,10) by (simp add: client_InvalidateVersion_def req(1) member_network_def Let_def host r(1) serve)
qed


definition sampleHandler :: Handler where
  "sampleHandler = \<lparr>h_groups = [group_name sampleGroup \<mapsto> sampleGroup], h_token = ''t''\<rparr>"

definition sampleNodes :: "string \<rightharpoonup> Handler" where
  "sampleNodes = [''h:8001'' \<mapsto> sampleHandler]"

definition sampleClient :: Client where
  "sampleClient = \<lparr>cl_address = ''h:8001'', cl_timeout = Second, cl_token = ''t''\<rparr>"

definition joinedDirectory :: Directory where
  "joinedDirectory = sampleDirectory\<lparr>dir_state := Some (newSnapshot sampleDirectory
     [sampleMember ''n1'' ''g:8001'', sampleMember ''n2'' ''h:8001''])\<rparr>"

lemma sample_authority: "parseAuthority (\<lambda>_. None) ''h:8001'' = Some (False, ''h:8001'')"
  by (simp add: parseAuthority_def parseHost_def lastIndex_def validOptionalPort_def isDigit_def plain_char_def
      shouldEscape_def isAlnum_def isLower_def code_def)

lemma sample_client_address: "\<forall>c\<in>set (cl_address sampleClient). c \<notin> set ''/?#''" "no_control (cl_address sampleClient)"
  by (simp_all add: sampleClient_def no_control_def code_def)

lemma sample_valid: "ValidateKey ''k'' = None"
  by code_simp

lemma sample_int64: "int64 3"
  by (simp add: int64_def)


lemma joined_inv: "dir_inv joinedDirectory"
proof -
  have "members_ok [sampleMember ''n1'' ''g:8001'', sampleMember ''n2'' ''h:8001'']"
    by (simp add: members_ok_def sampleMember_def sample_address less_char_def)
  then show ?thesis
    by (auto simp: dir_inv_def joinedDirectory_def intro!: exI [of _ "[sampleMember ''n1'' ''g:8001'', sampleMember ''n2'' ''h:8001'']"])
qed

lemma joined_others: "others joinedDirectory = [sampleMember ''n2'' ''h:8001'']"
  by (simp add: others_def joinedDirectory_def directory_Members_def newSnapshot_def sampleMember_def sampleDirectory_def)

lemma joined_client: "clients_of joinedDirectory = [sampleClient]"
  unfolding clients_of_eq [OF joined_inv] joined_others
  by (simp add: sampleClient_def sampleMember_def joinedDirectory_def sampleDirectory_def)

lemma sample_nodes_inv: "nodes_inv sampleNodes"
  by (auto simp: nodes_inv_def handler_inv_def sampleNodes_def sampleHandler_def sampleGroup_inv split: if_splits)

lemma sample_fan_out:
  "\<exists>report g' w'. directory_InvalidateVersion (\<lambda>_. None) (member_network (\<lambda>_. Delivered) 0 0) [0] 0 0
     joinedDirectory sampleGroup ''k'' 3 sampleNodes = ((report, None), g', w') \<and> rep_Complete report \<and> rep_KnownMembers report = 2"
proof -
  let ?run = "directory_InvalidateVersion (\<lambda>_. None) (member_network (\<lambda>_. Delivered) 0 0) [0] 0 0 joinedDirectory sampleGroup ''k'' 3 sampleNodes"
  obtain g1 where i: "InvalidateVersion 0 0 ''k'' 3 sampleGroup = (None, g1)"
    using InvalidateVersion_ok [of 0 0 "''k''" 3 sampleGroup] sample_valid by (cases "InvalidateVersion 0 0 ''k'' 3 sampleGroup") auto
  have name: "group_name g1 = group_name sampleGroup" using InvalidateVersion_name [of 0 0 "''k''" 3 sampleGroup] i by simp
  have call: "fst (client_InvalidateVersion (\<lambda>_. None) (member_network (\<lambda>_. Delivered) 0 0) sampleClient (group_name sampleGroup) ''k'' 3 sampleNodes) = None"
    using client_delivers [OF sample_client_address, of "\<lambda>_. None" False "''h:8001''" "\<lambda>_. Delivered" sampleNodes
      sampleHandler "group_name sampleGroup" sampleGroup "''k''" 3 0 0]
    by (simp add: sample_authority sample_valid sample_int64 sampleClient_def sampleNodes_def sampleHandler_def)
  have two: "length (directory_Members joinedDirectory) = 2"
    by (simp add: directory_Members_def joinedDirectory_def newSnapshot_def)
  obtain report err g' w' where run: "?run = ((report, err), g', w')" by (metis prod.exhaust)
  moreover have "rep_Complete report \<and> err = None \<and> rep_KnownMembers report = 2"
    using run call two by (auto simp: directory_InvalidateVersion_def i name joined_client joined_others resultStatus_def Let_def split: prod.splits)
  ultimately show ?thesis by blast
qed

theorem complete_report_applied_everywhere_witness:
  "\<exists>h gm. snd (snd (directory_InvalidateVersion (\<lambda>_. None) (member_network (\<lambda>_. Delivered) 0 0) [0] 0 0
             joinedDirectory sampleGroup ''k'' 3 sampleNodes)) ''h:8001'' = Some h \<and>
     h_groups h (group_name sampleGroup) = Some gm \<and> 3 \<le> floor_at (floors gm) ''k''"
proof -
  obtain report g' w' where run: "directory_InvalidateVersion (\<lambda>_. None) (member_network (\<lambda>_. Delivered) 0 0) [0] 0 0
      joinedDirectory sampleGroup ''k'' 3 sampleNodes = ((report, None), g', w')" "rep_Complete report"
    using sample_fan_out by blast
  then have "\<forall>m\<in>set (others joinedDirectory). \<exists>user host h gm. parseAuthority (\<lambda>_. None) (mem_Address m) = Some (user, host) \<and>
      w' host = Some h \<and> h_groups h (group_name sampleGroup) = Some gm \<and> 3 \<le> floor_at (floors gm) ''k''"
    using complete_report_applied_everywhere [OF joined_inv sampleGroup_inv sample_nodes_inv _ sample_int64 _ _ run(1)]
    by (simp add: joined_others lessThan_Suc)
  then show ?thesis by (auto simp: run(1) joined_others sampleMember_def sample_authority)
qed

end
