(* ===== verification/App_Mutation.thy ===== *)
theory App_Mutation
  imports Store_Run Delivery
begin

text \<open>
  \<open>internal/app/mutations.go\<close>: the write path behind the HTTP API, a conditional source write
  followed by the notification of the members. The source and the directory are functions that
  pass the world's state along; \<open>clk n\<close> is the n-th clock reading. The contract of a mutable source
  is a locale; it is interpreted on the PostgreSQL store.
\<close>

section \<open>Types\<close>

record mutationResponse =
  mr_SourceCommitted :: "bool option"
  mr_SourceVersion :: "int option"
  mr_Invalidation :: "InvalidationReport option"
  mr_Error :: string

datatype mutationKind = mutationNotify | mutationPut | mutationDelete

record mutationCommand =
  mc_kind :: mutationKind
  mc_key :: string
  mc_value :: bytes
  mc_expected :: int
  mc_version :: int

record mutationOutcome =
  mo_response :: mutationResponse
  mo_writeErr :: "goerror option"
  mo_broadcastErr :: "goerror option"

record 's MutableSource =
  ms_PutIfVersion :: "gocontext \<Rightarrow> string \<Rightarrow> bytes \<Rightarrow> int \<Rightarrow> 's \<Rightarrow> (int \<times> goerror option) \<times> 's"
  ms_DeleteIfVersion :: "gocontext \<Rightarrow> string \<Rightarrow> int \<Rightarrow> 's \<Rightarrow> (int \<times> goerror option) \<times> 's"

type_synonym 's invalidator =
  "gocontext \<Rightarrow> string \<Rightarrow> int \<Rightarrow> 's \<Rightarrow> (InvalidationReport \<times> goerror option) \<times> 's"

type_synonym observation = "string \<times> string \<times> duration"

definition mutationTimeout :: duration where "mutationTimeout = 3 * Second"
definition mutationSourceTimeout :: duration where "mutationSourceTimeout = 800 * Millisecond"

section \<open>Execution\<close>

definition no_response :: mutationResponse where
  "no_response = \<lparr>mr_SourceCommitted = None, mr_SourceVersion = None, mr_Invalidation = None, mr_Error = ''''\<rparr>"

text \<open>The source write: the error the code goes on with, and the response so far.\<close>

definition source_write ::
  "(nat \<Rightarrow> gotime) \<Rightarrow> gocontext \<Rightarrow> 's MutableSource \<Rightarrow> mutationCommand \<Rightarrow> 's \<Rightarrow> (mutationResponse \<times> goerror option) \<times> 's" where
  "source_write clk work store command s =
     (let src = WithTimeout work (clk 1) mutationSourceTimeout in
      case (if mc_kind command = mutationPut
            then ms_PutIfVersion store src (mc_key command) (mc_value command) (mc_expected command) s
            else ms_DeleteIfVersion store src (mc_key command) (mc_expected command) s) of
        ((committedVersion, err), s') \<Rightarrow>
          (let err' = (if err = None \<and> committedVersion \<le> 0
                       then Some (NewError ''source returned an invalid committed version'') else err)
           in ((if err' = None
                then no_response\<lparr>mr_SourceCommitted := Some True, mr_SourceVersion := Some committedVersion\<rparr>
                else no_response, err'), s')))"

definition broadcast ::
  "(nat \<Rightarrow> gotime) \<Rightarrow> gocontext \<Rightarrow> 's invalidator \<Rightarrow> mutationCommand \<Rightarrow> mutationResponse \<Rightarrow> goerror option \<Rightarrow>
   observation list \<Rightarrow> 's \<Rightarrow> (mutationOutcome \<times> observation list) \<times> 's" where
  "broadcast clk work router command response writeErr obs s =
     (let version = (case mr_SourceVersion response of Some v \<Rightarrow> v | None \<Rightarrow> mc_version command) in
      case router work (mc_key command) version s of
        ((report, Some err), s') \<Rightarrow>
          ((\<lparr>mo_response = response, mo_writeErr = writeErr, mo_broadcastErr = Some err\<rparr>,
            obs @ [(''broadcast'', ''error'', clk 4 - clk 3)]), s')
      | ((report, None), s') \<Rightarrow>
          ((\<lparr>mo_response = response\<lparr>mr_Invalidation := Some report,
               mr_Error := (if writeErr \<noteq> None
                            then ''source write failed; commit status is unknown; verify the source before retrying''
                            else mr_Error response)\<rparr>,
             mo_writeErr = writeErr, mo_broadcastErr = None\<rparr>,
            obs @ [(''broadcast'', if rep_Complete report then ''complete'' else ''partial'', clk 4 - clk 3)]), s'))"

definition executeMutation ::
  "(nat \<Rightarrow> gotime) \<Rightarrow> gocontext option \<Rightarrow> 's MutableSource \<Rightarrow> 's invalidator \<Rightarrow> mutationCommand \<Rightarrow> 's \<Rightarrow>
   (mutationOutcome \<times> observation list) \<times> 's" where
  "executeMutation clk lifecycle store router command s =
     (let work = WithTimeout (case lifecycle of None \<Rightarrow> Background | Some c \<Rightarrow> c) (clk 0) mutationTimeout in
      if mc_kind command = mutationNotify then broadcast clk work router command no_response None [] s
      else case source_write clk work store command s of
        ((response, writeErr), s1) \<Rightarrow>
          (let obs = [(''write'', Result writeErr, clk 2 - clk 1)] in
           if writeErr \<noteq> None \<and> errors_Is (the writeErr) ErrPreconditionFailed
           then ((\<lparr>mo_response = response\<lparr>mr_SourceCommitted := Some False,
                      mr_Error := ''precondition failed; refresh the value before retrying''\<rparr>,
                    mo_writeErr = writeErr, mo_broadcastErr = None\<rparr>, obs), s1)
           else broadcast clk work router command response writeErr obs s1))"


section \<open>The contract of a mutable source\<close>

text \<open>Contexts end with one of the two context errors.\<close>

definition ctx_ok :: "gocontext \<Rightarrow> bool" where
  "ctx_ok c \<longleftrightarrow> (case c of None \<Rightarrow> True | Some (_, e) \<Rightarrow> e = Canceled \<or> e = DeadlineExceeded)"

lemma ctx_ok_WithTimeout: "ctx_ok c \<Longrightarrow> ctx_ok (WithTimeout c now d)"
  by (auto simp: ctx_ok_def WithTimeout_def split: option.splits)

lemma ctx_ok_Err: "ctx_ok c \<Longrightarrow> ctx_Err c t = Some e \<Longrightarrow> \<not> errors_Is e ErrPreconditionFailed"
  by (auto simp: ctx_ok_def ctx_Err_def split: option.splits if_splits)

text \<open>
  \<open>changed s key v s'\<close>: the source committed version \<open>v\<close> of the key between the two states;
  \<open>same s s'\<close>: the source is as it was; \<open>notified s\<close>: the notifications handed to the directory.
  A mutation changes one version or nothing; success reports the version it committed, a failed
  precondition means nothing changed; neither notifies, and notifying leaves the source alone.
\<close>

locale mutation_path =
  fixes store :: "'s MutableSource" and router :: "'s invalidator" and ok :: "'s \<Rightarrow> bool"
    and changed :: "'s \<Rightarrow> string \<Rightarrow> int \<Rightarrow> 's \<Rightarrow> bool" and same :: "'s \<Rightarrow> 's \<Rightarrow> bool" and notified :: "'s \<Rightarrow> (string \<times> int) list"
  assumes put_success: "ok s \<Longrightarrow> ctx_ok ctx \<Longrightarrow> ms_PutIfVersion store ctx key val expected s = ((v, None), s') \<Longrightarrow>
           0 < v \<and> changed s key v s'"
    and put_failure: "ok s \<Longrightarrow> ctx_ok ctx \<Longrightarrow> ms_PutIfVersion store ctx key val expected s = ((v, Some e), s') \<Longrightarrow>
           same s s' \<or> \<not> errors_Is e ErrPreconditionFailed \<and> (\<exists>u. changed s key u s')"
    and put_notified: "notified (snd (ms_PutIfVersion store ctx key val expected s)) = notified s"
    and delete_success: "ok s \<Longrightarrow> ctx_ok ctx \<Longrightarrow> ms_DeleteIfVersion store ctx key expected s = ((v, None), s') \<Longrightarrow>
           0 < v \<and> changed s key v s'"
    and delete_failure: "ok s \<Longrightarrow> ctx_ok ctx \<Longrightarrow> ms_DeleteIfVersion store ctx key expected s = ((v, Some e), s') \<Longrightarrow>
           same s s' \<or> \<not> errors_Is e ErrPreconditionFailed \<and> (\<exists>u. changed s key u s')"
    and delete_notified: "notified (snd (ms_DeleteIfVersion store ctx key expected s)) = notified s"
    and router_notified: "notified (snd (router ctx key v s)) = notified s @ [(key, v)]"
    and router_changed: "changed s key u s1 \<Longrightarrow> changed s key u (snd (router ctx k v s1))"
    and router_same: "same s s1 \<Longrightarrow> same s (snd (router ctx k v s1))"
    and same_refl: "same s s"
begin

definition call :: "gocontext \<Rightarrow> mutationCommand \<Rightarrow> 's \<Rightarrow> (int \<times> goerror option) \<times> 's" where
  "call src command s =
     (if mc_kind command = mutationPut
      then ms_PutIfVersion store src (mc_key command) (mc_value command) (mc_expected command) s
      else ms_DeleteIfVersion store src (mc_key command) (mc_expected command) s)"

lemma call_spec:
  assumes "ok s" "ctx_ok src" "call src command s = ((v, err), s')"
  shows "err = None \<Longrightarrow> 0 < v \<and> changed s (mc_key command) v s'"
    "err = Some e \<Longrightarrow> same s s' \<or> \<not> errors_Is e ErrPreconditionFailed \<and> (\<exists>u. changed s (mc_key command) u s')"
    "notified s' = notified s"
  using assms(3) put_success [OF assms(1,2)] delete_success [OF assms(1,2)] put_failure [OF assms(1,2)]
    delete_failure [OF assms(1,2)] put_notified delete_notified
  unfolding call_def by (metis snd_conv)+

lemma source_write_truth:
  assumes "ok s" "ctx_ok work" "source_write clk work store command s = ((response, writeErr), s')"
  shows "notified s' = notified s"
    "writeErr = None \<Longrightarrow> \<exists>v. 0 < v \<and> changed s (mc_key command) v s' \<and>
       response = no_response\<lparr>mr_SourceCommitted := Some True, mr_SourceVersion := Some v\<rparr>"
    "writeErr = Some e \<Longrightarrow> response = no_response \<and>
       (same s s' \<or> \<not> errors_Is e ErrPreconditionFailed \<and> (\<exists>u. changed s (mc_key command) u s'))"
proof -
  let ?src = "WithTimeout work (clk 1) mutationSourceTimeout"
  obtain v err s1 where c: "call ?src command s = ((v, err), s1)" by (metis prod.exhaust)
  note spec = call_spec [OF assms(1) ctx_ok_WithTimeout [OF assms(2)] c]
  have r: "((response, writeErr), s') =
      ((if err = None then no_response\<lparr>mr_SourceCommitted := Some True, mr_SourceVersion := Some v\<rparr> else no_response, err), s1)"
    using assms(3) spec(1) unfolding source_write_def Let_def c [unfolded call_def] by (auto split: if_splits)
  then show "notified s' = notified s"
    "writeErr = None \<Longrightarrow> \<exists>v. 0 < v \<and> changed s (mc_key command) v s' \<and>
       response = no_response\<lparr>mr_SourceCommitted := Some True, mr_SourceVersion := Some v\<rparr>"
    "writeErr = Some e \<Longrightarrow> response = no_response \<and>
       (same s s' \<or> \<not> errors_Is e ErrPreconditionFailed \<and> (\<exists>u. changed s (mc_key command) u s'))"
    using spec by auto
qed

lemma broadcast_frame:
  assumes "broadcast clk work router command response writeErr obs s = ((out, obs'), s')"
  shows "mr_SourceCommitted (mo_response out) = mr_SourceCommitted response"
    "mr_SourceVersion (mo_response out) = mr_SourceVersion response" "mo_writeErr out = writeErr"
    "\<exists>v. s' = snd (router work (mc_key command) v s) \<and>
         v = (case mr_SourceVersion response of Some u \<Rightarrow> u | None \<Rightarrow> mc_version command)"
  using assms by (auto simp: broadcast_def Let_def split: prod.splits option.splits)

lemma executeMutation_truth:
  assumes "ok s" "ctx_ok (case lifecycle of None \<Rightarrow> Background | Some c \<Rightarrow> c)" "mc_kind command \<noteq> mutationNotify"
    and "executeMutation clk lifecycle store router command s = ((out, obs), s')"
  shows "case mr_SourceCommitted (mo_response out) of
      Some True \<Rightarrow> mo_writeErr out = None \<and> (\<exists>v. 0 < v \<and> mr_SourceVersion (mo_response out) = Some v \<and>
                     changed s (mc_key command) v s' \<and> notified s' = notified s @ [(mc_key command, v)])
    | Some False \<Rightarrow> same s s' \<and> notified s' = notified s \<and> mo_writeErr out \<noteq> None
    | None \<Rightarrow> mo_writeErr out \<noteq> None \<and> mr_SourceVersion (mo_response out) = None \<and>
        (same s s' \<or> (\<exists>u. changed s (mc_key command) u s')) \<and>
        notified s' = notified s @ [(mc_key command, mc_version command)]"
proof -
  let ?work = "WithTimeout (case lifecycle of None \<Rightarrow> Background | Some c \<Rightarrow> c) (clk 0) mutationTimeout"
  obtain response writeErr s1 where w: "source_write clk ?work store command s = ((response, writeErr), s1)"
    by (metis prod.exhaust)
  note tr = source_write_truth [OF assms(1) ctx_ok_WithTimeout [OF assms(2)] w]
  show ?thesis
  proof (cases "writeErr \<noteq> None \<and> errors_Is (the writeErr) ErrPreconditionFailed")
    case True
    then obtain e where e: "writeErr = Some e" "errors_Is e ErrPreconditionFailed" by auto
    then have "s' = s1" "mr_SourceCommitted (mo_response out) = Some False" "mo_writeErr out \<noteq> None"
      using assms(3,4) w by (auto simp: executeMutation_def Let_def)
    then show ?thesis using tr(1) tr(3) [OF e(1)] e(2) by auto
  next
    case False
    then have b: "broadcast clk ?work router command response writeErr [(''write'', Result writeErr, clk 2 - clk 1)] s1 = ((out, obs), s')"
      using assms(3,4) w by (auto simp: executeMutation_def Let_def split: if_splits)
    note bf = broadcast_frame [OF b]
    show ?thesis
    proof (cases writeErr)
      case None
      from tr(2) [OF None] show ?thesis
        using bf tr(1) None router_notified router_changed by (auto simp: no_response_def)
    next
      case (Some e)
      from tr(3) [OF Some] show ?thesis
        using bf tr(1) Some by (auto simp: no_response_def router_notified intro: router_changed router_same)
    qed
  qed
qed

end

section \<open>On the PostgreSQL store\<close>

record mutWorld =
  mw_db :: database
  mw_out :: outcome
  mw_notified :: "(string \<times> int) list"

definition pgStore :: "gotime \<Rightarrow> (nat \<Rightarrow> gotime) \<Rightarrow> mutWorld MutableSource" where
  "pgStore now clk =
     \<lparr>ms_PutIfVersion = (\<lambda>ctx key val expected w.
        case PutIfVersion (mw_out w) ctx now clk key val expected (mw_db w) of (r, db') \<Rightarrow> (r, w\<lparr>mw_db := db'\<rparr>)),
      ms_DeleteIfVersion = (\<lambda>ctx key expected w.
        case DeleteIfVersion (mw_out w) ctx now clk key expected (mw_db w) of (r, db') \<Rightarrow> (r, w\<lparr>mw_db := db'\<rparr>))\<rparr>"

definition logRouter :: "(string \<Rightarrow> int \<Rightarrow> InvalidationReport \<times> goerror option) \<Rightarrow> mutWorld invalidator" where
  "logRouter answer ctx key version w = (answer key version, w\<lparr>mw_notified := mw_notified w @ [(key, version)]\<rparr>)"

definition mw_ok :: "mutWorld \<Rightarrow> bool" where
  "mw_ok w \<longleftrightarrow> db_inv (mw_db w) \<and> driver_ok (mw_out w)"

definition mw_changed :: "mutWorld \<Rightarrow> string \<Rightarrow> int \<Rightarrow> mutWorld \<Rightarrow> bool" where
  "mw_changed w key v w' \<longleftrightarrow> emits key v (mw_db w) (mw_db w')"

definition mw_same :: "mutWorld \<Rightarrow> mutWorld \<Rightarrow> bool" where
  "mw_same w w' \<longleftrightarrow> mw_db w' = mw_db w"

lemma emits_positive: "db_inv db \<Longrightarrow> emits key v db db' \<Longrightarrow> 0 < v"
  using committed_nonneg [of db key] by (simp add: emits_def)

lemma reply_contract:
  assumes "stmt_ok key stmt db" "driver_ok out" "ctx_ok ctx" "round_trip out stmt db = (r, db')"
    and "mutationResult ctx now (scan_row r) = (v, err)"
  shows "err = None \<Longrightarrow> emits key v db db'"
    "err = Some e \<Longrightarrow> db' = db \<or> \<not> errors_Is e ErrPreconditionFailed \<and> (\<exists>u. emits key u db db')"
proof -
  show "err = None \<Longrightarrow> emits key v db db'"
    using assms(1,4,5) by (auto simp: stmt_ok_def round_trip_def scan_row_def mutationResult_def
        split: outcome.splits sum.splits option.splits if_splits)
  assume err: "err = Some e"
  show "db' = db \<or> \<not> errors_Is e ErrPreconditionFailed \<and> (\<exists>u. emits key u db db')"
  proof (cases out)
    case Replied
    then show ?thesis
      using assms(1,4,5) err by (auto simp: stmt_ok_def round_trip_def scan_row_def mutationResult_def
          split: sum.splits option.splits if_splits)
  next
    case (NotExecuted x)
    then show ?thesis using assms(4) by (simp add: round_trip_def)
  next
    case (ReplyLost x)
    have "writeError ctx now (Some x) = Some e"
      using assms(2,4,5) err ReplyLost by (auto simp: round_trip_def scan_row_def mutationResult_def driver_error_def)
    then have "\<not> errors_Is e ErrPreconditionFailed"
      using assms(2) ReplyLost ctx_ok_Err [OF assms(3), of now e]
      by (auto simp: writeError_def databaseError_def driver_error_def split: option.splits)
    then show ?thesis using round_trip_emits [OF assms(1,4)] by blast
  qed
qed

lemma PutIfVersion_contract:
  assumes "mw_ok w" "ctx_ok ctx" "PutIfVersion (mw_out w) ctx now clk key val expected (mw_db w) = ((v, err), db')"
  shows "err = None \<Longrightarrow> emits key v (mw_db w) db'"
    "err = Some e \<Longrightarrow> db' = mw_db w \<or> \<not> errors_Is e ErrPreconditionFailed \<and> (\<exists>u. emits key u (mw_db w) db')"
proof -
  let ?stmt = "if expected = 0 then sql_create clk key val (mw_db w) else sql_update clk key val expected (mw_db w)"
  have ok: "stmt_ok key ?stmt (mw_db w)" using sql_ok(2,3) by simp
  have drv: "driver_ok (mw_out w)" using assms(1) by (simp add: mw_ok_def)
  consider "err \<noteq> None" "db' = mw_db w" | r where "round_trip (mw_out w) ?stmt (mw_db w) = (r, db')" "mutationResult ctx now (scan_row r) = (v, err)"
  proof (cases "validateValue key val")
    case None
    with assms(3) that show ?thesis by (auto simp: PutIfVersion_def split: if_splits prod.splits)
  next
    case (Some a)
    with assms(3) have "err = Some a" "db' = mw_db w" by (simp_all add: PutIfVersion_def)
    with that(1) show ?thesis by simp
  qed
  then have "(err = None \<longrightarrow> emits key v (mw_db w) db') \<and>
      (err = Some e \<longrightarrow> db' = mw_db w \<or> \<not> errors_Is e ErrPreconditionFailed \<and> (\<exists>u. emits key u (mw_db w) db'))"
    using reply_contract [OF ok drv assms(2)] by cases blast+
  then show "err = None \<Longrightarrow> emits key v (mw_db w) db'"
    "err = Some e \<Longrightarrow> db' = mw_db w \<or> \<not> errors_Is e ErrPreconditionFailed \<and> (\<exists>u. emits key u (mw_db w) db')" by blast+
qed

lemma DeleteIfVersion_contract:
  assumes "mw_ok w" "ctx_ok ctx" "DeleteIfVersion (mw_out w) ctx now clk key expected (mw_db w) = ((v, err), db')"
  shows "err = None \<Longrightarrow> emits key v (mw_db w) db'"
    "err = Some e \<Longrightarrow> db' = mw_db w \<or> \<not> errors_Is e ErrPreconditionFailed \<and> (\<exists>u. emits key u (mw_db w) db')"
proof -
  let ?stmt = "sql_delete_if clk key expected (mw_db w)"
  have drv: "driver_ok (mw_out w)" using assms(1) by (simp add: mw_ok_def)
  consider "err \<noteq> None" "db' = mw_db w" | r where "round_trip (mw_out w) ?stmt (mw_db w) = (r, db')" "mutationResult ctx now (scan_row r) = (v, err)"
  proof (cases "ValidateKey key")
    case None
    with assms(3) that show ?thesis by (auto simp: DeleteIfVersion_def split: if_splits prod.splits)
  next
    case (Some a)
    with assms(3) have "err = Some a" "db' = mw_db w" by (simp_all add: DeleteIfVersion_def)
    with that(1) show ?thesis by simp
  qed
  then have "(err = None \<longrightarrow> emits key v (mw_db w) db') \<and>
      (err = Some e \<longrightarrow> db' = mw_db w \<or> \<not> errors_Is e ErrPreconditionFailed \<and> (\<exists>u. emits key u (mw_db w) db'))"
    using reply_contract [OF sql_ok(5) drv assms(2)] by cases blast+
  then show "err = None \<Longrightarrow> emits key v (mw_db w) db'"
    "err = Some e \<Longrightarrow> db' = mw_db w \<or> \<not> errors_Is e ErrPreconditionFailed \<and> (\<exists>u. emits key u (mw_db w) db')" by blast+
qed

interpretation pg_mutation: mutation_path "pgStore now clk" "logRouter answer" mw_ok mw_changed mw_same mw_notified
  for now clk answer
proof
  fix s s' :: mutWorld and ctx key val expected v e
  assume s: "mw_ok s" and c: "ctx_ok ctx"
  have inv: "db_inv (mw_db s)" using s by (simp add: mw_ok_def)
  { assume "ms_PutIfVersion (pgStore now clk) ctx key val expected s = ((v, None), s')"
    then have "PutIfVersion (mw_out s) ctx now clk key val expected (mw_db s) = ((v, None), mw_db s')"
      by (auto simp: pgStore_def split: prod.splits)
    from PutIfVersion_contract(1) [OF s c this] show "0 < v \<and> mw_changed s key v s'"
      using emits_positive [OF inv] by (simp add: mw_changed_def) }
  { assume "ms_PutIfVersion (pgStore now clk) ctx key val expected s = ((v, Some e), s')"
    then have "PutIfVersion (mw_out s) ctx now clk key val expected (mw_db s) = ((v, Some e), mw_db s')"
      by (auto simp: pgStore_def split: prod.splits)
    from PutIfVersion_contract(2) [OF s c this]
    show "mw_same s s' \<or> \<not> errors_Is e ErrPreconditionFailed \<and> (\<exists>u. mw_changed s key u s')"
      by (simp add: mw_changed_def mw_same_def) }
  { assume "ms_DeleteIfVersion (pgStore now clk) ctx key expected s = ((v, None), s')"
    then have "DeleteIfVersion (mw_out s) ctx now clk key expected (mw_db s) = ((v, None), mw_db s')"
      by (auto simp: pgStore_def split: prod.splits)
    from DeleteIfVersion_contract(1) [OF s c this] show "0 < v \<and> mw_changed s key v s'"
      using emits_positive [OF inv] by (simp add: mw_changed_def) }
  { assume "ms_DeleteIfVersion (pgStore now clk) ctx key expected s = ((v, Some e), s')"
    then have "DeleteIfVersion (mw_out s) ctx now clk key expected (mw_db s) = ((v, Some e), mw_db s')"
      by (auto simp: pgStore_def split: prod.splits)
    from DeleteIfVersion_contract(2) [OF s c this]
    show "mw_same s s' \<or> \<not> errors_Is e ErrPreconditionFailed \<and> (\<exists>u. mw_changed s key u s')"
      by (simp add: mw_changed_def mw_same_def) }
qed (auto simp: pgStore_def logRouter_def mw_changed_def mw_same_def split: prod.splits)

text \<open>
  C25: the answer to a write is the truth about the source. With any driver behaviour, a response
  that says committed names the version that was committed, and exactly that version was announced
  to the members; one that says not committed means the database is unchanged and nobody was
  notified; one that says neither comes with an error, the database has at most one new version of
  the key, and the members were told to drop the key unconditionally.
\<close>

theorem executeMutation_truthful:
  assumes "db_inv (mw_db w)" "driver_ok (mw_out w)" "ctx_ok (case lifecycle of None \<Rightarrow> Background | Some c \<Rightarrow> c)"
    and "mc_kind command \<noteq> mutationNotify" "mc_version command = 0"
    and "executeMutation clk lifecycle (pgStore now sqlclk) (logRouter answer) command w = ((out, obs), w')"
  shows "case mr_SourceCommitted (mo_response out) of
      Some True \<Rightarrow> \<exists>v. mr_SourceVersion (mo_response out) = Some v \<and> emits (mc_key command) v (mw_db w) (mw_db w') \<and>
                     mw_notified w' = mw_notified w @ [(mc_key command, v)]
    | Some False \<Rightarrow> mw_db w' = mw_db w \<and> mw_notified w' = mw_notified w
    | None \<Rightarrow> mo_writeErr out \<noteq> None \<and> (mw_db w' = mw_db w \<or> (\<exists>v. emits (mc_key command) v (mw_db w) (mw_db w'))) \<and>
        mw_notified w' = mw_notified w @ [(mc_key command, 0)]"
proof -
  have "mw_ok w" using assms(1,2) by (simp add: mw_ok_def)
  from pg_mutation.executeMutation_truth [OF this assms(3,4,6)] assms(5) show ?thesis
    by (auto simp: mw_changed_def mw_same_def split: option.splits bool.splits)
qed

theorem executeMutation_truthful_witness:
  "let w = \<lparr>mw_db = sampleDb, mw_out = Replied, mw_notified = []\<rparr>;
       command = \<lparr>mc_kind = mutationDelete, mc_key = ''a'', mc_value = [], mc_expected = 7, mc_version = 0\<rparr>;
       r = executeMutation (\<lambda>_. 0) None (pgStore 0 (\<lambda>_. 0)) (logRouter (\<lambda>_ _. (noReport, None))) command w
   in mr_SourceCommitted (mo_response (fst (fst r))) = Some False \<and> mw_notified (snd r) = []"
proof -
  let ?w = "\<lparr>mw_db = sampleDb, mw_out = Replied, mw_notified = []\<rparr>"
  let ?command = "\<lparr>mc_kind = mutationDelete, mc_key = ''a'', mc_value = [], mc_expected = 7, mc_version = 0\<rparr>"
  let ?r = "executeMutation (\<lambda>_. 0) None (pgStore 0 (\<lambda>_. 0)) (logRouter (\<lambda>_ _. (noReport, None))) ?command ?w"
  have eval: "mr_SourceCommitted (mo_response (fst (fst ?r))) = Some False"
    by (simp add: executeMutation_def source_write_def pgStore_def DeleteIfVersion_def sample_key sql_delete_if_def
        sampleDb_eq round_trip_def scan_row_def mutationResult_def Let_def)
  have "ctx_ok (case None of None \<Rightarrow> Background | Some c \<Rightarrow> c)" by (simp add: ctx_ok_def Background_def)
  with eval show ?thesis
    using executeMutation_truthful [of ?w None ?command "\<lambda>_. 0" 0 "\<lambda>_. 0" "\<lambda>_ _. (noReport, None)" "fst (fst ?r)" "snd (fst ?r)" "snd ?r"]
      sampleDb_inv by (simp add: Let_def)
qed

end
