(* ===== verification/Go_JSON.thy ===== *)
theory Go_JSON
  imports Go_Net
begin

text \<open>
  \<open>encoding/json\<close>'s \<open>Valid\<close>: the byte scanner as the library has it, a state machine with a stack of
  the enclosing arrays and objects, at most 10000 deep.
\<close>

datatype json_state =
    BeginValueOrEmpty | BeginValue | BeginStringOrEmpty | BeginString | EndValue | EndTop
  | InString | InStringEsc | InStringEscU nat | Neg | State1 | State0 | Dot | Dot0 | StateE | ESign | E0
  | Literal string

datatype json_frame = ObjectKey | ObjectValue | ArrayValue

type_synonym json_scanner = "json_state \<times> json_frame list"

definition isSpace :: "char \<Rightarrow> bool" where
  "isSpace c \<longleftrightarrow> code c \<in> {32, 9, 13, 10}"

definition isHex :: "char \<Rightarrow> bool" where
  "isHex c \<longleftrightarrow> unhex c \<noteq> None"

definition maxNestingDepth :: nat where
  "maxNestingDepth = 10000"

definition pushFrame :: "json_frame \<Rightarrow> json_state \<Rightarrow> json_frame list \<Rightarrow> json_scanner option" where
  "pushFrame f st stack = (if length stack + 1 \<le> maxNestingDepth then Some (st, f # stack) else None)"

definition popFrame :: "json_frame list \<Rightarrow> json_scanner option" where
  "popFrame stack = (case tl stack of [] \<Rightarrow> Some (EndTop, []) | rest \<Rightarrow> Some (EndValue, rest))"

definition endValue :: "char \<Rightarrow> json_frame list \<Rightarrow> json_scanner option" where
  "endValue c stack =
     (case stack of
        [] \<Rightarrow> if isSpace c then Some (EndTop, []) else None
      | f # rest \<Rightarrow>
          if isSpace c then Some (EndValue, stack)
          else (case f of
            ObjectKey \<Rightarrow> if c = CHR '':'' then Some (BeginValue, ObjectValue # rest) else None
          | ObjectValue \<Rightarrow> if c = CHR '','' then Some (BeginString, ObjectKey # rest)
                          else if c = CHR ''}'' then popFrame stack else None
          | ArrayValue \<Rightarrow> if c = CHR '','' then Some (BeginValue, stack)
                         else if c = CHR '']'' then popFrame stack else None))"

definition beginValue :: "char \<Rightarrow> json_frame list \<Rightarrow> json_scanner option" where
  "beginValue c stack =
     (if isSpace c then Some (BeginValue, stack)
      else if c = CHR ''{'' then pushFrame ObjectKey BeginStringOrEmpty stack
      else if c = CHR ''['' then pushFrame ArrayValue BeginValueOrEmpty stack
      else if c = CHR 0x22 then Some (InString, stack)
      else if c = CHR ''-'' then Some (Neg, stack)
      else if c = CHR ''0'' then Some (State0, stack)
      else if c = CHR ''t'' then Some (Literal ''rue'', stack)
      else if c = CHR ''f'' then Some (Literal ''alse'', stack)
      else if c = CHR ''n'' then Some (Literal ''ull'', stack)
      else if isDigit c then Some (State1, stack)
      else None)"

definition beginString :: "char \<Rightarrow> json_frame list \<Rightarrow> json_scanner option" where
  "beginString c stack =
     (if isSpace c then Some (BeginString, stack) else if c = CHR 0x22 then Some (InString, stack) else None)"

definition afterInteger :: "char \<Rightarrow> json_frame list \<Rightarrow> json_scanner option" where
  "afterInteger c stack =
     (if c = CHR ''.'' then Some (Dot, stack)
      else if c = CHR ''e'' \<or> c = CHR ''E'' then Some (StateE, stack) else endValue c stack)"

definition exponentDigit :: "char \<Rightarrow> json_frame list \<Rightarrow> json_scanner option" where
  "exponentDigit c stack = (if isDigit c then Some (E0, stack) else None)"

fun json_step :: "json_scanner \<Rightarrow> char \<Rightarrow> json_scanner option" where
  "json_step (BeginValueOrEmpty, stack) c =
     (if isSpace c then Some (BeginValueOrEmpty, stack) else if c = CHR '']'' then endValue c stack else beginValue c stack)"
| "json_step (BeginValue, stack) c = beginValue c stack"
| "json_step (BeginStringOrEmpty, stack) c =
     (if isSpace c then Some (BeginStringOrEmpty, stack)
      else if c = CHR ''}'' then endValue c (ObjectValue # tl stack) else beginString c stack)"
| "json_step (BeginString, stack) c = beginString c stack"
| "json_step (EndValue, stack) c = endValue c stack"
| "json_step (EndTop, stack) c = (if isSpace c then Some (EndTop, stack) else None)"
| "json_step (InString, stack) c =
     (if c = CHR 0x22 then Some (EndValue, stack)
      else if c = CHR 0x5C then Some (InStringEsc, stack)
      else if code c < 32 then None else Some (InString, stack))"
| "json_step (InStringEsc, stack) c =
     (if c \<in> set ''bfnrt/'' \<union> {CHR 0x5C, CHR 0x22} then Some (InString, stack)
      else if c = CHR ''u'' then Some (InStringEscU 3, stack) else None)"
| "json_step (InStringEscU n, stack) c =
     (if \<not> isHex c then None else case n of 0 \<Rightarrow> Some (InString, stack) | Suc m \<Rightarrow> Some (InStringEscU m, stack))"
| "json_step (Neg, stack) c =
     (if c = CHR ''0'' then Some (State0, stack) else if isDigit c then Some (State1, stack) else None)"
| "json_step (State1, stack) c = (if isDigit c then Some (State1, stack) else afterInteger c stack)"
| "json_step (State0, stack) c = afterInteger c stack"
| "json_step (Dot, stack) c = (if isDigit c then Some (Dot0, stack) else None)"
| "json_step (Dot0, stack) c =
     (if isDigit c then Some (Dot0, stack)
      else if c = CHR ''e'' \<or> c = CHR ''E'' then Some (StateE, stack) else endValue c stack)"
| "json_step (StateE, stack) c = (if c = CHR ''+'' \<or> c = CHR ''-'' then Some (ESign, stack) else exponentDigit c stack)"
| "json_step (ESign, stack) c = exponentDigit c stack"
| "json_step (E0, stack) c = (if isDigit c then Some (E0, stack) else endValue c stack)"
| "json_step (Literal [], stack) c = endValue c stack"
| "json_step (Literal (d # ds), stack) c =
     (if c \<noteq> d then None else if ds = [] then Some (EndValue, stack) else Some (Literal ds, stack))"

fun json_scan :: "json_scanner \<Rightarrow> string \<Rightarrow> json_scanner option" where
  "json_scan s [] = Some s"
| "json_scan s (c # cs) = (case json_step s c of None \<Rightarrow> None | Some s' \<Rightarrow> json_scan s' cs)"

definition json_Valid :: "bytes \<Rightarrow> bool" where
  "json_Valid data =
     (case json_scan (BeginValue, []) data of
        None \<Rightarrow> False
      | Some (EndTop, _) \<Rightarrow> True
      | Some s \<Rightarrow> (case json_step s (CHR '' '') of Some (EndTop, _) \<Rightarrow> True | _ \<Rightarrow> False))"

lemma json_examples:
  "json_Valid ''{}''" "json_Valid '' [1, -0.5e+3, true] ''" "\<not> json_Valid ''[1,]''" "\<not> json_Valid ''''" "\<not> json_Valid ''01''"
  by code_simp+

end
