(* ===== verification/App_API.thy ===== *)
theory App_API
  imports App_Mutation Go_JSON Group_Read
begin

text \<open>
  \<open>internal/app/api.go\<close> and \<open>mutations_http.go\<close>: the public HTTP API. A request is a record, the
  answer a status, a header and a body (the JSON documents of the write path stay structured). The
  outcome of \<open>group.Get\<close>, which \<open>Group_Read\<close> models, is an argument of the read route; source,
  directory and clocks are those of \<open>App_Mutation\<close>. Patterns match a request path exactly.
\<close>

section \<open>Requests and answers\<close>

datatype api_body = Text bytes | Document mutationResponse

record api_response =
  ar_Status :: int
  ar_Header :: header
  ar_Body :: api_body

definition errorResponse :: "string \<Rightarrow> int \<Rightarrow> header \<Rightarrow> api_response" where
  "errorResponse message status h =
     (let r = http_Error message status h
      in \<lparr>ar_Status = resp_Status r, ar_Header = resp_Header r, ar_Body = Text (resp_Body r)\<rparr>)"

record APIOptions =
  api_Store :: bool
  api_Directory :: bool
  api_Token :: string
  api_Lifecycle :: "gocontext option"
  api_MaxConcurrentWrites :: int
  api_NodeID :: string

definition apiReadTimeout :: duration where "apiReadTimeout = 1500 * Millisecond"
definition DefaultWriteConcurrency :: int where "DefaultWriteConcurrency = 16"

text \<open>Occupied write slots, the gauge that mirrors them, and the world behind the handlers.\<close>

record 's api_state =
  as_slots :: nat
  as_inflight :: int
  as_world :: 's

type_synonym api_answer = "api_response \<times> string \<times> observation list"

section \<open>Keys and preconditions\<close>

definition wire :: "string \<Rightarrow> string" where
  "wire key = concat (map (\<lambda>c. if c = CHR ''+'' then ''%20'' else [c]) (QueryEscape key))"

definition badKey :: goerror where
  "badKey = NewError ''requires one canonical key query: percent-encoded UTF-8, uppercase escapes, %20 for spaces''"

definition requestKey :: "string \<Rightarrow> goerror + string" where
  "requestKey raw =
     (case ParseQuery raw of (values, err) \<Rightarrow>
        if err \<or> length (remdups (map fst values)) \<noteq> 1 then Inl badKey
        else case map snd (filter (\<lambda>(k, _). k = ''key'') values) of
          [key] \<Rightarrow>
            if \<not> ValidString key then Inl badKey
            else (case ValidateKey key of
                    Some err \<Rightarrow> Inl err
                  | None \<Rightarrow> if raw \<noteq> ''key='' @ wire key then Inl badKey else Inr key)
        | _ \<Rightarrow> Inl badKey)"

definition versionETag :: "int \<Rightarrow> string" where
  "versionETag version = [CHR 0x22, CHR ''v''] @ FormatInt version @ [CHR 0x22]"

definition badPrecondition :: goerror where
  "badPrecondition = NewError ''require one exact If-Match ETag, or PUT with If-None-Match: *; do not combine them''"

definition mutationPrecondition :: "string \<Rightarrow> header \<Rightarrow> (int \<times> goerror) + int" where
  "mutationPrecondition meth h =
     (let matches = HeaderValues ''If-Match'' h; absent = HeaderValues ''If-None-Match'' h in
      if matches = [] \<and> absent = []
      then Inl (428, NewError ''use If-Match with the GET ETag, or If-None-Match: * to create'')
      else if matches = [] \<and> length absent = 1 \<and> meth = ''PUT'' \<and> TrimSpace (hd absent) = ''*'' then Inr 0
      else if length matches \<noteq> 1 \<or> absent \<noteq> [] then Inl (400, badPrecondition)
      else
        (let raw = TrimSpace (hd matches) in
         if length raw < 4 \<or> \<not> HasPrefix raw [CHR 0x22, CHR ''v''] \<or> \<not> HasSuffix raw [CHR 0x22]
         then Inl (400, badPrecondition)
         else case ParseInt (drop 2 (butlast raw)) of
           None \<Rightarrow> Inl (400, badPrecondition)
         | Some version \<Rightarrow>
             if version \<le> 0 \<or> raw \<noteq> versionETag version then Inl (400, badPrecondition) else Inr version))"

section \<open>The write route\<close>

definition requestBody :: "request \<Rightarrow> (string \<times> int) + bytes" where
  "requestBody r =
     (if req_Method r \<noteq> ''PUT'' then Inr []
      else case req_Body r of
        None \<Rightarrow> Inl (''invalid or oversized request body'', 413)
      | Some val \<Rightarrow>
          if length val > MaxValueBytes then Inl (''invalid or oversized request body'', 413)
          else if \<not> json_Valid val then Inl (''product detail must be valid JSON'', 400)
          else Inr val)"

definition mutationAnswer :: "request \<Rightarrow> header \<Rightarrow> mutationOutcome \<Rightarrow> api_response \<times> string" where
  "mutationAnswer r h outcome =
     (let response = mo_response outcome; writeErr = mo_writeErr outcome;
          json = HeaderSet ''Content-Type'' ''application/json'' h in
      if writeErr \<noteq> None \<and> errors_Is (the writeErr) ErrPreconditionFailed
      then (\<lparr>ar_Status = 412, ar_Header = json, ar_Body = Document response\<rparr>, ''precondition_failed'')
      else case mo_broadcastErr outcome of
        Some e \<Rightarrow> (errorResponse (Error e) (Status e) h, ''error'')
      | None \<Rightarrow>
          (let complete = (case mr_Invalidation response of None \<Rightarrow> False | Some report \<Rightarrow> rep_Complete report);
               status = (case writeErr of Some e \<Rightarrow> Status e | None \<Rightarrow> if complete then 200 else 202);
               h' = (case mr_SourceVersion response of
                       Some v \<Rightarrow> if writeErr = None \<and> req_Method r = ''PUT''
                                 then HeaderSet ''ETag'' (versionETag v) json else json
                     | None \<Rightarrow> json)
           in (\<lparr>ar_Status = status, ar_Header = h', ar_Body = Document response\<rparr>,
               if writeErr = None \<and> \<not> complete then ''partial'' else Result writeErr)))"

text \<open>
  The guards of \<open>mutate\<close> up to the slot, the work under the slot, and the deferred release.
  \<open>rctx\<close> is the context of the request, \<open>clk\<close> the clock readings in order.
\<close>

definition mutate_admit ::
  "APIOptions \<Rightarrow> bool \<Rightarrow> header \<Rightarrow> request \<Rightarrow> 's api_state \<Rightarrow> (api_answer + string \<times> int) \<times> 's api_state" where
  "mutate_admit opts invalidateOnly h0 r st =
     (let fail = (\<lambda>message status. (Inl (errorResponse message status h0, ''error'', []), st)) in
      if \<not> Authorized (req_Header r) (api_Token opts) then fail ''unauthorized'' 401
      else case requestKey (url_RawQuery (req_URL r)) of
        Inl e \<Rightarrow> fail (Error e) 400
      | Inr key \<Rightarrow>
          (case ValidateKey key of
             Some e \<Rightarrow> fail (Error e) 400
           | None \<Rightarrow>
               (case ParseInvalidationVersion (req_Header r) of
                  Inl e \<Rightarrow> fail (Error e) 400
                | Inr version \<Rightarrow>
                    if \<not> invalidateOnly \<and> version \<noteq> 0
                    then fail ''invalidation version is only accepted on POST /invalidate'' 400
                    else if int (as_slots st) < api_MaxConcurrentWrites opts
                    then (Inr (key, version), st\<lparr>as_slots := as_slots st + 1, as_inflight := as_inflight st + 1\<rparr>)
                    else (Inl (errorResponse (Error ErrOverloaded) 503
                                (HeaderSet ''Cache-Control'' ''no-store'' (HeaderSet ''Retry-After'' ''1'' h0)),
                               ''overloaded'', [(''rejected'', ''write'', 0)]), st))))"

definition mutate_held ::
  "(nat \<Rightarrow> gotime) \<Rightarrow> gocontext \<Rightarrow> APIOptions \<Rightarrow> 's MutableSource \<Rightarrow> 's invalidator \<Rightarrow> bool \<Rightarrow> header \<Rightarrow> request \<Rightarrow>
   string \<Rightarrow> int \<Rightarrow> 's \<Rightarrow> api_answer \<times> 's" where
  "mutate_held clk rctx opts store router invalidateOnly h0 r key version s =
     (case requestBody r of
        Inl (message, status) \<Rightarrow> ((errorResponse message status h0, ''error'', []), s)
      | Inr val \<Rightarrow>
          if ctx_Err rctx (clk 0) \<noteq> None
          then ((\<lparr>ar_Status = 200, ar_Header = h0, ar_Body = Text []\<rparr>, ''error'', []), s)
          else
            (let h = HeaderSet ''Cache-Control'' ''no-store'' h0 in
             case (if invalidateOnly then Inr 0 else mutationPrecondition (req_Method r) (req_Header r)) of
               Inl (status, e) \<Rightarrow> ((errorResponse (Error e) status h, ''error'', []), s)
             | Inr expected \<Rightarrow>
                 (let kind = (if invalidateOnly then mutationNotify
                              else if req_Method r = ''PUT'' then mutationPut else mutationDelete);
                      command = \<lparr>mc_kind = kind, mc_key = key, mc_value = val, mc_expected = expected, mc_version = version\<rparr>
                  in case executeMutation (\<lambda>n. clk (n + 1)) (api_Lifecycle opts) store router command s of
                       ((outcome, obs), s') \<Rightarrow>
                         (case mutationAnswer r h outcome of (answer, result) \<Rightarrow> ((answer, result, obs), s')))))"

definition mutate_release :: "'s api_state \<Rightarrow> 's api_state" where
  "mutate_release st = st\<lparr>as_slots := as_slots st - 1, as_inflight := as_inflight st - 1\<rparr>"

definition mutate ::
  "(nat \<Rightarrow> gotime) \<Rightarrow> gocontext \<Rightarrow> APIOptions \<Rightarrow> 's MutableSource \<Rightarrow> 's invalidator \<Rightarrow> bool \<Rightarrow> header \<Rightarrow> request \<Rightarrow>
   's api_state \<Rightarrow> api_answer \<times> 's api_state" where
  "mutate clk rctx opts store router invalidateOnly h0 r st =
     (case mutate_admit opts invalidateOnly h0 r st of
        (Inl answer, st') \<Rightarrow> (answer, st')
      | (Inr (key, version), st1) \<Rightarrow>
          (case mutate_held clk rctx opts store router invalidateOnly h0 r key version (as_world st1) of
             (answer, s') \<Rightarrow> (answer, mutate_release (st1\<lparr>as_world := s'\<rparr>))))"

section \<open>Routes\<close>

definition APIHandler :: "APIOptions \<Rightarrow> string + APIOptions" where
  "APIHandler opts =
     (let opts' = (if api_MaxConcurrentWrites opts = 0
                   then opts\<lparr>api_MaxConcurrentWrites := DefaultWriteConcurrency\<rparr> else opts)
      in if api_MaxConcurrentWrites opts' < 1 then Inl ''write concurrency must be positive'' else Inr opts')"

definition writable :: "APIOptions \<Rightarrow> bool" where
  "writable opts \<longleftrightarrow> api_Store opts \<and> api_Directory opts \<and> api_Token opts \<noteq> ''''"

text \<open>The read route; \<open>get\<close> is \<open>group.Get\<close> as this call meets it.\<close>

definition api_read ::
  "(nat \<Rightarrow> gotime) \<Rightarrow> gocontext \<Rightarrow> (gocontext \<Rightarrow> string \<Rightarrow> ByteView \<times> goerror option) \<Rightarrow> header \<Rightarrow> request \<Rightarrow> api_response \<times> string" where
  "api_read clk rctx get h0 r =
     (let ctx = WithTimeout rctx (clk 0) apiReadTimeout in
      case requestKey (url_RawQuery (req_URL r)) of
        Inl e \<Rightarrow> (errorResponse (Error e) 400 h0, ''error'')
      | Inr key \<Rightarrow>
          (case get ctx key of
             (_, Some err) \<Rightarrow>
               (errorResponse (Error err) (Status err)
                  (if errors_Is err ErrOverloaded then HeaderSet ''Retry-After'' ''1'' h0 else h0), Result (Some err))
           | (view, None) \<Rightarrow>
               (let h = HeaderSet ''Content-Type'' ''application/octet-stream'' h0
                in (\<lparr>ar_Status = 200,
                     ar_Header = (if Version view > 0 then HeaderSet ''ETag'' (versionETag (Version view)) h else h),
                     ar_Body = Text (view_b view)\<rparr>, Result None))))"

definition api_route ::
  "(nat \<Rightarrow> gotime) \<Rightarrow> gocontext \<Rightarrow> APIOptions \<Rightarrow> 's MutableSource \<Rightarrow> 's invalidator \<Rightarrow> bool \<Rightarrow>
   (gocontext \<Rightarrow> string \<Rightarrow> ByteView \<times> goerror option) \<Rightarrow> request \<Rightarrow> 's api_state \<Rightarrow> api_answer \<times> 's api_state" where
  "api_route clk rctx opts store router ready get r st =
     (let isWrite = (writable opts \<and> (req_Method r = ''PUT'' \<or> req_Method r = ''DELETE'')) in
      if req_Method r \<noteq> ''GET'' \<and> \<not> isWrite
      then ((errorResponse ''method not allowed'' 405
              (HeaderSet ''Allow'' (if writable opts then ''GET, PUT, DELETE'' else ''GET'') []), ''error'', []), st)
      else if \<not> ready then ((errorResponse ''not ready'' 503 [], ''error'', []), st)
      else
        (let h0 = (if api_NodeID opts \<noteq> '''' then HeaderSet ''X-SimpleCache-Node'' (api_NodeID opts) [] else []) in
         if isWrite then mutate clk rctx opts store router False h0 r st
         else case api_read clk rctx get h0 r of (a, result) \<Rightarrow> ((a, result, []), st)))"

definition invalidate_route ::
  "(nat \<Rightarrow> gotime) \<Rightarrow> gocontext \<Rightarrow> APIOptions \<Rightarrow> 's MutableSource \<Rightarrow> 's invalidator \<Rightarrow> bool \<Rightarrow>
   request \<Rightarrow> 's api_state \<Rightarrow> api_answer \<times> 's api_state" where
  "invalidate_route clk rctx opts store router ready r st =
     (if req_Method r \<noteq> ''POST''
      then ((errorResponse ''method not allowed'' 405 (HeaderSet ''Allow'' ''POST'' []), ''error'', []), st)
      else if \<not> ready then ((errorResponse ''not ready'' 503 [], ''error'', []), st)
      else mutate clk rctx opts store router True [] r st)"

text \<open>
  The mux on an already clean path. \<open>metrics\<close> is what the Prometheus handler answers, if metrics are on.
\<close>

definition api_handle ::
  "(nat \<Rightarrow> gotime) \<Rightarrow> gocontext \<Rightarrow> APIOptions \<Rightarrow> 's MutableSource \<Rightarrow> 's invalidator \<Rightarrow> bool \<Rightarrow>
   (gocontext \<Rightarrow> string \<Rightarrow> ByteView \<times> goerror option) \<Rightarrow> api_response option \<Rightarrow> request \<Rightarrow> 's api_state \<Rightarrow> api_answer \<times> 's api_state" where
  "api_handle clk rctx opts store router ready get metrics r st =
     (let path = url_Path (req_URL r); empty = \<lparr>ar_Status = 200, ar_Header = [], ar_Body = Text []\<rparr> in
      if path = ''/healthz'' then ((empty, '''', []), st)
      else if path = ''/readyz''
      then ((if ready then empty else errorResponse ''not ready'' 503 [], '''', []), st)
      else if path = ''/api''
      then (case api_route (\<lambda>n. clk (n + 1)) rctx opts store router ready get r st of
              ((a, result, obs), st') \<Rightarrow> ((a, result, obs @ [(''api'', result, clk 7 - clk 0)]), st'))
      else if path = ''/invalidate'' \<and> api_Directory opts \<and> api_Token opts \<noteq> ''''
      then invalidate_route clk rctx opts store router ready r st
      else if path = ''/metrics'' \<and> metrics \<noteq> None then ((the metrics, '''', []), st)
      else ((errorResponse ''404 page not found'' 404 [], '''', []), st))"

section \<open>Canonical keys\<close>

definition wire_char :: "char \<Rightarrow> string" where
  "wire_char c = (if c = CHR '' '' then ''%20'' else escape_char encodeQueryComponent c)"

lemma upperhex_not_plus: "d < 16 \<Longrightarrow> upperhex d \<noteq> CHR ''+''"
  using alnum_code [OF upperhex_alnum, of d] by (auto simp: code_def)

lemma plus_free: "c \<noteq> CHR '' '' \<Longrightarrow> CHR ''+'' \<notin> set (escape_char encodeQueryComponent c)"
  using upperhex_not_plus [of "code c div 16"] upperhex_not_plus [of "code c mod 16"] code_less [of c] shouldEscape_plus
  by (auto simp: escape_char_def less_mult_imp_div_less)

lemma wire_chars: "wire key = concat (map wire_char key)"
proof -
  have "concat (map (\<lambda>c. if c = CHR ''+'' then ''%20'' else [c]) s) = s" if "CHR ''+'' \<notin> set s" for s
    using that by (induction s) auto
  then have "concat (map (\<lambda>c. if c = CHR ''+'' then ''%20'' else [c]) (escape_char encodeQueryComponent c)) = wire_char c" for c
    using plus_free [of c] by (auto simp: wire_char_def escape_char_def shouldEscape_def isAlnum_def isDigit_def isUpper_def isLower_def code_def)
  then show ?thesis unfolding wire_def QueryEscape_def escape_def by (induction key) simp_all
qed

lemma unescape_wire: "unescape encodeQueryComponent (wire key) = Some key"
proof (induction key)
  case (Cons c key)
  have "hex_byte encodeQueryComponent (CHR ''2'') (CHR ''0'') = Some (CHR '' '')" by code_simp
  then have "unescape encodeQueryComponent (wire_char c @ s) = map_option ((#) c) (unescape encodeQueryComponent s)" for s
    by (cases "c = CHR '' ''") (auto simp: wire_char_def unescape_escape_char split: option.split)
  with Cons show ?case by (simp add: wire_chars)
qed (simp add: wire_chars)

lemma query_unescaped: "\<not> shouldEscape encodeQueryComponent c \<Longrightarrow> isAlnum c \<or> c \<in> set ''-_.~''"
  unfolding shouldEscape_def by (simp split: if_splits)

lemma wire_separators:
  assumes "c \<in> set (wire key)"
  shows "isAlnum c \<or> c \<in> set ''-_.~%''"
proof -
  obtain d where "c \<in> set (wire_char d)" using assms by (auto simp: wire_chars)
  moreover have "isAlnum (CHR ''2'')" "isAlnum (CHR ''0'')" by code_simp+
  ultimately show ?thesis
    using upperhex_alnum [of "code d div 16"] upperhex_alnum [of "code d mod 16"] code_less [of d] query_unescaped [of d]
    by (auto simp: wire_char_def escape_char_def less_mult_imp_div_less split: if_splits)
qed

lemma requestKey_wire: "ParseQuery (''key='' @ wire key) = ([(''key'', key)], False)"
proof -
  have "\<not> isAlnum (CHR ''&'')" "\<not> isAlnum (CHR '';'')" by code_simp+
  then have no: "CHR ''&'' \<notin> set (wire key)" "CHR '';'' \<notin> set (wire key)"
    using wire_separators [of "CHR ''&''" key] wire_separators [of "CHR '';''" key] by auto
  have c1: "Cut (CHR ''&'') (''key='' @ wire key) = (''key='' @ wire key, [], False)" using no by (intro Cut_absent) simp
  have c2: "Cut (CHR ''='') (''key='' @ wire key) = (''key'', wire key, True)"
    using Cut_found [of "CHR ''=''" "''key''" "wire key"] by simp
  have k: "unescape encodeQueryComponent ''key'' = Some ''key''" by code_simp
  have semi: "CHR '';'' \<notin> set (''key='' @ wire key)" using no by simp
  have ne: "''key='' @ wire key \<noteq> []" by simp
  have e: "ParseQuery [] = ([], False)" by (simp add: ParseQuery.simps)
  show ?thesis
    unfolding ParseQuery.simps [of "''key='' @ wire key"] c1 prod.case c2 k unescape_wire e using ne semi
    by (simp only: if_False option.case prod.case)
qed

lemma requestKey_iff:
  "requestKey raw = Inr key \<longleftrightarrow> raw = ''key='' @ wire key \<and> ValidString key \<and> ValidateKey key = None"
proof
  assume "requestKey raw = Inr key"
  then show "raw = ''key='' @ wire key \<and> ValidString key \<and> ValidateKey key = None"
    by (auto simp: requestKey_def split: prod.splits if_splits list.splits option.splits)
next
  assume "raw = ''key='' @ wire key \<and> ValidString key \<and> ValidateKey key = None"
  then show "requestKey raw = Inr key"
    using requestKey_wire [of key] by (simp add: requestKey_def)
qed

text \<open>
  C31: the public API has exactly one spelling for a key. A query is accepted as the key if and only
  if the key is valid UTF-8 and a valid cache key and the query is, byte for byte, \<open>key=\<close> followed by
  the percent-encoding of the key with \<open>%20\<close> for spaces; so no two queries name the same key.
\<close>

theorem requestKey_canonical:
  "requestKey raw = Inr key \<longleftrightarrow> raw = ''key='' @ wire key \<and> ValidString key \<and> ValidateKey key = None"
  by (rule requestKey_iff)

section \<open>Preconditions\<close>

lemma HasPrefix_quote: "HasPrefix raw [a, b] \<Longrightarrow> \<exists>t. raw = a # b # t"
  using HasPrefixE [of raw "[a, b]"] by (metis append_Cons append_Nil)

lemma versionETag_split: "versionETag v = [CHR 0x22, CHR ''v''] @ FormatInt v @ [CHR 0x22]"
  by (simp add: versionETag_def)

lemma FormatInt_nonempty: "FormatInt v \<noteq> []"
  by (simp add: FormatInt_def)

lemma versionETag_accepted:
  assumes "0 < v" "int64 v"
  shows "length (versionETag v) \<ge> 4" "HasPrefix (versionETag v) [CHR 0x22, CHR ''v'']"
    "HasSuffix (versionETag v) [CHR 0x22]" "ParseInt (drop 2 (butlast (versionETag v))) = Some v"
  using FormatInt_nonempty [of v] ParseInt_FormatInt [OF assms(2)]
  by (auto simp: versionETag_def HasPrefix_def HasSuffix_def butlast_append Suc_le_eq)

lemma versionETag_trimmed: "TrimSpace (versionETag v) = versionETag v"
proof -
  have "CHR 0x22 \<notin> hd ` set spaces" "CHR 0x22 \<notin> last ` set spaces"
    unfolding spaces_def byteString_def by (simp_all add: eq_commute [of "CHR 0x22"] char_of_eq_iff take_bit_eq_mod)
  then show ?thesis by (intro TrimSpace_id) (simp_all add: versionETag_def)
qed

lemma mutationPrecondition_iff:
  "mutationPrecondition meth h = Inr v \<longleftrightarrow>
     (v = 0 \<and> meth = ''PUT'' \<and> HeaderValues ''If-Match'' h = [] \<and>
        (\<exists>a. HeaderValues ''If-None-Match'' h = [a] \<and> TrimSpace a = ''*'')) \<or>
     (0 < v \<and> int64 v \<and> HeaderValues ''If-None-Match'' h = [] \<and>
        (\<exists>m. HeaderValues ''If-Match'' h = [m] \<and> TrimSpace m = versionETag v))"
proof -
  consider (absent) a where "HeaderValues ''If-Match'' h = []" "HeaderValues ''If-None-Match'' h = [a]"
    | (match) m where "HeaderValues ''If-Match'' h = [m]" "HeaderValues ''If-None-Match'' h = []"
    | (other) "\<nexists>a. HeaderValues ''If-Match'' h = [] \<and> HeaderValues ''If-None-Match'' h = [a]"
        "\<nexists>m. HeaderValues ''If-Match'' h = [m] \<and> HeaderValues ''If-None-Match'' h = []"
    by blast
  then show ?thesis
  proof cases
    case absent
    then show ?thesis by (auto simp: mutationPrecondition_def Let_def)
  next
    case match
    have "mutationPrecondition meth h = Inr v \<longleftrightarrow> 0 < v \<and> int64 v \<and> TrimSpace m = versionETag v" (is "?l \<longleftrightarrow> ?r")
    proof
      assume ?l
      with match show ?r
        by (auto simp: mutationPrecondition_def Let_def split: if_splits option.splits dest: ParseInt_int64)
    next
      assume r: ?r
      with match versionETag_accepted [of v] show ?l by (simp add: mutationPrecondition_def Let_def)
    qed
    with match show ?thesis by auto
  next
    case other
    then have "\<not> (length (HeaderValues ''If-None-Match'' h) = 1 \<and> HeaderValues ''If-Match'' h = [])"
      "\<not> (length (HeaderValues ''If-Match'' h) = 1 \<and> HeaderValues ''If-None-Match'' h = [])"
      by (auto simp: length_Suc_conv)
    with other show ?thesis by (auto simp: mutationPrecondition_def Let_def)
  qed
qed

text \<open>
  C32: the precondition of a write is one exact version. Expecting version \<open>v\<close> is accepted if and
  only if it is zero, for a PUT whose only precondition is one \<open>If-None-Match: *\<close>, or a positive
  64-bit version whose \<open>ETag\<close> is, up to outer white space, the only \<open>If-Match\<close> value, with no
  \<open>If-None-Match\<close> beside it.
\<close>

theorem mutationPrecondition_exact:
  "mutationPrecondition meth h = Inr v \<longleftrightarrow>
     (v = 0 \<and> meth = ''PUT'' \<and> HeaderValues ''If-Match'' h = [] \<and>
        (\<exists>a. HeaderValues ''If-None-Match'' h = [a] \<and> TrimSpace a = ''*'')) \<or>
     (0 < v \<and> int64 v \<and> HeaderValues ''If-None-Match'' h = [] \<and>
        (\<exists>m. HeaderValues ''If-Match'' h = [m] \<and> TrimSpace m = versionETag v))"
  by (rule mutationPrecondition_iff)

section \<open>Admission of writes\<close>

lemma mutate_admit_Inr:
  "mutate_admit opts invalidateOnly h0 r st = (Inr (key, version), st') \<longleftrightarrow>
     Authorized (req_Header r) (api_Token opts) \<and> requestKey (url_RawQuery (req_URL r)) = Inr key \<and> ValidateKey key = None \<and>
     ParseInvalidationVersion (req_Header r) = Inr version \<and> (invalidateOnly \<or> version = 0) \<and>
     int (as_slots st) < api_MaxConcurrentWrites opts \<and>
     st' = st\<lparr>as_slots := as_slots st + 1, as_inflight := as_inflight st + 1\<rparr>"
  by (auto simp: mutate_admit_def Let_def split: if_splits sum.splits option.splits)

lemma mutate_admit_Inl: "mutate_admit opts invalidateOnly h0 r st = (Inl a, st') \<Longrightarrow> st' = st \<and> ar_Status (fst a) \<in> {400, 401, 503}"
  by (auto simp: mutate_admit_def Let_def errorResponse_def http_Error_def split: if_splits sum.splits option.splits)

text \<open>What a write request must satisfy before it reaches the source.\<close>

definition write_guard :: "gotime \<Rightarrow> gocontext \<Rightarrow> APIOptions \<Rightarrow> bool \<Rightarrow> request \<Rightarrow> nat \<Rightarrow> mutationCommand \<Rightarrow> bool" where
  "write_guard now rctx opts invalidateOnly r taken command \<longleftrightarrow>
     Authorized (req_Header r) (api_Token opts) \<and> int taken < api_MaxConcurrentWrites opts \<and>
     url_RawQuery (req_URL r) = ''key='' @ wire (mc_key command) \<and> ValidateKey (mc_key command) = None \<and>
     ParseInvalidationVersion (req_Header r) = Inr (mc_version command) \<and> ctx_Err rctx now = None \<and>
     (if req_Method r = ''PUT''
      then req_Body r = Some (mc_value command) \<and> length (mc_value command) \<le> MaxValueBytes \<and> json_Valid (mc_value command)
      else mc_value command = []) \<and>
     (if invalidateOnly then mc_kind command = mutationNotify \<and> mc_expected command = 0
      else mc_version command = 0 \<and> mutationPrecondition (req_Method r) (req_Header r) = Inr (mc_expected command) \<and>
           mc_kind command = (if req_Method r = ''PUT'' then mutationPut else mutationDelete))"

lemma requestBody_Inr:
  "requestBody r = Inr val \<longleftrightarrow>
     (if req_Method r = ''PUT'' then req_Body r = Some val \<and> length val \<le> MaxValueBytes \<and> json_Valid val else val = [])"
  by (auto simp: requestBody_def not_less split: option.splits)

lemma error_status [simp]: "ar_Status (errorResponse m st h) = st"
  by (simp add: errorResponse_def http_Error_def)

lemma mutationPrecondition_status: "mutationPrecondition meth h = Inl (status, e) \<Longrightarrow> status = 400 \<or> status = 428"
  by (auto simp: mutationPrecondition_def Let_def split: if_splits option.splits)

lemma requestBody_status: "requestBody r = Inl (message, status) \<Longrightarrow> status = 400 \<or> status = 413"
  by (auto simp: requestBody_def split: if_splits option.splits)

lemma mutate_held_cases:
  assumes "mutate_held clk rctx opts store router invalidateOnly h0 r key version s = ((answer, result, obs), s')"
  obtains (refused) "s' = s" "ctx_Err rctx (clk 0) \<noteq> None \<or> ar_Status answer \<in> {400, 413, 428}"
  | (executed) val expected outcome where
      "requestBody r = Inr val" "ctx_Err rctx (clk 0) = None"
      "(if invalidateOnly then Inr 0 else mutationPrecondition (req_Method r) (req_Header r)) = Inr expected"
      "executeMutation (\<lambda>n. clk (n + 1)) (api_Lifecycle opts) store router
         \<lparr>mc_kind = (if invalidateOnly then mutationNotify else if req_Method r = ''PUT'' then mutationPut else mutationDelete),
          mc_key = key, mc_value = val, mc_expected = expected, mc_version = version\<rparr> s = ((outcome, obs), s')"
      "mutationAnswer r (HeaderSet ''Cache-Control'' ''no-store'' h0) outcome = (answer, result)"
proof (cases "requestBody r")
  case (Inl a)
  obtain message status where a: "a = (message, status)" by (cases a)
  with Inl requestBody_status [of r message status] have "status = 400 \<or> status = 413" by simp
  with Inl a assms show ?thesis by (intro refused) (auto simp: mutate_held_def)
next
  case (Inr val)
  note body = this
  show ?thesis
  proof (cases "ctx_Err rctx (clk 0)")
    case (Some e)
    then show ?thesis using assms refused body by (auto simp: mutate_held_def)
  next
    case None
    show ?thesis
    proof (cases "if invalidateOnly then Inr 0 else mutationPrecondition (req_Method r) (req_Header r)")
      case (Inl a)
      obtain status e where a: "a = (status, e)" by (cases a)
      have "status = 400 \<or> status = 428" using Inl a mutationPrecondition_status by (simp split: if_splits)
      with Inl a assms body None show ?thesis by (intro refused) (auto simp: mutate_held_def Let_def)
    next
      case (Inr expected)
      let ?run = "executeMutation (\<lambda>n. clk (n + 1)) (api_Lifecycle opts) store router
         \<lparr>mc_kind = (if invalidateOnly then mutationNotify else if req_Method r = ''PUT'' then mutationPut else mutationDelete),
          mc_key = key, mc_value = val, mc_expected = expected, mc_version = version\<rparr> s"
      obtain outcome ob s2 where run: "?run = ((outcome, ob), s2)" by (metis prod.exhaust)
      have "ob = obs" "s2 = s'" "mutationAnswer r (HeaderSet ''Cache-Control'' ''no-store'' h0) outcome = (answer, result)"
        using assms unfolding mutate_held_def body sum.case None Inr Let_def run by (simp_all split: prod.splits)
      with run show ?thesis using executed [OF body None Inr] by simp
    qed
  qed
qed

lemma mutate_cases:
  assumes "mutate clk rctx opts store router invalidateOnly h0 r st = ((answer, result, obs), st')"
  obtains (refused) "st' = st" "ctx_Err rctx (clk 0) \<noteq> None \<or> ar_Status answer \<in> {400, 401, 413, 428, 503}"
  | (executed) command outcome where "write_guard (clk 0) rctx opts invalidateOnly r (as_slots st) command"
      "executeMutation (\<lambda>n. clk (n + 1)) (api_Lifecycle opts) store router command (as_world st) = ((outcome, obs), as_world st')"
      "mutationAnswer r (HeaderSet ''Cache-Control'' ''no-store'' h0) outcome = (answer, result)"
      "as_slots st' = as_slots st" "as_inflight st' = as_inflight st"
proof -
  obtain d st1 where ad: "mutate_admit opts invalidateOnly h0 r st = (d, st1)" by fastforce
  show ?thesis
  proof (cases d)
    case (Inl a)
    with assms ad mutate_admit_Inl [of opts invalidateOnly h0 r st a st1] show ?thesis by (intro refused) (auto simp: mutate_def)
  next
    case (Inr kv)
    obtain key version where kv: "kv = (key, version)" by (cases kv)
    note g = ad [unfolded Inr kv, unfolded mutate_admit_Inr]
    obtain s' where held: "mutate_held clk rctx opts store router invalidateOnly h0 r key version (as_world st) = ((answer, result, obs), s')"
      and st': "st' = mutate_release (st1\<lparr>as_world := s'\<rparr>)"
      using assms ad Inr kv g by (auto simp: mutate_def split: prod.splits)
    have frame: "as_slots st' = as_slots st" "as_inflight st' = as_inflight st" "as_world st' = s'" "st' = st\<lparr>as_world := s'\<rparr>"
      using g st' by (auto simp: mutate_release_def)
    from held show ?thesis
    proof (cases rule: mutate_held_cases)
      case refused
      then show ?thesis using frame(4) by (intro that(1)) auto
    next
      case (executed val expected outcome)
      let ?command = "\<lparr>mc_kind = (if invalidateOnly then mutationNotify else if req_Method r = ''PUT'' then mutationPut else mutationDelete),
          mc_key = key, mc_value = val, mc_expected = expected, mc_version = version\<rparr>"
      have "write_guard (clk 0) rctx opts invalidateOnly r (as_slots st) ?command"
        using g executed(1-3) requestBody_Inr [of r val] requestKey_iff [of "url_RawQuery (req_URL r)" key]
        by (auto simp: write_guard_def split: if_splits)
      then show ?thesis using executed(4,5) frame(1-3) by (intro that(2)) simp_all
    qed
  qed
qed

text \<open>
  C29: a write reaches the source only past every guard. A request leaves the slots and the gauge as
  it found them, and it either leaves the world untouched, with an error status unless its own
  context had ended, or it holds a valid token, found a free slot, spelt a valid key canonically, gave
  an acceptable version header, a body that is JSON of admissible length if it is a PUT, and an exact
  precondition unless it only notifies, and the world is what executing that one command makes of it.
\<close>

theorem mutate_guarded:
  "case mutate clk rctx opts store router invalidateOnly h0 r st of
     ((answer, result, obs), st') \<Rightarrow>
       as_slots st' = as_slots st \<and> as_inflight st' = as_inflight st \<and>
       (as_world st' = as_world st \<and> ((\<exists>e. ctx_Err rctx (clk 0) = Some e) \<or> ar_Status answer \<in> {400, 401, 413, 428, 503}) \<or>
        (\<exists>command. write_guard (clk 0) rctx opts invalidateOnly r (as_slots st) command \<and>
           as_world st' = snd (executeMutation (\<lambda>n. clk (n + 1)) (api_Lifecycle opts) store router command (as_world st))))"
proof -
  obtain answer result obs st' where m: "mutate clk rctx opts store router invalidateOnly h0 r st = ((answer, result, obs), st')"
    by (metis prod.exhaust)
  show ?thesis unfolding m prod.case by (rule mutate_cases [OF m]) auto
qed

section \<open>Concurrent writes\<close>

text \<open>
  Any number of handlers interleave between the slot and its release; \<open>n\<close> counts those that hold
  one. A holder may change the world, and the deferred release runs once for each of them.
\<close>

inductive write_step :: "APIOptions \<Rightarrow> 's api_state \<times> nat \<Rightarrow> 's api_state \<times> nat \<Rightarrow> bool" for opts where
  admitted: "mutate_admit opts invalidateOnly h0 r st = (Inr kv, st') \<Longrightarrow> write_step opts (st, n) (st', n + 1)"
| refused: "mutate_admit opts invalidateOnly h0 r st = (Inl a, st') \<Longrightarrow> write_step opts (st, n) (st', n)"
| works: "0 < n \<Longrightarrow> write_step opts (st, n) (st\<lparr>as_world := w\<rparr>, n)"
| released: "0 < n \<Longrightarrow> write_step opts (st, n) (mutate_release st, n - 1)"

inductive_cases write_stepE: "write_step opts (st, n) (st', n')"

definition slots_inv :: "APIOptions \<Rightarrow> 's api_state \<times> nat \<Rightarrow> bool" where
  "slots_inv opts = (\<lambda>(st, n). as_slots st = n \<and> as_inflight st = int n \<and> int n \<le> api_MaxConcurrentWrites opts)"

lemma slots_inv_step: "write_step opts a b \<Longrightarrow> slots_inv opts a \<Longrightarrow> slots_inv opts b"
proof (induction rule: write_step.induct)
  case (admitted io h0 r st kv st' n)
  then show ?case by (cases kv) (auto simp: slots_inv_def mutate_admit_Inr)
next
  case (refused io h0 r st a st' n)
  then show ?case by (auto simp: slots_inv_def dest: mutate_admit_Inl)
qed (auto simp: slots_inv_def mutate_release_def)

lemma slots_inv_run: "(write_step opts)\<^sup>*\<^sup>* a b \<Longrightarrow> slots_inv opts a \<Longrightarrow> slots_inv opts b"
  by (induction rule: rtranclp_induct) (auto intro: slots_inv_step)


definition sampleAPI :: APIOptions where
  "sampleAPI = \<lparr>api_Store = True, api_Directory = True, api_Token = ''t'', api_Lifecycle = None,
     api_MaxConcurrentWrites = 1, api_NodeID = ''''\<rparr>"

definition sampleDelete :: request where
  "sampleDelete = \<lparr>req_Method = ''DELETE'', req_URL = noURL\<lparr>url_Path := ''/api'', url_RawQuery := ''key=a''\<rparr>,
     req_Header = [(''Authorization'', ''Bearer t''), (''If-Match'', versionETag 1)], req_Body = Some []\<rparr>"

lemma sampleDelete_key: "requestKey (url_RawQuery (req_URL sampleDelete)) = Inr ''a''"
proof -
  have "''key=a'' = ''key='' @ wire ''a''" "ValidString ''a''" by code_simp+
  then show ?thesis using sample_key by (simp add: requestKey_iff sampleDelete_def)
qed

lemma sampleDelete_guards: "Authorized (req_Header sampleDelete) (api_Token sampleAPI)"
  "ParseInvalidationVersion (req_Header sampleDelete) = Inr 0"
  by code_simp+

lemma sampleDelete_admit:
  "mutate_admit sampleAPI False [] sampleDelete \<lparr>as_slots = 0, as_inflight = 0, as_world = w\<rparr> =
     (Inr (''a'', 0), \<lparr>as_slots = 1, as_inflight = 1, as_world = w\<rparr>)"
  using sampleDelete_key sampleDelete_guards sample_key unfolding mutate_admit_Inr by (simp add: sampleAPI_def)


section \<open>The write route on the PostgreSQL store\<close>

lemma mutationAnswer_document:
  assumes "mutationAnswer r h outcome = (answer, result)" "ar_Status answer \<in> {200, 202}"
  shows "mo_writeErr outcome = None \<and> mo_broadcastErr outcome = None \<and> ar_Body answer = Document (mo_response outcome)"
    "req_Method r = ''PUT'' \<Longrightarrow> mr_SourceVersion (mo_response outcome) = Some v \<Longrightarrow>
       HeaderGet ''ETag'' (ar_Header answer) = versionETag v"
proof -
  have st: "Status e \<notin> {200, 202}" for e by (simp add: Status_def)
  show 1: "mo_writeErr outcome = None \<and> mo_broadcastErr outcome = None \<and> ar_Body answer = Document (mo_response outcome)"
    using assms st by (auto simp: mutationAnswer_def Let_def split: if_splits option.splits)
  show "HeaderGet ''ETag'' (ar_Header answer) = versionETag v"
    if "req_Method r = ''PUT''" "mr_SourceVersion (mo_response outcome) = Some v"
    using assms 1 that by (auto simp: mutationAnswer_def Let_def HeaderGet_Set)
qed

lemma mutationAnswer_conflict:
  assumes "mutationAnswer r h outcome = (answer, result)" "ar_Status answer = 412"
  shows "\<exists>e. mo_writeErr outcome = Some e \<and> errors_Is e ErrPreconditionFailed"
proof -
  have "Status e \<noteq> 412" for e by (simp add: Status_def)
  with assms show ?thesis by (auto simp: mutationAnswer_def Let_def split: if_splits option.splits)
qed

lemma executeMutation_conflict:
  assumes "executeMutation clk lifecycle store router command s = ((out, obs), s')"
    and "mo_writeErr out = Some e" "errors_Is e ErrPreconditionFailed"
  shows "mr_SourceCommitted (mo_response out) = Some False"
proof (cases "mc_kind command = mutationNotify")
  case True
  then show ?thesis using assms by (auto simp: executeMutation_def broadcast_def Let_def split: prod.splits option.splits)
next
  case False
  obtain response writeErr s1 where
    w: "source_write clk (WithTimeout (case lifecycle of None \<Rightarrow> Background | Some c \<Rightarrow> c) (clk 0) mutationTimeout) store command s =
          ((response, writeErr), s1)" by (metis prod.exhaust)
  show ?thesis
    using assms False unfolding executeMutation_def Let_def w
    by (auto simp: broadcast_def Let_def split: prod.splits option.splits if_splits)
qed


definition sampleMutWorld :: mutWorld where
  "sampleMutWorld = \<lparr>mw_db = sampleDb, mw_out = Replied, mw_notified = []\<rparr>"

lemma sampleDelete_expected: "mutationPrecondition ''DELETE'' (req_Header sampleDelete) = Inr 1"
proof -
  have "HeaderValues ''If-Match'' (req_Header sampleDelete) = [versionETag 1]"
    "HeaderValues ''If-None-Match'' (req_Header sampleDelete) = []"
    by code_simp+
  then show ?thesis using versionETag_trimmed by (auto simp: mutationPrecondition_iff int64_def)
qed


end
