(* ===== verification/App_Config.thy ===== *)
theory App_Config
  imports Go_IP App_API
begin

text \<open>
  \<open>internal/app/config.go\<close>: the runtime configuration, its binding to environment variables and its
  validation. The environment is a function (an unset variable is empty). \<open>bracketed\<close> is what
  \<open>url.Parse\<close> makes of a host in square brackets and \<open>unicode\<close> how \<open>ToLower\<close> maps non-ASCII text.
\<close>

section \<open>Validation\<close>

record Config =
  cfg_ClusterAddr :: string
  cfg_APIAddr :: string
  cfg_SelfID :: string
  cfg_DiscoveryMode :: string
  cfg_Namespace :: string
  cfg_ClusterService :: string
  cfg_API :: bool
  cfg_CacheBytes :: int
  cfg_TTL :: duration
  cfg_SourceConcurrency :: int
  cfg_SourceMaxPending :: int
  cfg_MaxMissWaiters :: int
  cfg_WriteConcurrency :: int
  cfg_Members :: "Member list"
  cfg_DebugAddr :: string
  cfg_ProfileContention :: bool
  cfg_SourceMode :: string
  cfg_DatabaseURL :: string
  cfg_AdminToken :: string

definition noConfig :: Config where
  "noConfig = \<lparr>cfg_ClusterAddr = '''', cfg_APIAddr = '''', cfg_SelfID = '''', cfg_DiscoveryMode = '''', cfg_Namespace = '''',
     cfg_ClusterService = '''', cfg_API = False, cfg_CacheBytes = 0, cfg_TTL = 0, cfg_SourceConcurrency = 0,
     cfg_SourceMaxPending = 0, cfg_MaxMissWaiters = 0, cfg_WriteConcurrency = 0, cfg_Members = [], cfg_DebugAddr = '''',
     cfg_ProfileContention = False, cfg_SourceMode = '''', cfg_DatabaseURL = '''', cfg_AdminToken = ''''\<rparr>"

definition validateListenAddr :: "string \<Rightarrow> goerror option" where
  "validateListenAddr address =
     (case SplitHostPort address of
        None \<Rightarrow> Some (NewError ''split'')
      | Some (_, port) \<Rightarrow>
          (case Atoi port of
             None \<Rightarrow> Some (NewError ''invalid listener port'')
           | Some n \<Rightarrow> if n < 0 \<or> n > 65535 then Some (NewError ''invalid listener port'') else None))"

definition validateDebugAddr :: "string \<Rightarrow> goerror option" where
  "validateDebugAddr address =
     (if address = '''' then None
      else case SplitHostPort address of
        None \<Rightarrow> Some (NewError ''DEBUG_ADDR requires a literal loopback IP and port'')
      | Some (host, port) \<Rightarrow>
          (case (Atoi port, ParseIP host) of
             (Some number, Some ip) \<Rightarrow>
               if number < 0 \<or> number > 65535 \<or> \<not> IsLoopback ip
               then Some (NewError ''DEBUG_ADDR requires a literal loopback IP and port'') else None
           | _ \<Rightarrow> Some (NewError ''DEBUG_ADDR requires a literal loopback IP and port'')))"

definition staticAddress :: "(string \<Rightarrow> string option) \<Rightarrow> (string \<Rightarrow> string) \<Rightarrow> string \<Rightarrow> goerror + string" where
  "staticAddress bracketed unicode raw =
     (let bad = Inl (NewError ''invalid static member address'') in
      case url_Parse bracketed raw of
        None \<Rightarrow> bad
      | Some u \<Rightarrow>
          if url_Scheme u \<noteq> ''http'' \<or> url_Host u = '''' \<or> url_User u \<or> url_RawQuery u \<noteq> '''' \<or> url_Fragment u \<noteq> '''' \<or>
             url_Path u \<noteq> '''' \<and> url_Path u \<noteq> ''/'' then bad
          else case SplitHostPort (url_Host u) of
            None \<Rightarrow> bad
          | Some (host, port) \<Rightarrow>
              (case Atoi port of
                 None \<Rightarrow> bad
               | Some number \<Rightarrow>
                   if host = '''' \<or> number < 1 \<or> number > 65535 then bad
                   else Inr (JoinHostPort (ToLower unicode host) (FormatInt number))))"

fun validateMembers :: "(string \<Rightarrow> string option) \<Rightarrow> (string \<Rightarrow> string) \<Rightarrow> Member list \<Rightarrow> goerror option" where
  "validateMembers bracketed unicode [] = None"
| "validateMembers bracketed unicode (m # ms) =
     (if mem_ID m = '''' \<or> (\<exists>c\<in>set (mem_Address m). c \<in> set ''/?#'') then Some (NewError ''invalid member'')
      else case staticAddress bracketed unicode (''http://'' @ mem_Address m) of
        Inl _ \<Rightarrow> Some (NewError ''invalid member address'')
      | Inr _ \<Rightarrow> validateMembers bracketed unicode ms)"

definition validateDiscovery :: "Config \<Rightarrow> goerror option" where
  "validateDiscovery c =
     (if cfg_DiscoveryMode c = ''static'' then None
      else if cfg_DiscoveryMode c = ''kubernetes'' then
        (case Cut (CHR ''/'') (cfg_SelfID c) of (namespace, pod, ok) \<Rightarrow>
           if cfg_Namespace c = '''' \<or> cfg_ClusterService c = '''' \<or> \<not> ok \<or> namespace \<noteq> cfg_Namespace c \<or> pod = '''' \<or>
              CHR ''/'' \<in> set pod
           then Some (NewError ''Kubernetes discovery requires namespace/pod SelfID, POD_NAMESPACE and CLUSTER_SERVICE'')
           else None)
      else Some (NewError ''unsupported DISCOVERY_MODE''))"

definition Validate :: "(string \<Rightarrow> string option) \<Rightarrow> (string \<Rightarrow> string) \<Rightarrow> Config \<Rightarrow> goerror option" where
  "Validate bracketed unicode c =
     (if validateListenAddr (cfg_ClusterAddr c) \<noteq> None then Some (NewError ''invalid ClusterAddr'')
      else if (cfg_API c \<or> cfg_APIAddr c \<noteq> '''') \<and> validateListenAddr (cfg_APIAddr c) \<noteq> None then Some (NewError ''invalid API_ADDR'')
      else if cfg_SelfID c = '''' then Some (NewError ''SelfID is required'')
      else if validateDebugAddr (cfg_DebugAddr c) \<noteq> None then validateDebugAddr (cfg_DebugAddr c)
      else if cfg_ProfileContention c \<and> cfg_DebugAddr c = '''' then Some (NewError ''contention profiling requires DEBUG_ADDR'')
      else if cfg_CacheBytes c < 2 ^ 20 \<or> cfg_CacheBytes c > 128 * 2 ^ 20 then Some (NewError ''invalid CACHE_BYTES'')
      else if cfg_TTL c < 0 \<or> cfg_TTL c > Hour then Some (NewError ''invalid TTL_SECONDS'')
      else if cfg_SourceConcurrency c < 1 \<or> cfg_SourceConcurrency c > 1024 then Some (NewError ''invalid SOURCE_MAX_CONCURRENCY'')
      else if cfg_SourceMaxPending c < 0 \<or> cfg_SourceMaxPending c > 4096 then Some (NewError ''invalid SOURCE_MAX_PENDING'')
      else if cfg_MaxMissWaiters c < 0 \<or> cfg_MaxMissWaiters c > 4096 then Some (NewError ''invalid MAX_MISS_WAITERS'')
      else if cfg_WriteConcurrency c < 0 \<or> cfg_WriteConcurrency c > 256 then Some (NewError ''invalid WRITE_MAX_CONCURRENCY'')
      else case validateDiscovery c of
        Some e \<Rightarrow> Some e
      | None \<Rightarrow> validateMembers bracketed unicode (cfg_Members c))"

definition validateSourceConfig :: "Config \<Rightarrow> goerror option" where
  "validateSourceConfig c =
     (if cfg_SourceMode c \<noteq> '''' \<and> cfg_SourceMode c \<noteq> ''demo'' \<and> cfg_SourceMode c \<noteq> ''postgres''
      then Some (NewError ''unsupported SOURCE_MODE'')
      else if cfg_SourceMode c = ''postgres'' \<and> (cfg_DatabaseURL c = '''' \<or> cfg_AdminToken c = '''')
      then Some (NewError ''postgres mode requires DATABASE_URL and CACHE_ADMIN_TOKEN'')
      else None)"

section \<open>Environment\<close>

text \<open>A step returns the configuration as far as it got and an error; the first error ends the binding.\<close>

type_synonym config_step = "Config \<Rightarrow> Config \<times> goerror option"

definition cfg_then :: "config_step \<Rightarrow> config_step \<Rightarrow> config_step" where
  "cfg_then f g c = (case f c of (c', Some e) \<Rightarrow> (c', Some e) | (c', None) \<Rightarrow> g c')"

definition removedSettings :: "string list" where
  "removedSettings = [''READ_ROUTING_MODE'', ''HOT_CACHE_BYTES'', ''PEERS'', ''PEER_SERVICE'']"

definition defaultConfig :: "(string \<Rightarrow> string) \<Rightarrow> int \<Rightarrow> bool \<Rightarrow> Config" where
  "defaultConfig env port api =
     \<lparr>cfg_ClusterAddr = ''0.0.0.0:'' @ FormatInt port, cfg_APIAddr = ''0.0.0.0:9999'', cfg_SelfID = '''',
      cfg_DiscoveryMode = env ''DISCOVERY_MODE'', cfg_Namespace = env ''POD_NAMESPACE'',
      cfg_ClusterService = env ''CLUSTER_SERVICE'', cfg_API = api, cfg_CacheBytes = 64 * 2 ^ 20, cfg_TTL = Minute,
      cfg_SourceConcurrency = 32, cfg_SourceMaxPending = DefaultSourcePending, cfg_MaxMissWaiters = DefaultMissWaiters,
      cfg_WriteConcurrency = DefaultWriteConcurrency, cfg_Members = [], cfg_DebugAddr = env ''DEBUG_ADDR'',
      cfg_ProfileContention = False, cfg_SourceMode = env ''SOURCE_MODE'', cfg_DatabaseURL = env ''DATABASE_URL'',
      cfg_AdminToken = env ''CACHE_ADMIN_TOKEN''\<rparr>"

definition bindModes :: "(string \<Rightarrow> string) \<Rightarrow> int \<Rightarrow> config_step" where
  "bindModes env port c =
     (if port < 1 \<or> port > 65535 then (c, Some (NewError ''invalid notification port''))
      else
        (let c1 = (if cfg_DiscoveryMode c = '''' then c\<lparr>cfg_DiscoveryMode := ''static''\<rparr> else c);
             c2 = (if cfg_SourceMode c1 = '''' then c1\<lparr>cfg_SourceMode := ''demo''\<rparr> else c1)
         in (if env ''API_ADDR'' \<noteq> '''' then c2\<lparr>cfg_APIAddr := env ''API_ADDR''\<rparr> else c2, None)))"

text \<open>
  An integer setting with the field it sets. On the decimal integers the guard before it lets
  through, \<open>time.ParseDuration\<close> of the text with the unit \<open>s\<close> fails exactly on overflow.
\<close>

definition bindInt :: "(string \<Rightarrow> string) \<Rightarrow> string \<Rightarrow> bool \<Rightarrow> (int \<Rightarrow> Config \<Rightarrow> Config) \<Rightarrow> config_step" where
  "bindInt env name zeroDefault set_field c =
     (if env name = '''' then (c, None)
      else case Atoi (env name) of
        None \<Rightarrow> (c, Some (NewError (''invalid '' @ name)))
      | Some n \<Rightarrow> if n = 0 \<and> zeroDefault then (c, Some (NewError (''invalid '' @ name))) else (set_field n c, None))"

definition ParseDuration_seconds :: "int \<Rightarrow> duration option" where
  "ParseDuration_seconds n = (if int64 (n * Second) then Some (n * Second) else None)"

definition bindTTL :: "(string \<Rightarrow> string) \<Rightarrow> config_step" where
  "bindTTL env c =
     (if env ''TTL_SECONDS'' = '''' then (c, None)
      else case Option.bind (ParseInt (env ''TTL_SECONDS'')) ParseDuration_seconds of
        None \<Rightarrow> (c, Some (NewError ''invalid TTL_SECONDS''))
      | Some d \<Rightarrow> if d = 0 then (c, Some (NewError ''invalid TTL_SECONDS'')) else (c\<lparr>cfg_TTL := d\<rparr>, None))"

fun bindMembers :: "(string \<Rightarrow> string option) \<Rightarrow> (string \<Rightarrow> string) \<Rightarrow> string list \<Rightarrow> config_step" where
  "bindMembers bracketed unicode [] c = (c, None)"
| "bindMembers bracketed unicode (raw # raws) c =
     (case staticAddress bracketed unicode (TrimSpace raw) of
        Inl e \<Rightarrow> (c, Some e)
      | Inr address \<Rightarrow>
          bindMembers bracketed unicode raws (c\<lparr>cfg_Members := cfg_Members c @ [\<lparr>mem_ID = address, mem_Address = address\<rparr>]\<rparr>))"

definition bindIdentity ::
  "(string \<Rightarrow> string option) \<Rightarrow> (string \<Rightarrow> string) \<Rightarrow> (string \<Rightarrow> string) \<Rightarrow> int \<Rightarrow> config_step" where
  "bindIdentity bracketed unicode env port c =
     (if cfg_DiscoveryMode c = ''kubernetes'' then
        if env ''POD_NAME'' = ''''
        then (c, Some (NewError ''Kubernetes discovery requires POD_NAME, POD_NAMESPACE and CLUSTER_SERVICE''))
        else (c\<lparr>cfg_SelfID := cfg_Namespace c @ ''/'' @ env ''POD_NAME''\<rparr>, None)
      else if cfg_DiscoveryMode c = ''static'' then
        (let self = (if env ''SELF_ADDR'' = '''' then ''http://localhost:'' @ FormatInt port else env ''SELF_ADDR'') in
         case staticAddress bracketed unicode self of
           Inl e \<Rightarrow> (c, Some e)
         | Inr address \<Rightarrow>
             bindMembers bracketed unicode (Split (CHR '','') (if env ''MEMBERS'' = '''' then self else env ''MEMBERS''))
               (c\<lparr>cfg_SelfID := address\<rparr>))
      else (c, None))"

definition FromEnv ::
  "(string \<Rightarrow> string option) \<Rightarrow> (string \<Rightarrow> string) \<Rightarrow> (string \<Rightarrow> string) \<Rightarrow> int \<Rightarrow> bool \<Rightarrow> Config \<times> goerror option" where
  "FromEnv bracketed unicode env port api =
     (case find (\<lambda>old. env old \<noteq> '''') removedSettings of
        Some old \<Rightarrow>
          (noConfig, Some (NewError (old @ '' was removed; use Gateway routing and MEMBERS/CLUSTER_SERVICE for invalidation discovery'')))
      | None \<Rightarrow>
          cfg_then (bindModes env port)
          (cfg_then (bindInt env ''CACHE_BYTES'' False (\<lambda>n c. c\<lparr>cfg_CacheBytes := n\<rparr>))
          (cfg_then (bindTTL env)
          (cfg_then (bindInt env ''SOURCE_MAX_CONCURRENCY'' False (\<lambda>n c. c\<lparr>cfg_SourceConcurrency := n\<rparr>))
          (cfg_then (bindInt env ''SOURCE_MAX_PENDING'' False (\<lambda>n c. c\<lparr>cfg_SourceMaxPending := n\<rparr>))
          (cfg_then (bindInt env ''MAX_MISS_WAITERS'' True (\<lambda>n c. c\<lparr>cfg_MaxMissWaiters := n\<rparr>))
          (cfg_then (bindInt env ''WRITE_MAX_CONCURRENCY'' True (\<lambda>n c. c\<lparr>cfg_WriteConcurrency := n\<rparr>))
          (cfg_then (bindIdentity bracketed unicode env port)
          (cfg_then (\<lambda>c. (c, Validate bracketed unicode c)) (\<lambda>c. (c, validateSourceConfig c))))))))))
          (defaultConfig env port api))"

section \<open>Static addresses\<close>

lemma hex_digit_not_reserved: "unhex c \<noteq> None \<Longrightarrow> c \<notin> set '':[]''"
  by (auto simp: unhex_def isDigit_def code_def)

lemma unhex_bound: "unhex c = Some d \<Longrightarrow> d < 16"
  by (auto simp: unhex_def isDigit_def code_def split: if_splits)

lemma hex_byte_host:
  assumes "hex_byte encodeHost a b = Some x"
  shows "x \<notin> set '':[]''" "a \<notin> set '':[]''" "b \<notin> set '':[]''"
proof -
  obtain m n where u: "unhex a = Some m" "unhex b = Some n" and x: "x = char_of (16 * m + n)" and ok: "8 \<le> m \<or> [a, b] = ''25''"
    using assms by (auto simp: hex_byte_def split: option.splits if_splits)
  show "a \<notin> set '':[]''" "b \<notin> set '':[]''" using u hex_digit_not_reserved by auto
  have "16 * m + n < 256" using unhex_bound [OF u(1)] unhex_bound [OF u(2)] by simp
  then have "code x = 16 * m + n" by (simp add: x code_def)
  moreover have "m = 2 \<and> n = 5" if "[a, b] = ''25''" using that u by (auto simp: unhex_def isDigit_def code_def)
  ultimately have "code x \<ge> 128 \<or> code x = 37" using ok by auto
  then show "x \<notin> set '':[]''" by (auto simp: code_def)
qed

lemma unescape_host_reserved:
  "unescape encodeHost s = Some t \<Longrightarrow> c \<in> set '':[]'' \<Longrightarrow> c \<in> set t \<longleftrightarrow> c \<in> set s"
proof (induction encodeHost s arbitrary: t rule: unescape.induct)
  case (2 d s)
  show ?case
  proof (cases "d = CHR ''%''")
    case True
    then obtain a b r x y where r: "s = a # b # r" "hex_byte encodeHost a b = Some x" "unescape encodeHost r = Some y" "t = x # y"
      using 2(3) by (auto split: list.splits option.splits)
    have "c \<noteq> x" "c \<noteq> a" "c \<noteq> b" using hex_byte_host [OF r(2)] 2(4) by auto
    then show ?thesis using 2(1) [OF True r(1) refl _ 2(4)] r True 2(4) by auto
  next
    case False
    then obtain y where "unescape encodeHost s = Some y" "t = d # y"
      using 2(3) by (auto simp: plain_char_def split: option.splits if_splits)
    then show ?thesis using 2(2) [OF False _ 2(4)] by auto
  qed
qed simp

lemma plain_host: "isDigit c \<or> c = CHR '':'' \<Longrightarrow> plain_char encodeHost c = Some c \<and> c \<noteq> CHR ''%''"
proof (elim disjE)
  assume d: "isDigit c"
  then have "\<not> shouldEscape encodeHost c" by (simp add: shouldEscape_def isAlnum_def)
  moreover have "c \<noteq> CHR ''%''" using d by (auto simp: isDigit_def)
  ultimately show ?thesis by (simp add: plain_char_def)
next
  have "plain_char encodeHost (CHR '':'') = Some (CHR '':'')" by code_simp
  then show "c = CHR '':'' \<Longrightarrow> plain_char encodeHost c = Some c \<and> c \<noteq> CHR ''%''" by simp
qed

lemma unescape_host_digits: "list_all isDigit q \<Longrightarrow> unescape encodeHost q = Some q"
  by (induction q) (simp_all add: plain_host)

lemma unescape_host_port:
  assumes "list_all isDigit p"
  shows "unescape encodeHost (a @ CHR '':'' # p) = Some t \<Longrightarrow> \<exists>ua. unescape encodeHost a = Some ua \<and> t = ua @ CHR '':'' # p"
proof (induction encodeHost a arbitrary: t rule: unescape.induct)
  case 1
  then show ?case using unescape_host_digits [OF assms] plain_host [of "CHR '':''"] by simp
next
  case (2 d s)
  show ?case
  proof (cases "d = CHR ''%''")
    case True
    then obtain a b r x y where r: "s @ CHR '':'' # p = a # b # r" "hex_byte encodeHost a b = Some x"
        "unescape encodeHost r = Some y" "t = x # y"
      using 2(3) by (auto split: list.splits option.splits)
    have "a \<noteq> CHR '':''" "b \<noteq> CHR '':''" using hex_byte_host [OF r(2)] by auto
    then obtain s' where s': "s = a # b # s'" "r = s' @ CHR '':'' # p"
      using r(1) by (cases s; cases "tl s") auto
    from 2(1) [OF True s'(1) refl] r(3) s'(2) obtain ua where "unescape encodeHost s' = Some ua" "y = ua @ CHR '':'' # p" by blast
    then show ?thesis using True s'(1) r(2,4) by simp
  next
    case False
    then obtain x y where y: "unescape encodeHost (s @ CHR '':'' # p) = Some y" "t = x # y" "plain_char encodeHost d = Some x"
      using 2(3) by (auto split: option.splits)
    from 2(2) [OF False y(1)] obtain ua where "unescape encodeHost s = Some ua" "y = ua @ CHR '':'' # p" by blast
    then show ?thesis using False y(2,3) by simp
  qed
qed

lemma lastIndex_Some: "lastIndex c s = Some i \<Longrightarrow> \<exists>a b. s = a @ c # b \<and> c \<notin> set b \<and> i = length a"
  using lastIndex_app by (metis lastIndex_def option.distinct(1) option.inject split_list_last)

lemma lastIndex_None: "lastIndex c s = None \<longleftrightarrow> c \<notin> set s"
  by (simp add: lastIndex_def)

lemma SplitHostPort_plain:
  assumes "CHR '':'' \<notin> set p" "CHR ''['' \<notin> set (a @ p)"
  shows "SplitHostPort (a @ CHR '':'' # p) =
    (if CHR '':'' \<in> set a \<or> CHR '']'' \<in> set (a @ p) then None else Some (a, p))"
proof -
  have "hd (a @ CHR '':'' # p) \<noteq> CHR ''[''" using assms(2) by (cases a) auto
  then show ?thesis using lastIndex_app [OF assms(1), of a] assms(2) by (auto simp: SplitHostPort_def)
qed

lemma parseHost_split:
  assumes "parseHost bracketed s = Some t" "CHR ''['' \<notin> set s" "SplitHostPort t = Some (h, p)" "h \<noteq> []"
  shows "\<exists>a. a \<noteq> [] \<and> SplitHostPort s = Some (a, p)"
proof -
  have un: "unescape encodeHost s = Some t" using assms(1,2) by (auto simp: parseHost_def split: option.splits if_splits)
  have col: "CHR '':'' \<in> set s"
    using assms(3) unescape_host_reserved [OF un, of "CHR '':''"] by (auto simp: SplitHostPort_def lastIndex_def split: if_splits)
  then obtain i where i: "lastIndex (CHR '':'') s = Some i" by (auto simp: lastIndex_def)
  from lastIndex_Some [OF i] obtain a q where s: "s = a @ CHR '':'' # q" "CHR '':'' \<notin> set q" "i = length a" by blast
  have q: "list_all isDigit q" using assms(1,2) i s by (auto simp: parseHost_def validOptionalPort_def split: if_splits)
  from unescape_host_port [OF q un [unfolded s(1)]] obtain ua where ua: "unescape encodeHost a = Some ua" "t = ua @ CHR '':'' # q" by blast
  have brk: "CHR ''['' \<notin> set (ua @ q)" "CHR '']'' \<in> set (ua @ q) \<longleftrightarrow> CHR '']'' \<in> set (a @ q)"
    using unescape_host_reserved [OF un, of "CHR ''[''"] unescape_host_reserved [OF un, of "CHR '']''"] assms(2) s(1) ua(2) by auto
  have t: "CHR '':'' \<notin> set ua" "CHR '']'' \<notin> set (ua @ q)" "h = ua" "p = q"
    using assms(3) SplitHostPort_plain [OF s(2) brk(1)] ua(2) by (auto split: if_splits)
  have "CHR '':'' \<notin> set a" using unescape_host_reserved [OF ua(1), of "CHR '':''"] t(1) by simp
  moreover have "a \<noteq> []" using ua(1) t(3) assms(4) by auto
  ultimately show ?thesis
    using SplitHostPort_plain [OF s(2), of a] brk(2) t(2,4) assms(2) s(1) by auto
qed

lemma plain_url:
  assumes "\<forall>c\<in>set addr. c \<notin> set ''/?#''" "url_Parse bracketed (''http://'' @ addr) = Some u"
  shows "parseAuthority bracketed addr = Some (url_User u, url_Host u)"
proof -
  let ?t = "''http://'' @ addr"
  have "CHR ''#'' \<notin> set ?t" "CHR ''?'' \<notin> set (''//'' @ addr)" using assms(1) by auto
  then have cut: "Cut (CHR ''#'') ?t = (?t, [], False)" "cutQuery (''//'' @ addr) = (''//'' @ addr, [])"
    by (auto simp: Cut_absent cutQuery_absent)
  have split: "takeWhile (\<lambda>c. c \<noteq> CHR ''/'') addr = addr" "dropWhile (\<lambda>c. c \<noteq> CHR ''/'') addr = []"
    using assms(1) by auto
  have scheme: "getScheme ?t = Some (''http'', ''//'' @ addr)" using scheme_http [of "''//'' @ addr"] by simp
  have rest: "parse_rest bracketed (map lowerChar ''http'') (''//'' @ addr) [] = Some u"
    using assms(2) cut scheme by (auto simp: url_Parse_def split: if_splits option.splits)
  have low: "map lowerChar ''http'' \<noteq> []" and pre: "HasPrefix (''//'' @ addr) ''/''" "HasPrefix (''//'' @ addr) ''//''" "drop 2 (''//'' @ addr) = addr"
    by (simp_all add: HasPrefix_def)
  obtain user host and u0 :: url where a: "parseAuthority bracketed addr = Some (user, host)"
      "setPath [] (u0\<lparr>url_User := user, url_Host := host\<rparr>) = Some u"
    using rest unfolding parse_rest_def Let_def pre(3) split using low pre(1,2)
    by (simp del: map_eq_conv split: option.splits prod.splits)
  then show ?thesis by (auto simp: setPath_def)
qed

lemma static_member_valid:
  assumes "staticAddress bracketed unicode (''http://'' @ addr) = Inr x" "\<forall>c\<in>set addr. c \<notin> set ''/?#''" "CHR ''['' \<notin> set addr"
  shows "validAddress addr"
proof -
  obtain u host port number where u: "url_Parse bracketed (''http://'' @ addr) = Some u" "\<not> url_User u"
      "SplitHostPort (url_Host u) = Some (host, port)" "Atoi port = Some number" "host \<noteq> []" "1 \<le> number" "number \<le> 65535"
    using assms(1) by (auto simp: staticAddress_def Let_def split: option.splits if_splits)
  have "parseHost bracketed addr = Some (url_Host u)"
    using plain_url [OF assms(2) u(1)] u(2) by (auto simp: parseAuthority_def Let_def split: option.splits prod.splits if_splits)
  from parseHost_split [OF this assms(3) u(3,5)] obtain a where "a \<noteq> []" "SplitHostPort addr = Some (a, port)" by blast
  then show ?thesis using u(4,6,7) assms(2) by (auto simp: validAddress_def)
qed

end
