(* ===== verification/Discovery.thy ===== *)
theory Discovery
  imports Go_IP Delivery
begin

text \<open>
  \<open>internal/discovery/endpoints.go\<close>: members from Kubernetes EndpointSlices, and the watcher that
  publishes them to the directory. The slices are records of the fields the code reads. The informer
  is the environment: it changes its store and later calls the handler once for every change; its two
  registrations, on an informer that has not started, succeed.
\<close>

section \<open>Members\<close>

record EndpointPort =
  ep_Name :: "string option"
  ep_Port :: "int option"
  ep_Protocol :: "string option"

record TargetRef =
  ref_Kind :: string
  ref_Namespace :: string
  ref_Name :: string

record Endpoint =
  end_Ready :: "bool option"
  end_Terminating :: "bool option"
  end_TargetRef :: "TargetRef option"
  end_Addresses :: "string list"

record EndpointSlice =
  sl_Namespace :: string
  sl_AddressType :: string
  sl_Ports :: "EndpointPort list"
  sl_Endpoints :: "Endpoint list"

definition cluster_port :: "EndpointPort list \<Rightarrow> int" where
  "cluster_port ports =
     (case find (\<lambda>p. ep_Name p = Some ''cluster'' \<and> ep_Port p \<noteq> None \<and>
                     (ep_Protocol p = None \<or> ep_Protocol p = Some ''TCP'')) ports of
        None \<Rightarrow> 0
      | Some p \<Rightarrow> the (ep_Port p))"

definition endpoint_members :: "string \<Rightarrow> int \<Rightarrow> Endpoint \<Rightarrow> Member list" where
  "endpoint_members sliceNamespace port e =
     (if end_Ready e = Some False \<or> end_Terminating e = Some True then []
      else case end_TargetRef e of
        None \<Rightarrow> []
      | Some t \<Rightarrow>
          if ref_Kind t \<noteq> ''Pod'' \<or> ref_Name t = '''' then []
          else
            (let ns = (if ref_Namespace t = '''' then sliceNamespace else ref_Namespace t) in
             if ns = '''' \<or> ns \<noteq> sliceNamespace then []
             else concat (map (\<lambda>address.
                    case Option.bind (ParseIP address) To4 of
                      None \<Rightarrow> []
                    | Some ip4 \<Rightarrow> [\<lparr>mem_ID = ns @ ''/'' @ ref_Name t,
                                    mem_Address = JoinHostPort (dotted ip4) (FormatInt port)\<rparr>]) (end_Addresses e))))"

definition slice_members :: "EndpointSlice \<Rightarrow> Member list" where
  "slice_members s =
     (if sl_AddressType s \<noteq> ''IPv4'' then []
      else let port = cluster_port (sl_Ports s) in
        if port < 1 \<or> port > 65535 then []
        else concat (map (endpoint_members (sl_Namespace s) port) (sl_Endpoints s)))"

definition slices_Members :: "EndpointSlice list \<Rightarrow> Member list" where
  "slices_Members slices = concat (map slice_members slices)"

section \<open>The watcher\<close>

text \<open>
  The goroutine of \<open>Run\<close> as a state machine. \<open>Listing\<close> is a rebuild that has not read the store yet,
  \<open>Publishing\<close> one that has. \<open>w_owed\<close> counts the store changes whose handler has not run.
\<close>

datatype watch_phase = Syncing | Listing | Publishing "EndpointSlice list" | Selecting | Stopped

record Watcher =
  w_store :: "EndpointSlice list"
  w_owed :: nat
  w_changes :: bool
  w_ready :: bool
  w_router :: Directory
  w_phase :: watch_phase
  w_reports :: "(nat \<times> bool) list"

definition newWatcher :: "string \<Rightarrow> string \<Rightarrow> Directory \<Rightarrow> goerror + Watcher" where
  "newWatcher namespace service router =
     (if namespace = '''' \<or> service = '''' then Inl (NewError ''namespace and member service are required'')
      else Inr \<lparr>w_store = [], w_owed = 0, w_changes = False, w_ready = False, w_router = router,
                w_phase = Syncing, w_reports = []\<rparr>)"

text \<open>\<open>signal\<close>: the channel of capacity one takes the token or already has one.\<close>

definition watch_signal :: "Watcher \<Rightarrow> Watcher" where
  "watch_signal w = w\<lparr>w_changes := True\<rparr>"

definition rebuild :: "EndpointSlice list \<Rightarrow> Watcher \<Rightarrow> bool \<times> Watcher" where
  "rebuild slices w =
     (let before = directory_Members (w_router w) in
      case Update (slices_Members slices) (w_router w) of
        (Some e, router) \<Rightarrow> (False, w\<lparr>w_router := router\<rparr>)
      | (None, router) \<Rightarrow>
          (let after = directory_Members router
           in (True, w\<lparr>w_router := router, w_reports := w_reports w @ [(length after, before \<noteq> after)]\<rparr>)))"

definition watch_publish :: "EndpointSlice list \<Rightarrow> Watcher \<Rightarrow> Watcher" where
  "watch_publish slices w =
     (case rebuild slices w of (ok, w') \<Rightarrow> w'\<lparr>w_ready := ok \<or> w_ready w', w_phase := Selecting\<rparr>)"

inductive watch_step :: "Watcher \<Rightarrow> Watcher \<Rightarrow> bool" where
  store_change: "watch_step w (w\<lparr>w_store := slices, w_owed := w_owed w + 1\<rparr>)"
| handler: "0 < w_owed w \<Longrightarrow> watch_step w (watch_signal (w\<lparr>w_owed := w_owed w - 1\<rparr>))"
| synced: "w_phase w = Syncing \<Longrightarrow> watch_step w (w\<lparr>w_phase := Listing\<rparr>)"
| sync_failed: "w_phase w = Syncing \<Longrightarrow> watch_step w (w\<lparr>w_phase := Stopped\<rparr>)"
| list_store: "w_phase w = Listing \<Longrightarrow> watch_step w (w\<lparr>w_phase := Publishing (w_store w)\<rparr>)"
| publish: "w_phase w = Publishing slices \<Longrightarrow> watch_step w (watch_publish slices w)"
| take_change: "w_phase w = Selecting \<Longrightarrow> w_changes w \<Longrightarrow> watch_step w (w\<lparr>w_changes := False, w_phase := Listing\<rparr>)"
| stop: "w_phase w = Selecting \<Longrightarrow> watch_step w (w\<lparr>w_ready := False, w_phase := Stopped\<rparr>)"

section \<open>Every selected member is publishable\<close>

lemma dotted_port_valid:
  assumes "ip4 \<noteq> []" "1 \<le> port" "port \<le> 65535"
  shows "validAddress (JoinHostPort (dotted ip4) (FormatInt port))"
proof -
  have host: "c \<notin> set '':[]/?#''" if "c \<in> set (dotted ip4)" for c
    using dotted_chars [OF that] digit_not_reserved [of c] by auto
  have prt: "c \<notin> set '':[]/?#''" if "c \<in> set (FormatInt port)" for c
    using FormatInt_digits [OF _ that] assms(2) digit_not_reserved [of c] by auto
  have split: "SplitHostPort (JoinHostPort (dotted ip4) (FormatInt port)) = Some (dotted ip4, FormatInt port)"
    using dotted_nonempty [OF assms(1)] host prt by (intro SplitHostPort_Join) auto
  have chars: "\<not> (\<exists>c\<in>set (JoinHostPort (dotted ip4) (FormatInt port)). c \<in> set ''/?#'')"
    using host prt by (auto simp: JoinHostPort_def)
  have "Atoi (FormatInt port) = Some port"
    using assms(2,3) ParseInt_FormatInt [of port] by (simp add: Atoi_def int64_def)
  then show ?thesis
    unfolding validAddress_def split using chars dotted_nonempty [OF assms(1)] assms(2,3) by simp
qed

lemma endpoint_member_ok:
  assumes "m \<in> set (endpoint_members ns port e)" "1 \<le> port" "port \<le> 65535"
  shows "\<not> bad_member m"
proof -
  from assms(1) obtain t :: TargetRef and address ip4 where
    m: "m = \<lparr>mem_ID = ns @ ''/'' @ ref_Name t, mem_Address = JoinHostPort (dotted ip4) (FormatInt port)\<rparr>"
    and ip: "Some ip4 = Option.bind (ParseIP address) To4"
    by (auto simp: endpoint_members_def Let_def split: if_splits option.splits)
  have "ip4 \<noteq> []" using ip [symmetric] ParseIP_length To4_length by (fastforce simp: bind_eq_Some_conv)
  then show ?thesis using m dotted_port_valid [OF _ assms(2,3)] by (simp add: bad_member_def)
qed

lemma slices_members_ok: "m \<in> set (slices_Members slices) \<Longrightarrow> \<not> bad_member m"
  by (auto simp: slices_Members_def slice_members_def Let_def not_less split: if_splits dest: endpoint_member_ok)

lemma Update_slices_ok: "\<exists>r'. Update (slices_Members slices) r = (None, r')"
proof -
  have "\<nexists>e. normalize [] (sortMembers (slices_Members slices)) = Inl e"
    using normalize_fails slices_members_ok sortMembers_sorted(2) by blast
  then show ?thesis by (cases "normalize [] (sortMembers (slices_Members slices))") (auto simp: Update_def)
qed

text \<open>
  C34: whatever the EndpointSlices of the service contain, the members selected from them are well
  formed. Each has an identity and an address the directory accepts, so publishing them never fails
  and one odd endpoint cannot block the others.
\<close>

theorem discovered_members_valid:
  "list_all (\<lambda>m. mem_ID m \<noteq> [] \<and> validAddress (mem_Address m)) (slices_Members slices) \<and>
   fst (Update (slices_Members slices) r) = None"
  using slices_members_ok [of _ slices] Update_slices_ok [of slices r] by (auto simp: list_all_iff bad_member_def)

section \<open>No change is lost\<close>

definition published :: "EndpointSlice list \<Rightarrow> Directory \<Rightarrow> bool" where
  "published slices r \<longleftrightarrow> dir_inv r \<and> set (directory_Members r) = first_addresses (set (slices_Members slices))"

definition watch_inv :: "Watcher \<Rightarrow> bool" where
  "watch_inv w \<longleftrightarrow> dir_start (w_router w) \<and>
     (case w_phase w of
        Publishing slices \<Rightarrow> slices = w_store w \<or> 0 < w_owed w \<or> w_changes w
      | Selecting \<Rightarrow> w_ready w \<and> (published (w_store w) (w_router w) \<or> 0 < w_owed w \<or> w_changes w)
      | Stopped \<Rightarrow> \<not> w_ready w
      | Syncing \<Rightarrow> \<not> w_ready w
      | Listing \<Rightarrow> True)"

lemma rebuild_publishes:
  assumes "dir_start (w_router w)"
  shows "fst (rebuild slices w)" "published slices (w_router (snd (rebuild slices w)))"
    "snd (rebuild slices w) = w\<lparr>w_router := w_router (snd (rebuild slices w)), w_reports := w_reports (snd (rebuild slices w))\<rparr>"
proof -
  obtain r' where u: "Update (slices_Members slices) (w_router w) = (None, r')" using Update_slices_ok by blast
  have "published slices r'"
    using Update_spec [OF assms u] slices_members_ok [of _ slices] by (auto simp: published_def split: if_splits)
  then show "fst (rebuild slices w)" "published slices (w_router (snd (rebuild slices w)))"
    "snd (rebuild slices w) = w\<lparr>w_router := w_router (snd (rebuild slices w)), w_reports := w_reports (snd (rebuild slices w))\<rparr>"
    using u by (simp_all add: rebuild_def Let_def)
qed

lemma watch_publish_fields:
  assumes "dir_start (w_router w)"
  shows "w_store (watch_publish slices w) = w_store w" "w_owed (watch_publish slices w) = w_owed w"
    "w_changes (watch_publish slices w) = w_changes w" "w_ready (watch_publish slices w)"
    "w_phase (watch_publish slices w) = Selecting" "published slices (w_router (watch_publish slices w))"
proof -
  obtain w' where r: "rebuild slices w = (True, w')" using rebuild_publishes(1) [OF assms] by (metis (full_types) prod.collapse)
  note p = rebuild_publishes(2,3) [OF assms, of slices, unfolded r snd_conv]
  have "w_store w' = w_store w" "w_owed w' = w_owed w" "w_changes w' = w_changes w"
    by (subst p(2), simp)+
  then show "w_store (watch_publish slices w) = w_store w" "w_owed (watch_publish slices w) = w_owed w"
    "w_changes (watch_publish slices w) = w_changes w" "w_ready (watch_publish slices w)"
    "w_phase (watch_publish slices w) = Selecting" "published slices (w_router (watch_publish slices w))"
    using r p(1) by (simp_all add: watch_publish_def)
qed

lemma watch_inv_step: "watch_step w w' \<Longrightarrow> watch_inv w \<Longrightarrow> watch_inv w'"
proof (induction rule: watch_step.induct)
  case (publish w slices)
  then have d: "dir_start (w_router w)" by (simp add: watch_inv_def)
  note f = watch_publish_fields [OF d, of slices]
  from publish have "slices = w_store w \<or> 0 < w_owed w \<or> w_changes w" by (simp add: watch_inv_def)
  moreover have "dir_start (w_router (watch_publish slices w))" using f(6) by (simp add: dir_start_def published_def)
  ultimately show ?case using f(4,6) unfolding watch_inv_def f(1,2,3,5) watch_phase.case by metis
next
  case (store_change w slices)
  then show ?case by (cases "w_phase w") (simp_all add: watch_inv_def)
next
  case (handler w)
  then show ?case by (cases "w_phase w") (simp_all add: watch_inv_def watch_signal_def)
qed (simp_all add: watch_inv_def)

lemma watch_inv_run: "watch_step\<^sup>*\<^sup>* w w' \<Longrightarrow> watch_inv w \<Longrightarrow> watch_inv w'"
  by (induction rule: rtranclp_induct) (auto intro: watch_inv_step)

text \<open>
  C33: the watcher loses no change of the EndpointSlices, although its channel holds one token and a
  rebuild may race with new changes. Whenever it is back in its select with nothing signalled and no
  handler outstanding, it reports ready and the directory holds exactly the members of the slices
  as they are then, each with its lexically first address.
\<close>

theorem watcher_converges:
  assumes "newWatcher namespace service router = Inr w0" "dir_start router" "watch_step\<^sup>*\<^sup>* w0 w"
    and "w_phase w = Selecting" "w_owed w = 0" "\<not> w_changes w"
  shows "w_ready w \<and> dir_inv (w_router w) \<and>
    set (directory_Members (w_router w)) = first_addresses (set (slices_Members (w_store w)))"
proof -
  have "watch_inv w0" using assms(1,2) by (auto simp: newWatcher_def watch_inv_def split: if_splits)
  from watch_inv_run [OF assms(3) this] show ?thesis using assms(4-6) by (simp add: watch_inv_def published_def)
qed

definition sampleSlice :: EndpointSlice where
  "sampleSlice = \<lparr>sl_Namespace = ''n'', sl_AddressType = ''IPv4'',
     sl_Ports = [\<lparr>ep_Name = Some ''cluster'', ep_Port = Some 8, ep_Protocol = None\<rparr>],
     sl_Endpoints = [\<lparr>end_Ready = None, end_Terminating = None,
       end_TargetRef = Some \<lparr>ref_Kind = ''Pod'', ref_Namespace = '''', ref_Name = ''p''\<rparr>, end_Addresses = [''10.0.0.7'', ''::1'']\<rparr>]\<rparr>"

lemma sampleSlice_members: "slices_Members [sampleSlice] = [\<lparr>mem_ID = ''n/p'', mem_Address = ''10.0.0.7:8''\<rparr>]"
  by code_simp

theorem watcher_converges_witness:
  "\<exists>w. watch_step\<^sup>*\<^sup>* \<lparr>w_store = [], w_owed = 0, w_changes = False, w_ready = False, w_router = sampleDirectory,
         w_phase = Syncing, w_reports = []\<rparr> w \<and> w_ready w \<and>
       set (directory_Members (w_router w)) = first_addresses {\<lparr>mem_ID = ''n/p'', mem_Address = ''10.0.0.7:8''\<rparr>}"
proof -
  let ?w0 = "\<lparr>w_store = [], w_owed = 0, w_changes = False, w_ready = False, w_router = sampleDirectory,
         w_phase = Syncing, w_reports = []\<rparr>"
  define w1 where "w1 = ?w0\<lparr>w_store := [sampleSlice], w_changes := True, w_phase := Publishing [sampleSlice]\<rparr>"
  define w2 where "w2 = watch_publish [sampleSlice] w1"
  define w3 where "w3 = w2\<lparr>w_changes := False, w_phase := Publishing [sampleSlice]\<rparr>"
  define w4 where "w4 = watch_publish [sampleSlice] w3"
  have d1: "dir_start (w_router w1)" by (simp add: w1_def dir_start_def sampleDirectory_def)
  note f2 = watch_publish_fields [OF d1, of "[sampleSlice]", folded w2_def]
  have d3: "dir_start (w_router w3)" using f2(6) by (simp add: w3_def dir_start_def published_def)
  note f4 = watch_publish_fields [OF d3, of "[sampleSlice]", folded w4_def]
  have "watch_step\<^sup>*\<^sup>* ?w0 (?w0\<lparr>w_store := [sampleSlice], w_owed := 1\<rparr>)"
    using watch_step.store_change [of ?w0 "[sampleSlice]"] by simp
  then have "watch_step\<^sup>*\<^sup>* ?w0 (?w0\<lparr>w_store := [sampleSlice], w_changes := True\<rparr>)"
    by (rule rtranclp.rtrancl_into_rtrancl) (use watch_step.handler [of "?w0\<lparr>w_store := [sampleSlice], w_owed := 1\<rparr>"] in \<open>simp add: watch_signal_def\<close>)
  then have "watch_step\<^sup>*\<^sup>* ?w0 (?w0\<lparr>w_store := [sampleSlice], w_changes := True, w_phase := Listing\<rparr>)"
    by (rule rtranclp.rtrancl_into_rtrancl) (use watch_step.synced [of "?w0\<lparr>w_store := [sampleSlice], w_changes := True\<rparr>"] in simp)
  then have "watch_step\<^sup>*\<^sup>* ?w0 w1" unfolding w1_def
    by (rule rtranclp.rtrancl_into_rtrancl)
      (use watch_step.list_store [of "?w0\<lparr>w_store := [sampleSlice], w_changes := True, w_phase := Listing\<rparr>"] in simp)
  then have "watch_step\<^sup>*\<^sup>* ?w0 w2" unfolding w2_def
    by (rule rtranclp.rtrancl_into_rtrancl) (rule watch_step.publish, simp add: w1_def)
  then have "watch_step\<^sup>*\<^sup>* ?w0 (w2\<lparr>w_changes := False, w_phase := Listing\<rparr>)"
    by (rule rtranclp.rtrancl_into_rtrancl) (rule watch_step.take_change, use f2 in \<open>simp_all add: w1_def\<close>)
  then have "watch_step\<^sup>*\<^sup>* ?w0 w3" unfolding w3_def
    by (rule rtranclp.rtrancl_into_rtrancl)
      (use watch_step.list_store [of "w2\<lparr>w_changes := False, w_phase := Listing\<rparr>"] f2 in \<open>simp add: w1_def\<close>)
  then have run: "watch_step\<^sup>*\<^sup>* ?w0 w4" unfolding w4_def
    by (rule rtranclp.rtrancl_into_rtrancl) (rule watch_step.publish, simp add: w3_def)
  have new: "newWatcher ''n'' ''s'' sampleDirectory = Inr ?w0" by (simp add: newWatcher_def)
  have "dir_start sampleDirectory" by (simp add: dir_start_def sampleDirectory_def)
  from watcher_converges [OF new this run f4(5)] have "w_ready w4 \<and>
      set (directory_Members (w_router w4)) = first_addresses (set (slices_Members [sampleSlice]))"
    using f4(1-3) f2(1,2) by (simp add: w3_def w1_def)
  with run show ?thesis unfolding sampleSlice_members by (intro exI [of _ w4]) simp
qed

end
