(* ===== verification/Demo.thy ===== *)
theory Demo
  imports Go_Net Cache_Errors Bloom
begin

text \<open>
  \<open>internal/demo/source.go\<close>: the finite read-only source of the demonstration nodes. The value map is
  the association list the constructor fills, later entries first. A read waits for a timer or the
  end of its context; when both have fired, \<open>timerFirst\<close> is the case the select takes.
\<close>

definition AutoKeys :: nat where "AutoKeys = 10000"
definition MaxDiagnosticValueBytes :: int where "MaxDiagnosticValueBytes = 4096"

record Source =
  src_values :: "string \<rightharpoonup> string"
  src_keys :: "string list"
  src_delay :: duration

definition AutoValue :: "string \<Rightarrow> int \<Rightarrow> string" where
  "AutoValue key valueBytes =
     (let val = ''Value-for-'' @ key in
      if valueBytes > int (length val) then val @ replicate (nat (valueBytes - int (length val))) (CHR ''v'') else val)"

definition autoKey :: "nat \<Rightarrow> string" where
  "autoKey i = ''Auto-'' @ FormatInt (int i)"

definition demo_entries :: "int \<Rightarrow> (string \<times> string) list" where
  "demo_entries valueBytes =
     [(''Tom'', ''630''), (''Jack'', ''589''), (''Sam'', ''567'')] @
     map (\<lambda>i. (autoKey i, AutoValue (autoKey i) valueBytes)) [0..<AutoKeys]"

definition NewSized :: "duration \<Rightarrow> int \<Rightarrow> string + Source" where
  "NewSized delay valueBytes =
     (if delay < 0 then Inl ''demo delay must be nonnegative''
      else if valueBytes < 0 \<or> valueBytes > MaxDiagnosticValueBytes then Inl ''invalid demo value size''
      else Inr \<lparr>src_values = map_of (rev (demo_entries valueBytes)), src_keys = remdups (map fst (demo_entries valueBytes)),
                src_delay = delay\<rparr>)"

definition demo_New :: "duration \<Rightarrow> string + Source" where
  "demo_New delay = NewSized delay 0"

definition demo_Keys :: "Source \<Rightarrow> string list" where
  "demo_Keys s = sort (src_keys s)"

definition demo_lookup :: "string \<Rightarrow> Source \<Rightarrow> bytes \<times> goerror option" where
  "demo_lookup key s =
     (case src_values s key of
        None \<Rightarrow> ([], Some (Wrap (''key not found: '' @ key) ErrNotFound))
      | Some val \<Rightarrow> (val, None))"

definition demo_Get :: "gocontext \<Rightarrow> gotime \<Rightarrow> bool \<Rightarrow> string \<Rightarrow> Source \<Rightarrow> bytes \<times> goerror option" where
  "demo_Get ctx now timerFirst key s =
     (let due = now + src_delay s in
      case ctx_Err ctx due of
        Some e \<Rightarrow> if timerFirst then demo_lookup key s else ([], Some e)
      | None \<Rightarrow> demo_lookup key s)"

section \<open>The key set is complete\<close>

lemma demo_values_dom:
  assumes "NewSized delay valueBytes = Inr s"
  shows "dom (src_values s) = set (demo_Keys s)"
proof -
  have "src_values s = map_of (rev (demo_entries valueBytes))" "src_keys s = remdups (map fst (demo_entries valueBytes))"
    using assms by (auto simp: NewSized_def split: if_splits)
  then show ?thesis by (simp add: demo_Keys_def dom_map_of_conv_image_fst)
qed

lemma demo_Keys_distinct: "NewSized delay valueBytes = Inr s \<Longrightarrow> distinct (demo_Keys s) \<and> sorted (demo_Keys s)"
  by (auto simp: NewSized_def demo_Keys_def split: if_splits)

lemma demo_Get_found:
  assumes "NewSized delay valueBytes = Inr s" "demo_Get ctx now timerFirst key s = (val, None)"
  shows "key \<in> set (demo_Keys s) \<and> src_values s key = Some val"
proof -
  have "src_values s key = Some val"
    using assms(2) by (auto simp: demo_Get_def demo_lookup_def Let_def split: option.splits if_splits)
  then show ?thesis using demo_values_dom [OF assms(1)] by (auto simp: dom_def)
qed

text \<open>
  The Bloom filter a group builds from these keys rejects none of the values: the keys are listed
  once each in order, and every key a read returns a value for passes the filter.
\<close>

lemma demo_keys_pass_filter:
  assumes "\<forall>bits n. roundHashes bits n < 2 ^ 64" "NewSized delay valueBytes = Inr s"
  shows "\<exists>bf. newBloomForKeys ceilBits roundHashes (demo_Keys s) = Some bf \<and> distinct (demo_Keys s) \<and> sorted (demo_Keys s) \<and>
    (\<forall>ctx now timerFirst key val. demo_Get ctx now timerFirst key s = (val, None) \<longrightarrow> bloom_Contains bf key = Some True)"
  using newBloomForKeys_spec [of roundHashes ceilBits "demo_Keys s"] assms(1) demo_Keys_distinct [OF assms(2)]
    demo_Get_found [OF assms(2)] by (fastforce simp: bloom_Contains_member)

end
