(* ===== verification/Outbox_Worker.thy ===== *)
theory Outbox_Worker
  imports Store_Run
begin

text \<open>
  \<open>internal/outbox/worker.go\<close>: the relay that claims a notification, sends it and completes it,
  with its maintenance pass and main loop. The \<open>Queue\<close> interface is a record of functions that
  pass the world's state along, \<open>Send\<close> likewise (what other processes do meanwhile is part of the
  state change of \<open>Send\<close>). \<open>clk n\<close> is the n-th clock reading; the observer's calls are a list.
  The contract of the interface is a locale; it is interpreted on the PostgreSQL queue.
\<close>

section \<open>Types\<close>

record 's queue =
  q_Claim :: "gocontext \<Rightarrow> duration \<Rightarrow> 's \<Rightarrow> (Event \<times> bool \<times> goerror option) \<times> 's"
  q_Finish :: "gocontext \<Rightarrow> Event \<Rightarrow> bool \<Rightarrow> duration \<Rightarrow> 's \<Rightarrow> (bool \<times> goerror option) \<times> 's"
  q_Stats :: "gocontext \<Rightarrow> 's \<Rightarrow> (outboxStats \<times> goerror option) \<times> 's"
  q_PurgeDelivered :: "gocontext \<Rightarrow> duration \<Rightarrow> int \<Rightarrow> 's \<Rightarrow> (nat \<times> goerror option) \<times> 's"

datatype outbox_event =
    OutboxEvent string string
  | OutboxBacklog int duration
  | OutboxStorage int int

text \<open>The observer: absent, without, or with the optional \<open>OutboxStorage\<close> method.\<close>

datatype outbox_observer = NilObserver | PlainObserver | StorageObserver

record 's Worker =
  w_Queue :: "'s queue"
  w_Send :: "gocontext \<Rightarrow> Event \<Rightarrow> 's \<Rightarrow> goerror option \<times> 's"
  w_Observer :: outbox_observer

type_synonym 's progress = "nat \<times> 's \<times> outbox_event list"

definition storageTimeout :: duration where "storageTimeout = Second"
definition deliveryTimeout :: duration where "deliveryTimeout = 2 * Second"
definition pollInterval :: duration where "pollInterval = Second"
definition maintenanceInterval :: duration where "maintenanceInterval = 30 * Second"

section \<open>Operations\<close>

definition worker_observe :: "'s Worker \<Rightarrow> string \<Rightarrow> string \<Rightarrow> outbox_event list \<Rightarrow> outbox_event list" where
  "worker_observe w operation result evs =
     (if w_Observer w \<noteq> NilObserver then evs @ [OutboxEvent operation result] else evs)"

function retry_loop :: "int \<Rightarrow> int \<Rightarrow> duration \<Rightarrow> duration" where
  "retry_loop n attempt delay =
     (if n < attempt \<and> delay < Minute then retry_loop (n + 1) attempt (delay * 2) else delay)"
  by auto
termination by (relation "measure (\<lambda>(n, attempt, _). nat (attempt - n))") auto

declare retry_loop.simps [simp del]

definition retryDelay :: "int \<Rightarrow> duration" where
  "retryDelay attempt = min (retry_loop 1 attempt Second) Minute"

definition Step ::
  "'s Worker \<Rightarrow> gocontext \<Rightarrow> (nat \<Rightarrow> gotime) \<Rightarrow> 's progress \<Rightarrow> (bool \<times> goerror option) \<times> 's progress" where
  "Step w ctx clk p =
     (case p of (n, s, evs) \<Rightarrow>
        (case q_Claim (w_Queue w) (WithTimeout ctx (clk n) storageTimeout) LeaseDuration s of
           ((event, found, err), s1) \<Rightarrow>
             if err \<noteq> None then ((False, err), (n + 1, s1, worker_observe w ''claim'' ''error'' evs))
             else if \<not> found then ((False, None), (n + 1, s1, evs))
             else
               (let evs1 = worker_observe w ''claim'' ''ok'' evs in
                case w_Send w (WithTimeout ctx (clk (n + 1)) deliveryTimeout) event s1 of
                  (sendErr, s2) \<Rightarrow>
                    (let result = (if sendErr \<noteq> None then ''retry'' else ''delivered'') in
                     case q_Finish (w_Queue w) (WithTimeout ctx (clk (n + 2)) storageTimeout) event
                            (sendErr = None) (retryDelay (ev_Attempt event)) s2 of
                       ((owned, err2), s3) \<Rightarrow>
                         if err2 \<noteq> None
                         then ((True, err2), (n + 3, s3, worker_observe w ''finish'' ''error'' evs1))
                         else if \<not> owned
                         then ((True, None), (n + 3, s3, worker_observe w ''finish'' ''lease_lost'' evs1))
                         else ((True, None), (n + 3, s3, worker_observe w ''finish'' result evs1))))))"

partial_function (option) purge_loop ::
  "'s Worker \<Rightarrow> gocontext \<Rightarrow> (nat \<Rightarrow> gotime) \<Rightarrow> 's progress \<Rightarrow> 's progress option" where
  "purge_loop w work clk p =
     (case p of (n, s, evs) \<Rightarrow>
        if ctx_Err work (clk n) \<noteq> None then Some (n + 1, s, evs)
        else case q_PurgeDelivered (w_Queue w) work Retention 1000 s of
          ((removed, err), s1) \<Rightarrow>
            if err \<noteq> None then Some (n + 1, s1, worker_observe w ''purge'' ''error'' evs)
            else if removed < 1000 then Some (n + 1, s1, worker_observe w ''purge'' ''ok'' evs)
            else purge_loop w work clk (n + 1, s1, worker_observe w ''purge'' ''ok'' evs))"

definition observe_stats :: "'s Worker \<Rightarrow> outboxStats \<Rightarrow> outbox_event list \<Rightarrow> outbox_event list" where
  "observe_stats w stats evs =
     (case w_Observer w of
        NilObserver \<Rightarrow> evs
      | PlainObserver \<Rightarrow> evs @ [OutboxBacklog (ob_Pending stats) (ob_OldestAge stats)]
      | StorageObserver \<Rightarrow>
          evs @ [OutboxBacklog (ob_Pending stats) (ob_OldestAge stats),
                 OutboxStorage (ob_PurgeEligible stats) (ob_TableBytes stats)])"

definition maintain :: "'s Worker \<Rightarrow> gocontext \<Rightarrow> (nat \<Rightarrow> gotime) \<Rightarrow> 's progress \<Rightarrow> 's progress option" where
  "maintain w ctx clk p =
     (case p of (n, s, evs) \<Rightarrow>
        (case q_Stats (w_Queue w) (WithTimeout ctx (clk n) storageTimeout) s of
           ((stats, err), s1) \<Rightarrow>
             (let evs1 = (if err \<noteq> None then worker_observe w ''stats'' ''error'' evs
                          else observe_stats w stats evs)
              in purge_loop w (WithTimeout ctx (clk (n + 1)) storageTimeout) clk (n + 2, s1, evs1))))"

text \<open>
  One turn of \<open>Run\<close>: \<open>Inl\<close> when it returns, \<open>Inr\<close> with the next maintenance time when it loops.
  The final \<open>select\<close> waits for the timer or the end of the context, whichever is first; at a tie
  the loop returns there or at its head, with the same effects.
\<close>

definition run_maintenance ::
  "'s Worker \<Rightarrow> gocontext \<Rightarrow> (nat \<Rightarrow> gotime) \<Rightarrow> gotime \<Rightarrow> 's progress \<Rightarrow> (gotime \<times> 's progress) option" where
  "run_maintenance w ctx clk next p =
     (if After (clk (fst p)) next
      then case maintain w ctx clk (fst p + 1, snd p) of
             None \<Rightarrow> None
           | Some (n, sv) \<Rightarrow> Some (clk n + maintenanceInterval, n + 1, sv)
      else Some (next, fst p + 1, snd p))"

definition run_turn ::
  "'s Worker \<Rightarrow> gocontext \<Rightarrow> (nat \<Rightarrow> gotime) \<Rightarrow> gotime \<Rightarrow> 's progress \<Rightarrow> ('s progress + gotime \<times> 's progress) option" where
  "run_turn w ctx clk next p =
     (if ctx_Err ctx (clk (fst p)) \<noteq> None then Some (Inl (fst p + 1, snd p))
      else case run_maintenance w ctx clk next (fst p + 1, snd p) of
        None \<Rightarrow> None
      | Some (next1, p1) \<Rightarrow>
          (case Step w ctx clk p1 of
             ((worked, err), n, sv) \<Rightarrow>
               if ctx_Err ctx (clk n) \<noteq> None then Some (Inl (n + 1, sv))
               else if worked \<and> err = None then Some (Inr (next1, n + 1, sv))
               else if ctx_Err ctx (clk n + pollInterval) \<noteq> None then Some (Inl (n + 1, sv))
               else Some (Inr (next1, n + 1, sv))))"

partial_function (option) Run_loop ::
  "'s Worker \<Rightarrow> gocontext \<Rightarrow> (nat \<Rightarrow> gotime) \<Rightarrow> gotime \<Rightarrow> 's progress \<Rightarrow> 's progress option" where
  "Run_loop w ctx clk next p =
     (case run_turn w ctx clk next p of
        None \<Rightarrow> None
      | Some (Inl q) \<Rightarrow> Some q
      | Some (Inr (next1, q)) \<Rightarrow> Run_loop w ctx clk next1 q)"

definition Run :: "'s Worker \<Rightarrow> gocontext \<Rightarrow> (nat \<Rightarrow> gotime) \<Rightarrow> 's \<Rightarrow> 's progress option" where
  "Run w ctx clk s = Run_loop w ctx clk 0 (0, s, [])"

section \<open>The back-off\<close>

lemma retry_loop_exact:
  "0 < d \<Longrightarrow> min (retry_loop n attempt d) Minute = min (d * 2 ^ nat (attempt - n)) Minute"
proof (induction n attempt d rule: retry_loop.induct)
  case (1 n attempt d)
  show ?case
  proof (cases "n < attempt \<and> d < Minute")
    case True
    then have e: "nat (attempt - n) = Suc (nat (attempt - (n + 1)))" by linarith
    from True have "min (retry_loop (n + 1) attempt (d * 2)) Minute = min (d * 2 * 2 ^ nat (attempt - (n + 1))) Minute"
      using 1 by simp
    moreover have "retry_loop n attempt d = retry_loop (n + 1) attempt (d * 2)"
      using True by (simp add: retry_loop.simps [of n])
    ultimately show ?thesis by (simp add: e)
  next
    case False
    have "d \<le> d * 2 ^ nat (attempt - n)" using 1(2) by simp
    with False have "n < attempt \<or> Minute \<le> d \<Longrightarrow> Minute \<le> d * 2 ^ nat (attempt - n)" by linarith
    with False show ?thesis by (auto simp: retry_loop.simps [of n])
  qed
qed

text \<open>
  C23: the retry delay of every attempt, of any size, is exactly one second doubled per earlier
  attempt and capped at a minute, so it lies between a second and a minute and never shrinks.
\<close>

theorem retryDelay_exact:
  "retryDelay attempt = min (Second * 2 ^ nat (attempt - 1)) Minute \<and>
   Second \<le> retryDelay attempt \<and> retryDelay attempt \<le> Minute \<and> retryDelay attempt \<le> retryDelay (attempt + 1)"
proof -
  have eq: "retryDelay a = min (Second * 2 ^ nat (a - 1)) Minute" for a
    unfolding retryDelay_def by (rule retry_loop_exact) (simp add: Second_def)
  have "(1::int) \<le> 2 ^ nat (attempt - 1)" "(2::int) ^ nat (attempt - 1) \<le> 2 ^ nat (attempt + 1 - 1)"
    by (simp, rule power_increasing) auto
  then have "Second \<le> Second * 2 ^ nat (attempt - 1)"
      "Second * 2 ^ nat (attempt - 1) \<le> Second * 2 ^ nat (attempt + 1 - 1)" "Second \<le> Minute"
    by (simp_all add: Second_def Minute_def)
  then show ?thesis unfolding eq by linarith
qed

lemma retryDelay_bounds: "0 \<le> retryDelay attempt" "retryDelay attempt \<le> Minute"
proof -
  have "retryDelay attempt = min (Second * 2 ^ nat (attempt - 1)) Minute"
    unfolding retryDelay_def by (rule retry_loop_exact) (simp add: Second_def)
  then show "0 \<le> retryDelay attempt" "retryDelay attempt \<le> Minute"
    by (auto simp: Second_def Minute_def)
qed

section \<open>The contract of the queue and the sender\<close>

text \<open>
  \<open>pending s i\<close> is the key and version of the undelivered notification with id \<open>i\<close>, \<open>sent s\<close>
  the notifications a receiver acknowledged, \<open>claimed s ev\<close> says that \<open>ev\<close> describes the
  notification with its id. Between two states every notification is accounted for: it is still
  pending, or a receiver has acknowledged it.
\<close>

definition accounted ::
  "('s \<Rightarrow> int \<rightharpoonup> string \<times> int) \<Rightarrow> ('s \<Rightarrow> Event list) \<Rightarrow> 's \<Rightarrow> 's \<Rightarrow> bool" where
  "accounted pending sent s s' \<longleftrightarrow> set (sent s) \<subseteq> set (sent s') \<and>
     (\<forall>i kv. pending s i = Some kv \<longrightarrow>
        pending s' i = Some kv \<or> (\<exists>e\<in>set (sent s'). ev_ID e = i \<and> (ev_Key e, ev_Version e) = kv))"

lemma accounted_refl [simp]: "accounted pending sent s s"
  by (auto simp: accounted_def)

lemma accounted_trans: "accounted p l s t \<Longrightarrow> accounted p l t u \<Longrightarrow> accounted p l s u"
  unfolding accounted_def by (meson subset_iff)

locale outbox_queue =
  fixes Q :: "'s queue" and ok :: "'s \<Rightarrow> bool" and pending :: "'s \<Rightarrow> int \<rightharpoonup> string \<times> int"
    and sent :: "'s \<Rightarrow> Event list" and claimed :: "'s \<Rightarrow> Event \<Rightarrow> bool"
  assumes claim_ok: "ok s \<Longrightarrow> ok (snd (q_Claim Q ctx lease s))"
    and claim_accounted: "ok s \<Longrightarrow> accounted pending sent s (snd (q_Claim Q ctx lease s))"
    and claim_event: "ok s \<Longrightarrow> q_Claim Q ctx lease s = ((ev, True, None), s') \<Longrightarrow> claimed s' ev"
    and finish_ok: "ok s \<Longrightarrow> ok (snd (q_Finish Q ctx ev delivered retry s))"
    and finish_accounted: "ok s \<Longrightarrow> claimed s ev \<Longrightarrow> delivered \<longrightarrow> ev \<in> set (sent s) \<Longrightarrow>
           accounted pending sent s (snd (q_Finish Q ctx ev delivered retry s))"
    and stats_ok: "ok s \<Longrightarrow> ok (snd (q_Stats Q ctx s))"
    and stats_accounted: "ok s \<Longrightarrow> accounted pending sent s (snd (q_Stats Q ctx s))"
    and purge_ok: "ok s \<Longrightarrow> ok (snd (q_PurgeDelivered Q ctx retention limit s))"
    and purge_accounted: "ok s \<Longrightarrow> accounted pending sent s (snd (q_PurgeDelivered Q ctx retention limit s))"
begin

definition good :: "'s \<Rightarrow> 's progress \<Rightarrow> bool" where
  "good s p \<longleftrightarrow> ok (fst (snd p)) \<and> accounted pending sent s (fst (snd p))"

lemma goodD: "good s (n, t, evs) \<Longrightarrow> ok t" "good s (n, t, evs) \<Longrightarrow> accounted pending sent s t"
  by (simp_all add: good_def)

lemma goodI: "accounted pending sent s t \<Longrightarrow> accounted pending sent t u \<Longrightarrow> ok u \<Longrightarrow> good s (n, u, evs)"
  by (simp add: good_def accounted_trans)

lemma purge_loop_good:
  "purge_loop w work clk p = Some q \<Longrightarrow> w_Queue w = Q \<Longrightarrow> good s p \<Longrightarrow> good s q"
proof (induction w work clk p q rule: purge_loop.raw_induct [rotated, consumes 1, case_names loop])
  case (loop f w work clk p q)
  obtain n t evs where pe: "p = (n, t, evs)" by (cases p)
  have t: "ok t" "accounted pending sent s t" using loop(4) goodD unfolding pe by blast+
  obtain m err t1 where c: "q_PurgeDelivered Q work Retention 1000 t = ((m, err), t1)"
    by (metis prod.exhaust)
  have g: "good s (n + 1, t1, e)" for e
    using purge_ok [OF t(1), of work Retention 1000] purge_accounted [OF t(1), of work Retention 1000] t(2) c
    by (auto intro: goodI)
  have "good s (n + 1, t, evs)" using t by (simp add: good_def)
  then show ?case
    using loop(1,2,3) g by (auto simp: pe c split: if_splits)
qed

lemma maintain_good:
  assumes "maintain w ctx clk p = Some q" "w_Queue w = Q" "good s p"
  shows "good s q"
proof -
  obtain n t evs where pe: "p = (n, t, evs)" by (cases p)
  have t: "ok t" "accounted pending sent s t" using assms(3) goodD unfolding pe by blast+
  let ?c = "WithTimeout ctx (clk n) storageTimeout"
  have "good s (n + 2, snd (q_Stats Q ?c t), e)" for e
    using stats_ok [OF t(1)] stats_accounted [OF t(1)] t(2) by (auto intro: goodI)
  then show ?thesis
    using purge_loop_good [OF _ assms(2)] assms(1) by (auto simp: maintain_def pe assms(2) Let_def split: prod.splits if_splits)
qed

end

locale outbox_worker = outbox_queue Q ok pending sent claimed
  for Q :: "'s queue" and ok and pending and sent and claimed +
  fixes send :: "gocontext \<Rightarrow> Event \<Rightarrow> 's \<Rightarrow> goerror option \<times> 's"
  assumes send_ok: "ok s \<Longrightarrow> ok (snd (send ctx ev s))"
    and send_accounted: "ok s \<Longrightarrow> accounted pending sent s (snd (send ctx ev s))"
    and send_acknowledged: "fst (send ctx ev s) = None \<Longrightarrow> ev \<in> set (sent (snd (send ctx ev s)))"
    and send_claimed: "ok s \<Longrightarrow> claimed s ev \<Longrightarrow> claimed (snd (send ctx ev s)) ev"
begin

lemma Step_good:
  assumes w: "w_Queue w = Q" "w_Send w = send" and p: "good s p"
  shows "good s (snd (Step w ctx clk p))"
proof -
  obtain n t evs where pe: "p = (n, t, evs)" by (cases p)
  have t: "ok t" "accounted pending sent s t" using p goodD unfolding pe by blast+
  obtain ev found err t1 where c: "q_Claim Q (WithTimeout ctx (clk n) storageTimeout) LeaseDuration t = ((ev, found, err), t1)"
    by (metis prod.exhaust)
  have t1: "ok t1" "accounted pending sent s t1"
    using claim_ok [OF t(1)] claim_accounted [OF t(1)] accounted_trans [OF t(2)] c by (metis snd_conv)+
  obtain serr t2 where sd: "send (WithTimeout ctx (clk (n + 1)) deliveryTimeout) ev t1 = (serr, t2)"
    by (metis prod.exhaust)
  obtain own ferr t3 where f: "q_Finish Q (WithTimeout ctx (clk (n + 2)) storageTimeout) ev (serr = None)
      (retryDelay (ev_Attempt ev)) t2 = ((own, ferr), t3)"
    by (metis prod.exhaust)
  have "ok t3 \<and> accounted pending sent s t3" if "found" "err = None"
  proof -
    have ev: "claimed t1 ev" using claim_event [OF t(1)] c that by simp
    have t2: "ok t2" "accounted pending sent s t2" "claimed t2 ev" "serr = None \<longrightarrow> ev \<in> set (sent t2)"
      using send_ok [OF t1(1)] send_accounted [OF t1(1)] send_claimed [OF t1(1) ev] accounted_trans [OF t1(2)]
        send_acknowledged sd by (metis fst_conv snd_conv)+
    show ?thesis
      using finish_ok [OF t2(1)] finish_accounted [OF t2(1,3,4)] accounted_trans [OF t2(2)] f by (metis snd_conv)
  qed
  then show ?thesis
    using t1 by (auto simp: Step_def pe w c sd [simplified] f [simplified] good_def Let_def)
qed

lemma good_index: "good s (n, sv) = good s (m, sv)"
  by (simp add: good_def)

lemma run_turn_good:
  assumes w: "w_Queue w = Q" "w_Send w = send" and g: "good s p"
  shows "run_turn w ctx clk nxt p = Some (Inl q) \<Longrightarrow> good s q"
    "run_turn w ctx clk nxt p = Some (Inr (nxt1, q)) \<Longrightarrow> good s q"
proof -
  have g1: "good s (n, snd p)" for n using g good_index [of s "fst p" "snd p" n] by simp
  have m: "good s p1" if "run_maintenance w ctx clk nxt (n, snd p) = Some (nxt1, p1)" for n nxt1 p1
    using that g1 good_index maintain_good [OF _ w(1) g1]
    by (auto simp: run_maintenance_def split: if_splits option.splits prod.splits) metis
  have st: "good s (k, sv)" if "run_maintenance w ctx clk nxt (n, snd p) = Some (nxt1, p1)"
      "Step w ctx clk p1 = (r, n1, sv)" for n nxt1 p1 r n1 sv k
    using Step_good [OF w m [OF that(1)], of ctx clk] that(2) good_index [of s n1 sv k] by simp
  show "run_turn w ctx clk nxt p = Some (Inl q) \<Longrightarrow> good s q"
    "run_turn w ctx clk nxt p = Some (Inr (nxt1, q)) \<Longrightarrow> good s q"
    using g1 st by (auto simp: run_turn_def split: if_splits option.splits prod.splits)
qed

lemma Run_loop_good:
  "Run_loop w ctx clk nxt p = Some q \<Longrightarrow> w_Queue w = Q \<Longrightarrow> w_Send w = send \<Longrightarrow> good s p \<Longrightarrow> good s q"
proof (induction w ctx clk nxt p q rule: Run_loop.raw_induct [rotated, consumes 1, case_names loop])
  case (loop f w ctx clk nxt p q)
  then show ?case
    using run_turn_good [OF loop(3,4,5), of ctx clk nxt] by (auto split: option.splits sum.splits prod.splits)
qed

lemma Run_accounted:
  assumes "Run \<lparr>w_Queue = Q, w_Send = send, w_Observer = obs\<rparr> ctx clk s = Some (n, s', evs)" "ok s"
  shows "accounted pending sent s s' \<and> ok s'"
  using Run_loop_good [OF assms(1) [unfolded Run_def], of s] assms(2) by (simp add: good_def)

end

section \<open>The PostgreSQL queue\<close>

text \<open>
  The world of a worker: the database, the number of calls made and the acknowledged
  notifications. The n-th call meets the n-th reading: what the other replicas and workers did
  before it, the driver's outcome and the clocks. The other workers are held to the same contract:
  what they complete as delivered a receiver has acknowledged.
\<close>

record pgWorld =
  pw_db :: database
  pw_calls :: nat
  pw_sent :: "Event list"

record pgReading =
  rd_others :: "store_op list"
  rd_out :: outcome
  rd_at :: "int \<Rightarrow> gotime"
  rd_setAt :: gotime
  rd_locked :: "int list"
  rd_bytes :: int

definition row_event :: "outbox_row \<Rightarrow> Event" where
  "row_event r = \<lparr>ev_ID = row_id r, ev_Key = row_key r, ev_Version = row_version r, ev_Attempt = row_attempts r\<rparr>"

fun completes :: "store_op \<Rightarrow> database \<Rightarrow> Event list" where
  "completes (DoFinish _ _ _ ev True _) db = (case row_at db (ev_ID ev) of None \<Rightarrow> [] | Some r \<Rightarrow> [row_event r])"
| "completes _ db = []"

definition others_step :: "store_op \<Rightarrow> pgWorld \<Rightarrow> pgWorld" where
  "others_step op w = w\<lparr>pw_db := store_step op (pw_db w), pw_sent := pw_sent w @ completes op (pw_db w)\<rparr>"

definition pg_call ::
  "(nat \<Rightarrow> pgReading) \<Rightarrow> (pgReading \<Rightarrow> database \<Rightarrow> 'r \<times> database) \<Rightarrow> pgWorld \<Rightarrow> 'r \<times> pgWorld" where
  "pg_call env stmt w =
     (let rd = env (pw_calls w); w1 = fold others_step (rd_others rd) w
      in case stmt rd (pw_db w1) of (r, db') \<Rightarrow> (r, w1\<lparr>pw_db := db', pw_calls := pw_calls w + 1\<rparr>))"

definition pgQueue :: "(nat \<Rightarrow> pgReading) \<Rightarrow> pgWorld queue" where
  "pgQueue env =
     \<lparr>q_Claim = (\<lambda>ctx lease. pg_call env
         (\<lambda>rd. Claim (rd_out rd) (rd_at rd) (rd_setAt rd) (rd_locked rd) lease)),
      q_Finish = (\<lambda>ctx ev delivered retry. pg_call env
         (\<lambda>rd. Finish (rd_out rd) (rd_at rd) (rd_setAt rd) ev delivered retry)),
      q_Stats = (\<lambda>ctx. pg_call env
         (\<lambda>rd db. (outbox_Stats (rd_out rd) (rd_setAt rd) db (rd_out rd) (rd_setAt rd) (rd_bytes rd) db, db))),
      q_PurgeDelivered = (\<lambda>ctx retention limit. pg_call env
         (\<lambda>rd. PurgeDelivered (rd_out rd) (rd_at rd) (rd_locked rd) retention limit))\<rparr>"

text \<open>Sending: the receiver's answer is an argument; an acknowledged event is logged.\<close>

definition pgSend ::
  "(nat \<Rightarrow> pgReading) \<Rightarrow> (nat \<Rightarrow> Event \<Rightarrow> goerror option) \<Rightarrow> gocontext \<Rightarrow> Event \<Rightarrow> pgWorld \<Rightarrow> goerror option \<times> pgWorld" where
  "pgSend env answer ctx ev w =
     (case answer (pw_calls w) ev of
        None \<Rightarrow> (None, snd (pg_call env (\<lambda>rd db. ((), db)) w)\<lparr>pw_sent := pw_sent (snd (pg_call env (\<lambda>rd db. ((), db)) w)) @ [ev]\<rparr>)
      | Some e \<Rightarrow> (Some e, snd (pg_call env (\<lambda>rd db. ((), db)) w)))"

definition pg_pending :: "pgWorld \<Rightarrow> int \<rightharpoonup> string \<times> int" where
  "pg_pending w i =
     (case row_at (pw_db w) i of
        None \<Rightarrow> None
      | Some r \<Rightarrow> if row_delivered r = None then Some (row_key r, row_version r) else None)"

definition pg_ok :: "pgWorld \<Rightarrow> bool" where
  "pg_ok w \<longleftrightarrow> db_inv (pw_db w)"

definition pg_claimed :: "pgWorld \<Rightarrow> Event \<Rightarrow> bool" where
  "pg_claimed w ev \<longleftrightarrow>
     ev_ID ev < db_nextId (pw_db w) \<and>
     (\<forall>r. row_at (pw_db w) (ev_ID ev) = Some r \<longrightarrow> row_key r = ev_Key ev \<and> row_version r = ev_Version ev)"

abbreviation pg_accounted :: "pgWorld \<Rightarrow> pgWorld \<Rightarrow> bool" where
  "pg_accounted \<equiv> accounted pg_pending pw_sent"

text \<open>One operation on the database, by whomever.\<close>

lemma op_accounted:
  assumes "db_inv db" and w: "pw_db w = db" "pw_db w' = store_step op db" "set (pw_sent w) \<subseteq> set (pw_sent w')"
    and d: "\<And>i r. delivers i op \<Longrightarrow> row_at db i = Some r \<Longrightarrow>
              \<exists>e\<in>set (pw_sent w'). ev_ID e = i \<and> ev_Key e = row_key r \<and> ev_Version e = row_version r"
  shows "pg_accounted w w'"
proof -
  have "pg_pending w' i = Some kv \<or> (\<exists>e\<in>set (pw_sent w'). ev_ID e = i \<and> (ev_Key e, ev_Version e) = kv)"
    if p: "pg_pending w i = Some kv" for i kv
  proof -
    obtain r where r: "row_at db i = Some r" "row_delivered r = None" "kv = (row_key r, row_version r)"
      using p w(1) by (auto simp: pg_pending_def split: option.splits if_splits)
    show ?thesis
    proof (cases "delivers i op")
      case True
      then show ?thesis using d [OF True r(1)] r(3) by auto
    next
      case False
      then show ?thesis
        using step_row_kept [OF assms(1), of i op] r w(2)
        by (auto simp: row_kept_def pg_pending_def same_event_def split: option.splits)
    qed
  qed
  then show ?thesis using w(3) by (auto simp: accounted_def)
qed

lemma op_claimed:
  assumes "pg_claimed w ev" "db_inv (pw_db w)" "pw_db w' = store_step op (pw_db w)"
  shows "pg_claimed w' ev"
proof (cases "row_at (pw_db w) (ev_ID ev)")
  case None
  then show ?thesis
    using assms step_new(1) [of "pw_db w" op] step_new(2) [of "pw_db w" "ev_ID ev" op] by (auto simp: pg_claimed_def)
next
  case (Some r)
  then show ?thesis
    using assms step_new(1) [of "pw_db w" op] step_row_kept [of "pw_db w" "ev_ID ev" op]
    by (auto simp: pg_claimed_def row_kept_def same_event_def)
qed

lemma others_step_keeps:
  assumes "pg_ok w"
  shows "pg_ok (others_step op w)" "pg_accounted w (others_step op w)"
    "pg_claimed w ev \<Longrightarrow> pg_claimed (others_step op w) ev"
proof -
  show "pg_ok (others_step op w)" using assms by (auto simp: pg_ok_def others_step_def)
  show "pg_accounted w (others_step op w)"
  proof (rule op_accounted)
    fix i r assume "delivers i op" "row_at (pw_db w) i = Some r"
    then show "\<exists>e\<in>set (pw_sent (others_step op w)). ev_ID e = i \<and> ev_Key e = row_key r \<and> ev_Version e = row_version r"
      using row_at_mem [of "pw_db w" i r] by (cases op) (auto simp: others_step_def row_event_def)
  qed (use assms in \<open>auto simp: others_step_def pg_ok_def\<close>)
  show "pg_claimed (others_step op w) ev" if "pg_claimed w ev"
    using op_claimed [OF that, of _ op] assms by (simp add: others_step_def pg_ok_def)
qed

lemma others_keep:
  assumes "pg_ok w"
  shows "pg_ok (fold others_step ops w) \<and> pg_accounted w (fold others_step ops w) \<and>
         (pg_claimed w ev \<longrightarrow> pg_claimed (fold others_step ops w) ev)"
  using assms
proof (induction ops arbitrary: w)
  case (Cons op ops)
  then show ?case
    using others_step_keeps(1,2) [OF Cons.prems, of op] others_step_keeps(3) [OF Cons.prems, of ev op]
      accounted_trans [of _ _ w "others_step op w"] by simp
qed simp

lemma pg_call_ok:
  assumes "pg_ok w" and stmt: "\<And>rd db. snd (stmt rd db) = (case f rd of None \<Rightarrow> db | Some op \<Rightarrow> store_step op db)"
  shows "pg_ok (snd (pg_call env stmt w))"
  using others_keep [OF assms(1)] stmt
  by (auto simp: pg_call_def Let_def case_prod_beta pg_ok_def split: option.split)

lemma pg_call_keeps:
  assumes "pg_ok w" and stmt: "\<And>rd db. snd (stmt rd db) = (case f rd of None \<Rightarrow> db | Some op \<Rightarrow> store_step op db)"
    and d: "\<And>rd op i. f rd = Some op \<Longrightarrow> delivers i op \<Longrightarrow>
              (\<exists>ev\<in>set (pw_sent w). ev_ID ev = i \<and> pg_claimed w ev)"
  shows "pg_accounted w (snd (pg_call env stmt w))"
    "pg_claimed w ev \<Longrightarrow> pg_claimed (snd (pg_call env stmt w)) ev"
proof -
  let ?rd = "env (pw_calls w)"
  let ?w1 = "fold others_step (rd_others ?rd) w" and ?w2 = "snd (pg_call env stmt w)"
  have w1: "pg_ok ?w1" "pg_accounted w ?w1" "pg_claimed w e \<Longrightarrow> pg_claimed ?w1 e" for e
    using others_keep [OF assms(1)] by blast+
  have w2: "pw_db ?w2 = (case f ?rd of None \<Rightarrow> pw_db ?w1 | Some op \<Rightarrow> store_step op (pw_db ?w1))" "pw_sent ?w2 = pw_sent ?w1"
    using stmt [of ?rd "pw_db ?w1"] by (simp_all add: pg_call_def Let_def case_prod_beta)
  have mono: "set (pw_sent w) \<subseteq> set (pw_sent ?w1)" using w1(2) by (simp add: accounted_def)
  show "pg_accounted w ?w2"
  proof (cases "f ?rd")
    case None
    then have "pg_accounted ?w1 ?w2" using w2 by (simp add: accounted_def pg_pending_def)
    then show ?thesis using accounted_trans [OF w1(2)] by blast
  next
    case (Some op)
    have "pg_accounted ?w1 ?w2"
    proof (rule op_accounted)
      fix i r assume i: "delivers i op" "row_at (pw_db ?w1) i = Some r"
      then obtain e where "e \<in> set (pw_sent w)" "ev_ID e = i" "pg_claimed ?w1 e" using d [OF Some i(1)] w1(3) by blast
      then show "\<exists>e\<in>set (pw_sent ?w2). ev_ID e = i \<and> ev_Key e = row_key r \<and> ev_Version e = row_version r"
        using mono w2(2) i(2) by (auto simp: pg_claimed_def intro!: bexI [of _ e])
    qed (use w1(1) w2 Some in \<open>auto simp: pg_ok_def\<close>)
    then show ?thesis using accounted_trans [OF w1(2)] by blast
  qed
  show "pg_claimed ?w2 ev" if "pg_claimed w ev"
    using w1(3) [OF that] op_claimed [of ?w1 ev ?w2] w1(1) w2(1) by (cases "f ?rd") (auto simp: pg_ok_def pg_claimed_def)
qed

lemma Claim_step: "snd (Claim (rd_out rd) (rd_at rd) (rd_setAt rd) (rd_locked rd) lease db) =
    (case Some (DoClaim (rd_out rd) (rd_at rd) (rd_setAt rd) (rd_locked rd) lease) of None \<Rightarrow> db | Some op \<Rightarrow> store_step op db)"
  by simp

lemma Finish_step: "snd (Finish (rd_out rd) (rd_at rd) (rd_setAt rd) ev delivered retry db) =
    (case Some (DoFinish (rd_out rd) (rd_at rd) (rd_setAt rd) ev delivered retry) of None \<Rightarrow> db | Some op \<Rightarrow> store_step op db)"
  by simp

lemma Purge_step: "snd (PurgeDelivered (rd_out rd) (rd_at rd) (rd_locked rd) retention limit db) =
    (case Some (DoPurge (rd_out rd) (rd_at rd) (rd_locked rd) retention limit) of None \<Rightarrow> db | Some op \<Rightarrow> store_step op db)"
  by simp

lemma no_step: "snd (x, db) = (case None of None \<Rightarrow> db | Some op \<Rightarrow> store_step op db)"
  by simp

lemma pg_claim_event:
  assumes "pg_ok w" "q_Claim (pgQueue env) ctx lease w = ((ev, True, None), w')"
  shows "pg_claimed w' ev"
proof -
  let ?rd = "env (pw_calls w)"
  let ?w1 = "fold others_step (rd_others ?rd) w"
  have ok: "db_inv (pw_db ?w1)" using others_keep [OF assms(1)] by (simp add: pg_ok_def)
  have c: "Claim (rd_out ?rd) (rd_at ?rd) (rd_setAt ?rd) (rd_locked ?rd) lease (pw_db ?w1) = ((ev, True, None), pw_db w')"
    using assms(2) by (auto simp: pgQueue_def pg_call_def Let_def split: prod.splits)
  obtain r where "row_at (pw_db w') (ev_ID ev) = Some r" "ev_Key ev = row_key r" "ev_Version ev = row_version r"
    using Claim_found [OF c ok] by auto
  moreover have "ev_ID ev < db_nextId (pw_db w')"
    using Claim_fences [OF c ok] by (simp add: fenced_def)
  ultimately show ?thesis by (simp add: pg_claimed_def)
qed

lemma pgSend_world:
  assumes "pgSend env answer ctx ev w = (err, w')"
  shows "\<exists>w1. w1 = snd (pg_call env (\<lambda>rd db. ((), db)) w) \<and>
              pw_db w' = pw_db w1 \<and> pw_sent w' = pw_sent w1 @ (if err = None then [ev] else [])"
  proof (cases "answer (pw_calls w) ev")
  case (Some e)
  have "err = Some e" "w' = snd (pg_call env (\<lambda>rd db. ((), db)) w)" using assms by (simp_all add: pgSend_def Some)
  then show ?thesis by simp
qed (use assms in \<open>auto simp: pgSend_def\<close>)

lemma pg_finish_accounted:
  assumes "pg_ok s" "pg_claimed s ev" "delivered \<longrightarrow> ev \<in> set (pw_sent s)"
  shows "pg_accounted s (snd (q_Finish (pgQueue env) ctx ev delivered retry s))"
proof -
  have "pg_accounted s (snd (pg_call env (\<lambda>rd. Finish (rd_out rd) (rd_at rd) (rd_setAt rd) ev delivered retry) s))"
    by (rule pg_call_keeps(1) [OF assms(1) Finish_step]) (use assms(2,3) in auto)
  then show ?thesis by (simp add: pgQueue_def)
qed

interpretation pg: outbox_worker "pgQueue env" pg_ok pg_pending pw_sent pg_claimed "pgSend env answer"
  for env answer
proof
  fix s :: pgWorld and ctx ev
  obtain err w' where r: "pgSend env answer ctx ev s = (err, w')" by (cases "pgSend env answer ctx ev s")
  obtain w1 where w1: "w1 = snd (pg_call env (\<lambda>rd db. ((), db)) s)"
      "pw_db w' = pw_db w1" "pw_sent w' = pw_sent w1 @ (if err = None then [ev] else [])"
    using pgSend_world [OF r] by blast
  show "fst (pgSend env answer ctx ev s) = None \<Longrightarrow> ev \<in> set (pw_sent (snd (pgSend env answer ctx ev s)))"
    using w1(3) by (auto simp: r)
  assume ok: "pg_ok s"
  have "pg_ok w1" "pg_accounted s w1" "pg_claimed s ev \<Longrightarrow> pg_claimed w1 ev"
    unfolding w1(1)
    by (rule pg_call_ok [OF ok no_step] pg_call_keeps [OF ok no_step]; simp)+
  moreover have "pg_accounted w1 w'" using w1 by (auto simp: accounted_def pg_pending_def)
  ultimately show "pg_ok (snd (pgSend env answer ctx ev s))" "pg_accounted s (snd (pgSend env answer ctx ev s))"
    "pg_claimed s ev \<Longrightarrow> pg_claimed (snd (pgSend env answer ctx ev s)) ev"
    using accounted_trans [of _ _ s w1 w'] w1(2) unfolding r by (auto simp: pg_ok_def pg_claimed_def)
qed (use pg_claim_event pg_finish_accounted in \<open>auto simp: pgQueue_def intro: pg_call_ok [OF _ Claim_step]
       pg_call_ok [OF _ Finish_step] pg_call_ok [OF _ Purge_step] pg_call_ok [OF _ no_step]
       pg_call_keeps(1) [OF _ Claim_step] pg_call_keeps(1) [OF _ Purge_step] pg_call_keeps(1) [OF _ no_step]\<close>)

section \<open>Termination\<close>

text \<open>The clock does not stand still: every instant is eventually passed for good.\<close>

definition clock_advances :: "(nat \<Rightarrow> gotime) \<Rightarrow> bool" where
  "clock_advances clk \<longleftrightarrow> (\<forall>t. \<exists>N. \<forall>m\<ge>N. t \<le> clk m)"

lemma purge_loop_returns:
  assumes "\<forall>m\<ge>N. d \<le> clk m"
  shows "\<exists>q. purge_loop w (Some (d, e)) clk (n, s, evs) = Some q \<and> n < fst q"
proof (induction "N - n" arbitrary: n s evs rule: less_induct)
  case less
  show ?case
  proof (cases "ctx_Err (Some (d, e)) (clk n) = None")
    case True
    then have "n < N" using assms by (auto simp: ctx_Err_def not_le [symmetric] split: if_splits)
    then have "\<exists>q. purge_loop w (Some (d, e)) clk (n + 1, t, evs') = Some q \<and> n + 1 < fst q" for t evs'
      by (intro less) simp
    then have "\<exists>q. purge_loop w (Some (d, e)) clk (n + 1, t, evs') = Some q \<and> n < fst q" for t evs'
      by (meson add_lessD1)
    with True show ?thesis
      by (subst purge_loop.simps) (simp split: prod.split if_splits)
  next
    case False
    then show ?thesis by (subst purge_loop.simps) simp
  qed
qed

lemma WithTimeout_Some: "\<exists>d e. WithTimeout ctx now dur = Some (d, e)"
  by (simp add: WithTimeout_def split: option.split prod.split)

lemma maintain_returns:
  assumes "clock_advances clk"
  shows "\<exists>q. maintain w ctx clk p = Some q \<and> fst p < fst q"
proof -
  obtain n s evs where p: "p = (n, s, evs)" by (cases p)
  obtain d e where de: "WithTimeout ctx (clk (n + 1)) storageTimeout = Some (d, e)"
    using WithTimeout_Some by blast
  obtain N where "\<forall>m\<ge>N. d \<le> clk m" using assms unfolding clock_advances_def by blast
  then have "\<exists>q. purge_loop w (Some (d, e)) clk (n + 2, t, evs') = Some q \<and> n < fst q" for t evs'
    using purge_loop_returns [of N d clk w e "n + 2" t evs'] by (meson add_lessD1)
  then show ?thesis
    by (simp add: maintain_def p de [simplified] Let_def split: prod.split)
qed

lemma Step_index: "Step w ctx clk p = (r, q) \<Longrightarrow> fst p < fst q"
  by (auto simp: Step_def Let_def split: prod.splits if_splits)

lemma run_maintenance_returns:
  assumes "clock_advances clk"
  shows "\<exists>nxt1 q. run_maintenance w ctx clk nxt p = Some (nxt1, q) \<and> fst p < fst q"
  using maintain_returns [OF assms, of w ctx "(fst p + 1, snd p)"]
  by (fastforce simp: run_maintenance_def)

lemma run_turn_returns:
  assumes "clock_advances clk"
  shows "(\<exists>q. run_turn w ctx clk nxt p = Some (Inl q)) \<or>
         (\<exists>nxt1 q. run_turn w ctx clk nxt p = Some (Inr (nxt1, q)) \<and> fst p < fst q \<and> ctx_Err ctx (clk (fst p)) = None)"
proof -
  obtain nxt1 p1 where p1: "run_maintenance w ctx clk nxt (fst p + 1, snd p) = Some (nxt1, p1)" "fst p + 1 < fst p1"
    using run_maintenance_returns [OF assms, of w ctx nxt "(fst p + 1, snd p)"] by auto
  obtain worked err n sv where st: "Step w ctx clk p1 = ((worked, err), n, sv)"
    by (metis prod.exhaust)
  have "fst p1 < n" using Step_index [OF st] by simp
  then show ?thesis
    using p1(2) by (auto simp: run_turn_def p1(1) [simplified] st)
qed

lemma Run_loop_returns:
  assumes "clock_advances clk"
  shows "\<exists>q. Run_loop w (Some (d, e)) clk nxt p = Some q"
proof -
  obtain N where N: "\<forall>m\<ge>N. d \<le> clk m" using assms unfolding clock_advances_def by blast
  show ?thesis
  proof (induction "N - fst p" arbitrary: nxt p rule: less_induct)
    case less
    show ?case
    proof (cases "\<exists>q. run_turn w (Some (d, e)) clk nxt p = Some (Inl q)")
      case True
      then show ?thesis by (subst Run_loop.simps) auto
    next
      case False
      then obtain nxt1 q where q: "run_turn w (Some (d, e)) clk nxt p = Some (Inr (nxt1, q))" "fst p < fst q"
          "ctx_Err (Some (d, e)) (clk (fst p)) = None"
        using run_turn_returns [OF assms, of w "Some (d, e)" nxt p] by blast
      have "fst p < N" using q(3) N by (auto simp: ctx_Err_def not_le [symmetric] split: if_splits)
      then have "\<exists>q'. Run_loop w (Some (d, e)) clk nxt1 q = Some q'" using q(2) by (intro less) simp
      then show ?thesis by (subst Run_loop.simps) (simp add: q(1))
    qed
  qed
qed

text \<open>
  C21: the relay stops. Once its context has an end and the clock keeps advancing, \<open>Run\<close> returns,
  whatever the queue and the sender answer.
\<close>

theorem Run_returns:
  assumes "clock_advances clk"
  shows "\<exists>q. Run w (Some (d, e)) clk s = Some q"
  using Run_loop_returns [OF assms] by (simp add: Run_def)

lemma clock_advances_int: "clock_advances int"
  unfolding clock_advances_def by (meson nat_le_iff)

definition sampleWorker :: "pgWorld Worker" where
  "sampleWorker =
     (let env = (\<lambda>_. \<lparr>rd_others = [], rd_out = Replied, rd_at = (\<lambda>_. 1), rd_setAt = 1, rd_locked = [], rd_bytes = 0\<rparr>)
      in \<lparr>w_Queue = pgQueue env, w_Send = pgSend env (\<lambda>_ _. None), w_Observer = PlainObserver\<rparr>)"

definition sampleWorld :: pgWorld where
  "sampleWorld = \<lparr>pw_db = sampleDb, pw_calls = 0, pw_sent = []\<rparr>"

theorem Run_returns_witness:
  "clock_advances int \<and> (\<exists>q. Run sampleWorker (Some (100, Canceled)) int sampleWorld = Some q)"
  by (rule conjI [OF clock_advances_int Run_returns [OF clock_advances_int]])

section \<open>Delivery\<close>

text \<open>
  C19: the relay loses nothing. Whatever the driver, the receivers and the other replicas and
  workers do, when \<open>Run\<close> returns every notification that was pending when it started is still
  pending, or a receiver has acknowledged exactly its key and version.
\<close>

theorem Run_loses_nothing:
  assumes "db_inv (pw_db s)"
    and "Run \<lparr>w_Queue = pgQueue env, w_Send = pgSend env answer, w_Observer = obs\<rparr> ctx clk s = Some (n, s', evs)"
    and "row_at (pw_db s) i = Some r" "row_delivered r = None"
  shows "(\<exists>r'. row_at (pw_db s') i = Some r' \<and> row_key r' = row_key r \<and> row_version r' = row_version r \<and> row_delivered r' = None) \<or>
         (\<exists>ev\<in>set (pw_sent s'). ev_ID ev = i \<and> ev_Key ev = row_key r \<and> ev_Version ev = row_version r)"
proof -
  have "pg_accounted s s'"
    using pg.Run_accounted [OF assms(2)] assms(1) by (simp add: pg_ok_def)
  moreover have "pg_pending s i = Some (row_key r, row_version r)"
    using assms(3,4) by (simp add: pg_pending_def)
  ultimately have "pg_pending s' i = Some (row_key r, row_version r) \<or>
      (\<exists>ev\<in>set (pw_sent s'). ev_ID ev = i \<and> (ev_Key ev, ev_Version ev) = (row_key r, row_version r))"
    unfolding accounted_def by blast
  then show ?thesis
    by (auto simp: pg_pending_def split: option.splits if_splits)
qed

theorem Run_loses_nothing_witness:
  "\<exists>n s' evs. Run sampleWorker (Some (100, Canceled)) int sampleWorld = Some (n, s', evs) \<and>
     (pg_pending s' 1 = Some (''a'', 1) \<or> (\<exists>ev\<in>set (pw_sent s'). ev_ID ev = 1 \<and> ev_Key ev = ''a'' \<and> ev_Version ev = 1))"
proof -
  obtain n s' evs where run: "Run sampleWorker (Some (100, Canceled)) int sampleWorld = Some (n, s', evs)"
    unfolding Run_def using Run_loop_returns [OF clock_advances_int] by (metis prod.exhaust)
  have inv: "db_inv (pw_db sampleWorld)" by (simp add: sampleWorld_def sampleDb_inv)
  have row: "row_at (pw_db sampleWorld) 1 = Some \<lparr>row_id = 1, row_key = ''a'', row_version = 1, row_created = 0,
      row_available = 0, row_leased = None, row_attempts = 0, row_delivered = None\<rparr>"
    by (simp add: sampleWorld_def sampleDb_eq row_at_def)
  show ?thesis
    using Run_loses_nothing [OF inv run [unfolded sampleWorker_def Let_def] row] run
    by (auto simp: pg_pending_def)
qed

lemma Claim_replied:
  assumes "db_inv db" "candidate at locked db = Some r" "row_attempts r < maxBigint" "0 < lease" "lease \<le> Minute"
  shows "\<exists>db'. Claim Replied at setAt locked lease db =
            ((\<lparr>ev_ID = row_id r, ev_Key = row_key r, ev_Version = row_version r, ev_Attempt = row_attempts r + 1\<rparr>, True, None), db') \<and>
          row_at db' (row_id r) = Some (r\<lparr>row_attempts := row_attempts r + 1, row_leased := Some (setAt + lease)\<rparr>) \<and> db_inv db'"
proof -
  let ?ev = "\<lparr>ev_ID = row_id r, ev_Key = row_key r, ev_Version = row_version r, ev_Attempt = row_attempts r + 1\<rparr>"
  let ?db' = "snd (Claim Replied at setAt locked lease db)"
  have c: "Claim Replied at setAt locked lease db = ((?ev, True, None), ?db')"
    using assms by (simp add: Claim_def sql_claim_def round_trip_def scan_row_def)
  obtain r' where r': "row_at db (row_id r) = Some r'"
      "row_at ?db' (row_id r) = Some (r'\<lparr>row_attempts := row_attempts r' + 1, row_leased := Some (setAt + lease)\<rparr>)"
    using Claim_found [OF c assms(1)] by auto
  have "row_at db (row_id r) = Some r"
    using row_at_unique candidate_spec [OF assms(2)] assms(1) by (auto simp: db_inv_def)
  then show ?thesis
    using c r' store_step_inv [OF assms(1), of "DoClaim Replied at setAt locked lease"] by auto
qed

lemma finishable_one:
  assumes "db_inv db" "row_at db i = Some r" "finishable at ev r" "ev_ID ev = i"
  shows "length (filter (finishable at ev) (db_outbox db)) = 1"
proof -
  have "distinct (map row_id (filter (finishable at ev) (db_outbox db)))"
    using assms(1) by (auto simp: db_inv_def distinct_map intro: inj_on_subset)
  moreover have "set (map row_id (filter (finishable at ev) (db_outbox db))) = {i}"
    using assms row_at_mem [OF assms(2)] by (auto simp: finishable_def)
  ultimately have "card {i} = length (map row_id (filter (finishable at ev) (db_outbox db)))"
    by (metis distinct_card)
  then show ?thesis by simp
qed

lemma Finish_replied:
  assumes "db_inv db" "row_at db (ev_ID ev) = Some r" "finishable at ev r" "0 < ev_Attempt ev" "0 \<le> retry" "retry \<le> Minute"
  shows "\<exists>db'. Finish Replied at setAt ev True retry db = ((True, None), db') \<and>
               row_at db' (ev_ID ev) = Some (r\<lparr>row_delivered := Some setAt, row_leased := None\<rparr>)"
proof -
  have "0 < ev_ID ev" using row_at_mem [OF assms(2)] assms(1) by (auto simp: db_inv_def list_all_iff row_ok_def)
  then show ?thesis
    using assms finishable_one [OF assms(1-3)]
    by (simp add: Finish_def sql_finish_def round_trip_def row_at_update)
qed

definition quiet :: "(nat \<Rightarrow> pgReading) \<Rightarrow> nat \<Rightarrow> bool" where
  "quiet env n \<longleftrightarrow> rd_others (env n) = [] \<and> rd_out (env n) = Replied"

text \<open>
  C20: a step delivers. If the three calls reach the database undisturbed, the receiver acknowledges
  and the completion falls within the lease, \<open>Step\<close> takes the due notification that became
  available first, sends its key and version, marks it delivered and reports the claim and the
  delivery.
\<close>

theorem Step_delivers:
  assumes "db_inv (pw_db s)" "quiet env (pw_calls s)" "quiet env (pw_calls s + 1)" "quiet env (pw_calls s + 2)"
    and "candidate (rd_at (env (pw_calls s))) (rd_locked (env (pw_calls s))) (pw_db s) = Some r"
    and "row_attempts r < maxBigint" and "\<And>ev. answer (pw_calls s + 1) ev = None"
    and "rd_at (env (pw_calls s + 2)) (row_id r) < rd_setAt (env (pw_calls s)) + LeaseDuration"
  shows "\<exists>s' r' ev.
     Step \<lparr>w_Queue = pgQueue env, w_Send = pgSend env answer, w_Observer = PlainObserver\<rparr> ctx clk (n, s, evs) =
       ((True, None), n + 3, s', evs @ [OutboxEvent ''claim'' ''ok'', OutboxEvent ''finish'' ''delivered'']) \<and>
     row_at (pw_db s') (row_id r) = Some r' \<and> row_delivered r' = Some (rd_setAt (env (pw_calls s + 2))) \<and>
     pw_sent s' = pw_sent s @ [ev] \<and> ev_ID ev = row_id r \<and> ev_Key ev = row_key r \<and> ev_Version ev = row_version r"
proof -
  let ?k = "pw_calls s"
  let ?rd = "env ?k" and ?rd2 = "env (?k + 2)"
  define ev where "ev = \<lparr>ev_ID = row_id r, ev_Key = row_key r, ev_Version = row_version r, ev_Attempt = row_attempts r + 1\<rparr>"
  have lease: "0 < LeaseDuration" "LeaseDuration \<le> Minute" by (simp_all add: LeaseDuration_def duration_defs)
  obtain db1 where db1: "Claim Replied (rd_at ?rd) (rd_setAt ?rd) (rd_locked ?rd) LeaseDuration (pw_db s) = ((ev, True, None), db1)"
      "row_at db1 (ev_ID ev) = Some (r\<lparr>row_attempts := row_attempts r + 1, row_leased := Some (rd_setAt ?rd + LeaseDuration)\<rparr>)" "db_inv db1"
    using Claim_replied [OF assms(1,5,6) lease] unfolding ev_def by auto
  let ?s1 = "s\<lparr>pw_db := db1, pw_calls := ?k + 1\<rparr>"
  have claim: "q_Claim (pgQueue env) c LeaseDuration s = ((ev, True, None), ?s1)" for c
    using assms(2) db1(1) by (simp add: pgQueue_def quiet_def pg_call_def)
  let ?s2 = "?s1\<lparr>pw_calls := ?k + 2, pw_sent := pw_sent s @ [ev]\<rparr>"
  have send: "pgSend env answer c ev ?s1 = (None, ?s2)" for c
    using assms(3) by (simp add: pgSend_def assms(7) [simplified] pg_call_def quiet_def)
  have row: "r \<in> set (db_outbox (pw_db s))" "row_delivered r = None"
    using candidate_spec [OF assms(5)] by (auto simp: claimable_def)
  then have "0 \<le> row_attempts r" using assms(1) by (auto simp: db_inv_def list_all_iff row_ok_def)
  then obtain db2 where db2: "Finish Replied (rd_at ?rd2) (rd_setAt ?rd2) ev True (retryDelay (ev_Attempt ev)) db1 = ((True, None), db2)"
      "row_at db2 (ev_ID ev) = Some (r\<lparr>row_attempts := row_attempts r + 1, row_leased := None, row_delivered := Some (rd_setAt ?rd2)\<rparr>)"
    using Finish_replied [OF db1(3,2), of "rd_at ?rd2" "retryDelay (ev_Attempt ev)" "rd_setAt ?rd2"]
      assms(8) row(2) retryDelay_bounds [of "ev_Attempt ev"]
    by (auto simp: finishable_def ev_def)
  have fin: "q_Finish (pgQueue env) c ev True (retryDelay (ev_Attempt ev)) ?s2 = ((True, None), ?s2\<lparr>pw_db := db2, pw_calls := ?k + 3\<rparr>)" for c
    using assms(4) db2(1) by (simp add: pgQueue_def quiet_def pg_call_def)
  show ?thesis
    using db2(2) by (simp add: Step_def claim [simplified] send [simplified] fin [simplified] worker_observe_def Let_def) (simp add: ev_def)
qed

theorem Step_delivers_witness:
  "\<exists>s' r'. snd (Step sampleWorker None int (0, sampleWorld, [])) =
       (3, s', [OutboxEvent ''claim'' ''ok'', OutboxEvent ''finish'' ''delivered'']) \<and>
     row_at (pw_db s') 1 = Some r' \<and> row_delivered r' = Some 1"
proof -
  let ?env = "\<lambda>_::nat. \<lparr>rd_others = [], rd_out = Replied, rd_at = (\<lambda>_. 1), rd_setAt = 1, rd_locked = [], rd_bytes = 0\<rparr>"
  let ?r = "\<lparr>row_id = 1, row_key = ''a'', row_version = 1, row_created = 0,
      row_available = 0, row_leased = None, row_attempts = 0, row_delivered = None\<rparr>"
  have inv: "db_inv (pw_db sampleWorld)" by (simp add: sampleWorld_def sampleDb_inv)
  have c: "candidate (\<lambda>_. 1) [] (pw_db sampleWorld) = Some ?r"
    by (simp add: sampleWorld_def sampleDb_eq candidate_def claimable_def)
  show ?thesis
    using Step_delivers [OF inv, of ?env ?r "\<lambda>_ _. None" None int 0 "[]"] c
    by (auto simp: quiet_def maxBigint_def LeaseDuration_def Second_def sampleWorker_def Let_def)
qed

end
