(* ===== verification/App_Bootstrap.thy ===== *)
theory App_Bootstrap
  imports App_Config Discovery Demo Outbox_Worker
begin

text \<open>
  \<open>internal/app/bootstrap.go\<close>: construction of a node from its configuration, the listeners, the
  serving life cycle and the sender of the outbox relay. A Go panic is a value of its own. The
  operating system's answers (\<open>net.Listen\<close>, \<open>Serve\<close>, \<open>Shutdown\<close>) and the in-cluster Kubernetes client
  are arguments; profiling rates and the start-up log line have no effect on the modelled state.
\<close>

section \<open>Construction\<close>

definition invalidationRequestTimeout :: duration where "invalidationRequestTimeout = Second"
definition sourceStartupTimeout :: duration where "sourceStartupTimeout = 5 * Second"
definition readHeaderTimeout :: duration where "readHeaderTimeout = 3 * Second"
definition requestReadTimeout :: duration where "requestReadTimeout = 5 * Second"
definition connectionIdleTimeout :: duration where "connectionIdleTimeout = 30 * Second"
definition shutdownGracePeriod :: duration where "shutdownGracePeriod = 5 * Second"
definition responseWriteTimeout :: duration where "responseWriteTimeout = 10 * Second"

text \<open>The interfaces a source implements besides \<open>Getter\<close>.\<close>

record SourceInfo =
  si_mutable :: bool
  si_Keys :: "string list option"
  si_queue :: bool

record HTTPServer =
  srv_Addr :: string
  srv_ReadHeader :: duration
  srv_Read :: duration
  srv_Write :: duration
  srv_Idle :: duration

record Runtime =
  rt_router :: Directory
  rt_group :: Group
  rt_handler :: Handler
  rt_api :: "APIOptions option"
  rt_watcher :: "Watcher option"
  rt_servers :: "HTTPServer list"
  rt_relay :: bool

datatype 'a startup = Fails goerror | Panics string | Starts 'a

definition newDataServer :: "string \<Rightarrow> HTTPServer" where
  "newDataServer addr = \<lparr>srv_Addr = addr, srv_ReadHeader = readHeaderTimeout, srv_Read = requestReadTimeout,
     srv_Write = responseWriteTimeout, srv_Idle = connectionIdleTimeout\<rparr>"

definition debugServer :: "string \<Rightarrow> HTTPServer" where
  "debugServer addr = \<lparr>srv_Addr = addr, srv_ReadHeader = readHeaderTimeout, srv_Read = 0, srv_Write = 0,
     srv_Idle = connectionIdleTimeout\<rparr>"

definition groupOptions :: "gocontext \<Rightarrow> Config \<Rightarrow> SourceInfo \<Rightarrow> SourceLimiter \<Rightarrow> Options" where
  "groupOptions work c source limiter =
     \<lparr>opt_TTL = cfg_TTL c, opt_KnownKeys = (if si_mutable source then None else si_Keys source), opt_SourceTimeout = 0,
      opt_Limiter = Some limiter, opt_Lifecycle = Some work, opt_Observer = CleanupObserver, opt_EpochBuckets = 0,
      opt_MaxMissWaiters = cfg_MaxMissWaiters c, opt_CleanupInterval = 0, opt_CleanupBatch = 0\<rparr>"

definition newWatcher_for :: "goerror option \<Rightarrow> Config \<Rightarrow> Directory \<Rightarrow> goerror + Watcher option" where
  "newWatcher_for k8s c router =
     (if cfg_DiscoveryMode c = ''kubernetes'' then
        (case k8s of
           Some e \<Rightarrow> Inl e
         | None \<Rightarrow> (case newWatcher (cfg_Namespace c) (cfg_ClusterService c) router of Inl e \<Rightarrow> Inl e | Inr w \<Rightarrow> Inr (Some w)))
      else if cfg_DiscoveryMode c \<noteq> ''static'' then Inl (NewError ''unsupported discovery mode'')
      else Inr None)"

definition newAPI :: "gocontext \<Rightarrow> Config \<Rightarrow> SourceInfo \<Rightarrow> string + APIOptions option" where
  "newAPI work c source =
     (if \<not> cfg_API c then Inr None
      else case APIHandler \<lparr>api_Store = si_mutable source, api_Directory = True, api_Token = cfg_AdminToken c,
             api_Lifecycle = Some work, api_MaxConcurrentWrites = cfg_WriteConcurrency c, api_NodeID = cfg_SelfID c\<rparr> of
        Inl p \<Rightarrow> Inl p
      | Inr opts \<Rightarrow> Inr (Some opts))"

definition servers_for :: "Config \<Rightarrow> HTTPServer list" where
  "servers_for c =
     [newDataServer (cfg_ClusterAddr c)] @ (if cfg_API c then [newDataServer (cfg_APIAddr c)] else []) @
     (if cfg_DebugAddr c \<noteq> '''' then [debugServer (cfg_DebugAddr c)] else [])"

definition buildRuntime ::
  "(string \<Rightarrow> string option) \<Rightarrow> (string \<Rightarrow> string) \<Rightarrow> (nat \<Rightarrow> 64 word) \<Rightarrow> (64 word \<Rightarrow> nat \<Rightarrow> int) \<Rightarrow> goerror option \<Rightarrow> gocontext \<Rightarrow>
   Config \<Rightarrow> SourceInfo option \<Rightarrow> Runtime startup" where
  "buildRuntime bracketed unicode ceilBits roundHashes k8s work c source =
     (case Validate bracketed unicode c of
        Some e \<Rightarrow> Fails e
      | None \<Rightarrow>
     (case source of
        None \<Rightarrow> Fails (NewError ''source is required'')
      | Some src \<Rightarrow>
     (case NewDirectory (cfg_SelfID c) invalidationRequestTimeout (cfg_AdminToken c) of
        Inl p \<Rightarrow> Panics p
      | Inr empty_router \<Rightarrow>
     (case Update (cfg_Members c) empty_router of
        (Some e, _) \<Rightarrow> Fails e
      | (None, router) \<Rightarrow>
     (case NewSourceLimiterWithQueue (cfg_SourceConcurrency c) (cfg_SourceMaxPending c) of
        Inl p \<Rightarrow> Panics p
      | Inr limiter \<Rightarrow>
     (case NewGroup ceilBits roundHashes (if cfg_SourceMode c = ''postgres'' then ''products'' else ''scores'')
             (cfg_CacheBytes c) True (groupOptions work c src limiter) of
        Inl p \<Rightarrow> Panics p
      | Inr grp \<Rightarrow>
     (case newWatcher_for k8s c router of
        Inl e \<Rightarrow> Fails e
      | Inr watcher \<Rightarrow>
     (case NewHandlerWithToken (cfg_AdminToken c) [grp] of
        Inl p \<Rightarrow> Panics p
      | Inr handler \<Rightarrow>
     (case newAPI work c src of
        Inl p \<Rightarrow> Panics p
      | Inr api \<Rightarrow>
          Starts \<lparr>rt_router = router, rt_group = grp, rt_handler = handler, rt_api = api, rt_watcher = watcher,
                  rt_servers = servers_for c, rt_relay = (si_queue src \<and> cfg_AdminToken c \<noteq> '''')\<rparr>)))))))))"

section \<open>Listeners and serving\<close>

text \<open>
  \<open>listen\<close> answers for an address and the open listeners; a new listener gets a fresh number.
\<close>

type_synonym listen = "string \<Rightarrow> nat set \<Rightarrow> goerror + nat"

fun bindServers :: "listen \<Rightarrow> HTTPServer list \<Rightarrow> nat list \<Rightarrow> nat set \<Rightarrow> (goerror + nat list) \<times> nat set" where
  "bindServers listen [] listeners opened = (Inr listeners, opened)"
| "bindServers listen (server # servers) listeners opened =
     (case listen (srv_Addr server) opened of
        Inl err \<Rightarrow> (Inl err, opened - set listeners)
      | Inr l \<Rightarrow> bindServers listen servers (listeners @ [l]) (insert l opened))"

text \<open>
  What ends serving: the context, or the first server that returns, with its error unless it was
  closed. The shutdown of every server follows, in order; one that fails is closed, and the first
  failure is reported unless there is an error already.
\<close>

datatype serve_end = ContextDone | ServerReturned "goerror option"

fun shutdown_all :: "goerror option list \<Rightarrow> nat \<Rightarrow> goerror option \<Rightarrow> goerror option \<times> nat list" where
  "shutdown_all [] i result = (result, [])"
| "shutdown_all (None # rest) i result = shutdown_all rest (i + 1) result"
| "shutdown_all (Some err # rest) i result =
     (case shutdown_all rest (i + 1) (if result = None then Some err else result) of
        (final, closed) \<Rightarrow> (final, i # closed))"

definition serve :: "serve_end \<Rightarrow> goerror option list \<Rightarrow> goerror option \<times> nat list \<times> bool list" where
  "serve ending shutdowns =
     (let result = (case ending of ContextDone \<Rightarrow> None | ServerReturned err \<Rightarrow> err) in
      case shutdown_all shutdowns 0 result of (final, closed) \<Rightarrow> (final, closed, [True, False]))"

definition rt_ready :: "bool \<Rightarrow> Watcher option \<Rightarrow> bool" where
  "rt_ready serving watcher \<longleftrightarrow> serving \<and> (case watcher of None \<Rightarrow> True | Some w \<Rightarrow> w_ready w)"

definition RunWithSource ::
  "(string \<Rightarrow> string option) \<Rightarrow> (string \<Rightarrow> string) \<Rightarrow> (nat \<Rightarrow> 64 word) \<Rightarrow> (64 word \<Rightarrow> nat \<Rightarrow> int) \<Rightarrow> goerror option \<Rightarrow> gocontext \<Rightarrow>
   listen \<Rightarrow> serve_end \<Rightarrow> goerror option list \<Rightarrow> Config \<Rightarrow> SourceInfo option \<Rightarrow> nat set \<Rightarrow> goerror option startup \<times> nat set" where
  "RunWithSource bracketed unicode ceilBits roundHashes k8s work listen ending shutdowns c source opened =
     (case buildRuntime bracketed unicode ceilBits roundHashes k8s work c source of
        Fails e \<Rightarrow> (Fails e, opened)
      | Panics p \<Rightarrow> (Panics p, opened)
      | Starts rt \<Rightarrow>
          (case bindServers listen (rt_servers rt) [] opened of
             (Inl e, opened') \<Rightarrow> (Fails e, opened')
           | (Inr listeners, opened') \<Rightarrow> (Starts (fst (serve ending shutdowns)), opened' - set listeners)))"

text \<open>\<open>Run\<close> chooses the source; \<open>dbOpen\<close> is the error \<open>postgres.Open\<close> returned, if any.\<close>

definition demoInfo :: "Source \<Rightarrow> SourceInfo" where
  "demoInfo s = \<lparr>si_mutable = False, si_Keys = Some (demo_Keys s), si_queue = False\<rparr>"

definition postgresInfo :: SourceInfo where
  "postgresInfo = \<lparr>si_mutable = True, si_Keys = None, si_queue = True\<rparr>"

definition app_Run ::
  "(string \<Rightarrow> string option) \<Rightarrow> (string \<Rightarrow> string) \<Rightarrow> (nat \<Rightarrow> 64 word) \<Rightarrow> (64 word \<Rightarrow> nat \<Rightarrow> int) \<Rightarrow> goerror option \<Rightarrow> gocontext \<Rightarrow>
   listen \<Rightarrow> serve_end \<Rightarrow> goerror option list \<Rightarrow> goerror option \<Rightarrow> Config \<Rightarrow> nat set \<Rightarrow> goerror option startup \<times> nat set" where
  "app_Run bracketed unicode ceilBits roundHashes k8s work listen ending shutdowns dbOpen c opened =
     (case Validate bracketed unicode c of
        Some e \<Rightarrow> (Fails e, opened)
      | None \<Rightarrow>
     (case validateSourceConfig c of
        Some e \<Rightarrow> (Fails e, opened)
      | None \<Rightarrow>
          let go = (\<lambda>src. RunWithSource bracketed unicode ceilBits roundHashes k8s work listen ending shutdowns c (Some src) opened) in
          if cfg_SourceMode c = '''' \<or> cfg_SourceMode c = ''demo''
          then (case demo_New (100 * Millisecond) of Inl p \<Rightarrow> (Panics p, opened) | Inr s \<Rightarrow> go (demoInfo s))
          else if cfg_SourceMode c = ''postgres''
          then (case dbOpen of Some e \<Rightarrow> (Fails e, opened) | None \<Rightarrow> go postgresInfo)
          else (Fails (NewError ''unsupported SOURCE_MODE''), opened)))"

section \<open>The sender of the relay\<close>

definition outboxSender ::
  "(string \<Rightarrow> string option) \<Rightarrow> (request \<Rightarrow> 'w \<Rightarrow> (goerror + response) \<times> 'w) \<Rightarrow> nat list \<Rightarrow> gotime \<Rightarrow> gotime \<Rightarrow> bool \<Rightarrow>
   Directory \<Rightarrow> Event \<Rightarrow> Group \<Rightarrow> 'w \<Rightarrow> goerror option \<times> Group \<times> 'w" where
  "outboxSender bracketed network order t1 t2 ready router event grp w =
     (if \<not> ready then (Some (NewError ''outbox discovery not ready''), grp, w)
      else case directory_InvalidateVersion bracketed network order t1 t2 router grp (ev_Key event) (ev_Version event) w of
        ((report, Some err), grp', w') \<Rightarrow> (Some err, grp', w')
      | ((report, None), grp', w') \<Rightarrow>
          (if \<not> rep_Complete report \<or> rep_KnownMembers report = 0
           then Some (NewError ''outbox delivery incomplete'') else None, grp', w'))"

section \<open>A valid configuration starts\<close>

lemma Validate_None:
  assumes "Validate bracketed unicode c = None"
  shows "cfg_SelfID c \<noteq> []" "2 ^ 20 \<le> cfg_CacheBytes c \<and> cfg_CacheBytes c \<le> 128 * 2 ^ 20" "0 \<le> cfg_TTL c \<and> cfg_TTL c \<le> Hour"
    "1 \<le> cfg_SourceConcurrency c \<and> cfg_SourceConcurrency c \<le> 1024" "0 \<le> cfg_SourceMaxPending c \<and> cfg_SourceMaxPending c \<le> 4096"
    "0 \<le> cfg_MaxMissWaiters c \<and> cfg_MaxMissWaiters c \<le> 4096" "0 \<le> cfg_WriteConcurrency c \<and> cfg_WriteConcurrency c \<le> 256"
    "validateDiscovery c = None" "validateMembers bracketed unicode (cfg_Members c) = None"
  using assms unfolding Validate_def by (simp_all add: not_less split: if_splits option.splits)

lemma checked_first: "(case x of Inl _ \<Rightarrow> Some e | Inr _ \<Rightarrow> y) = None \<Longrightarrow> \<exists>a. x = Inr a \<and> y = None"
  by (cases x) auto

lemma validateMembers_ok:
  "validateMembers bracketed unicode ms = None \<Longrightarrow> \<forall>m\<in>set ms. CHR ''['' \<notin> set (mem_Address m) \<Longrightarrow> m \<in> set ms \<Longrightarrow> \<not> bad_member m"
proof (induction ms)
  case (Cons x ms)
  have n: "\<not> (mem_ID x = [] \<or> (\<exists>c\<in>set (mem_Address x). c \<in> set ''/?#''))" (is "\<not> ?bad")
  proof
    assume bad: ?bad
    show False using Cons.prems(1) unfolding validateMembers.simps if_P [OF bad] by (rule option.distinct(2) [THEN notE])
  qed
  then have x: "mem_ID x \<noteq> []" "\<forall>c\<in>set (mem_Address x). c \<notin> set ''/?#''" by blast+
  have "(case staticAddress bracketed unicode (''http://'' @ mem_Address x) of
      Inl _ \<Rightarrow> Some (NewError ''invalid member address'') | Inr _ \<Rightarrow> validateMembers bracketed unicode ms) = None"
    using Cons.prems(1) unfolding validateMembers.simps if_not_P [OF n] .
  from checked_first [OF this] obtain a where a: "staticAddress bracketed unicode (''http://'' @ mem_Address x) = Inr a" "validateMembers bracketed unicode ms = None"
    by (elim exE conjE)
  have "CHR ''['' \<notin> set (mem_Address x)" using Cons.prems(2) by (meson list.set_intros(1))
  from static_member_valid [OF a(1) x(2) this] x(1) have bx: "\<not> bad_member x" unfolding bad_member_def by blast
  have ms: "\<forall>m\<in>set ms. CHR ''['' \<notin> set (mem_Address m)" using Cons.prems(2) by (meson list.set_intros(2))
  from Cons.prems(3) consider "m = x" | "m \<in> set ms" unfolding list.set by blast
  then show ?case using bx Cons.IH [OF a(2) ms] by cases (simp only:, blast)
qed (simp only: list.set empty_iff)

lemma groupOptions_normal:
  assumes "0 \<le> cfg_TTL c" "0 \<le> cfg_MaxMissWaiters c"
  shows "\<exists>opts. normalizeOptions (groupOptions work c src limiter) = Inr opts \<and> opt_KnownKeys opts = (if si_mutable src then None else si_Keys src)"
proof -
  have "powerOfTwo 256" "0 < Second" "1 \<le> DefaultMissWaiters"
    by (simp_all add: powerOfTwo_def Second_def Millisecond_def DefaultMissWaiters_def)
  then show ?thesis
    using assms by (cases "cfg_TTL c = 0"; cases "cfg_MaxMissWaiters c = 0") (simp_all add: normalizeOptions_def groupOptions_def)
qed

lemma NewDirectory_ok:
  assumes "i \<noteq> []" "0 < t"
  shows "\<exists>r. NewDirectory i t token = Inr r \<and> dir_start r"
proof -
  let ?r = "\<lparr>dir_selfID = i, dir_timeout = t, dir_token = token, dir_state = None\<rparr>"
  have "dir_start (snd (Update [] ?r))"
    using Update_spec [of ?r "[]" "fst (Update [] ?r)" "snd (Update [] ?r)"] by (simp add: dir_start_def)
  with assms show ?thesis by (simp add: NewDirectory_def)
qed

lemma newGroup_ok:
  assumes "Validate bracketed unicode c = None" "\<forall>bits n. roundHashes bits n < 2 ^ 64"
  shows "\<exists>g. NewGroup ceilBits roundHashes (if cfg_SourceMode c = ''postgres'' then ''products'' else ''scores'')
             (cfg_CacheBytes c) True (groupOptions work c src limiter) = Inr g \<and> group_inv g"
proof -
  note v = Validate_None [OF assms(1)]
  obtain opts where o: "normalizeOptions (groupOptions work c src limiter) = Inr opts" using groupOptions_normal v(3,6) by blast
  have bloom: "newBloomForKeys ceilBits roundHashes keys \<noteq> None" for keys
    using newBloomForKeys_spec [of roundHashes ceilBits keys] assms(2) by (metis option.distinct(1))
  have "0 < cfg_CacheBytes c" using v(2) by simp
  then have "\<exists>g. NewGroup ceilBits roundHashes (if cfg_SourceMode c = ''postgres'' then ''products'' else ''scores'')
             (cfg_CacheBytes c) True (groupOptions work c src limiter) = Inr g"
    unfolding NewGroup_def o Let_def using bloom [of "the (opt_KnownKeys opts)"]
    by (cases "opt_KnownKeys opts") (auto simp: option.case_eq_if)
  then show ?thesis using NewGroup_inv(1) by blast
qed

lemma newWatcher_ok:
  assumes "validateDiscovery c = None" "cfg_DiscoveryMode c = ''kubernetes'' \<Longrightarrow> k8s = None"
  shows "\<exists>w. newWatcher_for k8s c router = Inr w \<and> (w = None \<longleftrightarrow> cfg_DiscoveryMode c = ''static'')"
proof (cases "cfg_DiscoveryMode c = ''static''")
  case False
  then have k: "cfg_DiscoveryMode c = ''kubernetes''" using assms(1) by (auto simp: validateDiscovery_def split: if_splits)
  then have "cfg_Namespace c \<noteq> []" "cfg_ClusterService c \<noteq> []"
    using assms(1) by (auto simp: validateDiscovery_def split: if_splits prod.splits)
  then show ?thesis using k assms(2) by (simp add: newWatcher_for_def newWatcher_def)
qed (simp add: newWatcher_for_def)

lemma newAPI_ok:
  assumes "0 \<le> cfg_WriteConcurrency c"
  shows "\<exists>api. newAPI work c src = Inr api \<and>
    (case api of None \<Rightarrow> \<not> cfg_API c | Some opts \<Rightarrow> cfg_API c \<and> 1 \<le> api_MaxConcurrentWrites opts)"
proof (cases "cfg_API c")
  case True
  then show ?thesis
    using assms by (cases "cfg_WriteConcurrency c = 0") (simp_all add: newAPI_def APIHandler_def DefaultWriteConcurrency_def)
qed (simp add: newAPI_def)

text \<open>
  C35: a configuration that passes validation starts. Whatever the source implements, no constructor
  panics and no step fails except the in-cluster client: the directory holds the configured members,
  the group starts well formed, the API is there exactly when it was asked for, with a positive write
  concurrency, and there is a watcher exactly under Kubernetes discovery. Member addresses in square
  brackets, whose parsing is the URL library's, are excluded.
\<close>

theorem valid_config_starts:
  assumes "Validate bracketed unicode c = None" "\<forall>m\<in>set (cfg_Members c). CHR ''['' \<notin> set (mem_Address m)"
    and "\<forall>bits n. roundHashes bits n < 2 ^ 64" "cfg_DiscoveryMode c = ''kubernetes'' \<Longrightarrow> k8s = None"
  shows "\<exists>rt. buildRuntime bracketed unicode ceilBits roundHashes k8s work c (Some src) = Starts rt \<and> group_inv (rt_group rt) \<and>
    dir_inv (rt_router rt) \<and> set (directory_Members (rt_router rt)) = first_addresses (set (cfg_Members c)) \<and>
    (case rt_api rt of None \<Rightarrow> \<not> cfg_API c | Some opts \<Rightarrow> cfg_API c \<and> 1 \<le> api_MaxConcurrentWrites opts) \<and>
    (rt_watcher rt = None \<longleftrightarrow> cfg_DiscoveryMode c = ''static'')"
proof -
  note v = Validate_None [OF assms(1)]
  obtain r0 where r0: "NewDirectory (cfg_SelfID c) invalidationRequestTimeout (cfg_AdminToken c) = Inr r0" "dir_start r0"
    using NewDirectory_ok [OF v(1), of invalidationRequestTimeout] by (auto simp: invalidationRequestTimeout_def Second_def)
  obtain err r where u: "Update (cfg_Members c) r0 = (err, r)" by fastforce
  have r: "err = None" "dir_inv r" "set (directory_Members r) = first_addresses (set (cfg_Members c))"
    using Update_spec [OF r0(2) u] validateMembers_ok [OF v(9) assms(2)] by (auto split: if_splits)
  obtain l where l: "NewSourceLimiterWithQueue (cfg_SourceConcurrency c) (cfg_SourceMaxPending c) = Inr l"
    using v(4,5) by (simp add: NewSourceLimiterWithQueue_def)
  obtain g where g: "NewGroup ceilBits roundHashes (if cfg_SourceMode c = ''postgres'' then ''products'' else ''scores'')
      (cfg_CacheBytes c) True (groupOptions work c src l) = Inr g" "group_inv g" using newGroup_ok [OF assms(1,3)] by blast
  obtain w where w: "newWatcher_for k8s c r = Inr w" "w = None \<longleftrightarrow> cfg_DiscoveryMode c = ''static''"
    using newWatcher_ok [OF v(8) assms(4)] by blast
  obtain api where api: "newAPI work c src = Inr api" "case api of None \<Rightarrow> \<not> cfg_API c | Some opts \<Rightarrow> cfg_API c \<and> 1 \<le> api_MaxConcurrentWrites opts"
    using newAPI_ok v(7) by blast
  show ?thesis
    unfolding buildRuntime_def assms(1) r0(1) u r(1) option.case sum.case prod.case l g(1) w(1) api(1)
    using g(2) r(2,3) w(2) api(2) by (simp add: NewHandlerWithToken_def)
qed

definition sampleConfig :: Config where
  "sampleConfig = noConfig\<lparr>cfg_ClusterAddr := '':1'', cfg_APIAddr := '':2'', cfg_API := True, cfg_SelfID := ''h:1'',
     cfg_DiscoveryMode := ''static'', cfg_CacheBytes := 2 ^ 20, cfg_SourceConcurrency := 1,
     cfg_Members := [\<lparr>mem_ID = ''h:1'', mem_Address = ''h:1''\<rparr>]\<rparr>"

lemma sample_ports: "SplitHostPort '':1'' = Some ([], ''1'')" "SplitHostPort '':2'' = Some ([], ''2'')"
  "SplitHostPort ''h:1'' = Some (''h'', ''1'')" "Atoi ''1'' = Some 1" "Atoi ''2'' = Some 2"
  by (simp_all add: SplitHostPort_def lastIndex_def Atoi_def ParseInt_def isDigit_def digitsVal_def digitVal_def)

lemma sample_static: "\<exists>a. staticAddress (\<lambda>_. None) id ''http://h:1'' = Inr a"
proof -
  have "map_option (\<lambda>u. (url_Scheme u, url_Host u, url_User u, url_RawQuery u, url_Fragment u, url_Path u)) (url_Parse (\<lambda>_. None) ''http://h:1'') =
      Some (''http'', ''h:1'', False, [], [], [])"
    by code_simp
  then show ?thesis by (auto simp: staticAddress_def sample_ports)
qed

lemma sampleConfig_valid: "Validate (\<lambda>_. None) id sampleConfig = None"
proof -
  have "validateListenAddr '':1'' = None" "validateListenAddr '':2'' = None" "validateDebugAddr [] = None"
    by (simp_all add: validateListenAddr_def validateDebugAddr_def sample_ports)
  moreover have "validateMembers (\<lambda>_. None) id [\<lparr>mem_ID = ''h:1'', mem_Address = ''h:1''\<rparr>] = None"
    using sample_static by auto
  ultimately show ?thesis
    by (simp add: Validate_def sampleConfig_def noConfig_def validateDiscovery_def Hour_def Minute_def Second_def Millisecond_def)
qed

theorem valid_config_starts_witness:
  "\<exists>rt. buildRuntime (\<lambda>_. None) id (\<lambda>n. of_nat (10 * n)) (\<lambda>_ _. 7) None Background sampleConfig (Some postgresInfo) = Starts rt \<and>
     set (directory_Members (rt_router rt)) = first_addresses {\<lparr>mem_ID = ''h:1'', mem_Address = ''h:1''\<rparr>}"
proof -
  have c: "cfg_Members sampleConfig = [\<lparr>mem_ID = ''h:1'', mem_Address = ''h:1''\<rparr>]" "cfg_DiscoveryMode sampleConfig = ''static''"
    by (simp_all add: sampleConfig_def noConfig_def)
  have "\<forall>m\<in>set (cfg_Members sampleConfig). CHR ''['' \<notin> set (mem_Address m)" by (simp add: c)
  moreover have "\<forall>bits n. (\<lambda>_ _. 7 :: int) (bits :: 64 word) (n :: nat) < 2 ^ 64" by simp
  ultimately show ?thesis
    using valid_config_starts [OF sampleConfig_valid, of "\<lambda>_ _. 7" None "\<lambda>n. of_nat (10 * n)" Background postgresInfo]
    unfolding c by auto
qed

section \<open>Listeners\<close>

text \<open>
  Binding is all or nothing: it returns one listener for every server, or an error with no listener
  of its own left open, provided that \<open>net.Listen\<close> returns new listeners.
\<close>

lemma bindServers_all_or_nothing:
  assumes "\<And>addr opn l. listen addr opn = Inr l \<Longrightarrow> l \<notin> opn" "set listeners \<subseteq> opened" "opened - set listeners = before"
  shows "case bindServers listen servers listeners opened of
      (Inl e, opened') \<Rightarrow> opened' = before
    | (Inr ls, opened') \<Rightarrow> length ls = length listeners + length servers \<and> set ls \<subseteq> opened' \<and> opened' - set ls = before"
  using assms(2,3)
proof (induction servers arbitrary: listeners opened)
  case (Cons s servers)
  show ?case
  proof (cases "listen (srv_Addr s) opened")
    case (Inl e)
    then show ?thesis using Cons.prems by simp
  next
    case (Inr l)
    have "l \<notin> opened" using assms(1) Inr by blast
    then have "set (listeners @ [l]) \<subseteq> insert l opened" "insert l opened - set (listeners @ [l]) = before" using Cons.prems by auto
    from Cons.IH [OF this] show ?thesis using Inr by (simp split: prod.splits sum.splits)
  qed
qed simp

text \<open>Shutdown reports an earlier error first and closes exactly the servers that failed to shut down.\<close>

lemma shutdown_all_result:
  "shutdown_all shutdowns i result =
     (if result \<noteq> None then result else (case filter (\<lambda>x. x \<noteq> None) shutdowns of [] \<Rightarrow> None | x # _ \<Rightarrow> x),
      map (\<lambda>j. i + j) (filter (\<lambda>j. shutdowns ! j \<noteq> None) [0..<length shutdowns]))"
proof (induction shutdowns i result rule: shutdown_all.induct)
  case (2 rest i result)
  have "filter (\<lambda>j. (None # rest) ! j \<noteq> None) [0..<length (None # rest)] = map Suc (filter (\<lambda>j. rest ! j \<noteq> None) [0..<length rest])"
    by (simp add: upt_conv_Cons map_Suc_upt [symmetric] filter_map comp_def del: upt_Suc)
  then show ?case using 2 by (simp add: comp_def del: upt_Suc)
next
  case (3 err rest i result)
  have "filter (\<lambda>j. (Some err # rest) ! j \<noteq> None) [0..<length (Some err # rest)] = 0 # map Suc (filter (\<lambda>j. rest ! j \<noteq> None) [0..<length rest])"
    by (simp add: upt_conv_Cons map_Suc_upt [symmetric] filter_map comp_def del: upt_Suc)
  then show ?case using 3 by (simp add: comp_def del: upt_Suc)
qed simp

end
