(* ===== verification/Relay.thy ===== *)
theory Relay
  imports App_Bootstrap
begin

text \<open>
  The relay as \<open>RunWithSource\<close> assembles it: the worker of \<open>internal/outbox\<close> on the PostgreSQL queue,
  sending with \<open>outboxSender\<close> through the directory to the members. The only relay of the database
  runs; other replicas write and purge meanwhile. Every send meets a state of the cluster of its own,
  because discovery and other traffic change it between sends. The worker's contract is interpreted
  on this assembly.
\<close>

section \<open>The assembled world\<close>

record clusterReading =
  cr_router :: Directory
  cr_group :: Group
  cr_nodes :: "string \<rightharpoonup> Handler"
  cr_ready :: bool
  cr_fate :: "string \<Rightarrow> fate"
  cr_order :: "nat list"
  cr_clock :: "nat \<Rightarrow> gotime"

text \<open>The log keeps, for every acknowledged event, the cluster right after its fan-out.\<close>

record relayWorld =
  rw_pg :: pgWorld
  rw_log :: "(Event \<times> Directory \<times> Group \<times> (string \<rightharpoonup> Handler)) list"

fun completing :: "store_op \<Rightarrow> bool" where
  "completing (DoFinish _ _ _ _ delivered _) \<longleftrightarrow> delivered"
| "completing _ \<longleftrightarrow> False"

definition solo :: "(nat \<Rightarrow> pgReading) \<Rightarrow> nat \<Rightarrow> pgReading" where
  "solo env n = (env n)\<lparr>rd_others := filter (\<lambda>op. \<not> completing op) (rd_others (env n))\<rparr>"

definition on_pg :: "(pgWorld \<Rightarrow> 'r \<times> pgWorld) \<Rightarrow> relayWorld \<Rightarrow> 'r \<times> relayWorld" where
  "on_pg f w = (case f (rw_pg w) of (r, p) \<Rightarrow> (r, w\<lparr>rw_pg := p\<rparr>))"

definition relayQueue :: "(nat \<Rightarrow> pgReading) \<Rightarrow> relayWorld queue" where
  "relayQueue env =
     \<lparr>q_Claim = (\<lambda>ctx lease. on_pg (q_Claim (pgQueue (solo env)) ctx lease)),
      q_Finish = (\<lambda>ctx ev delivered retry. on_pg (q_Finish (pgQueue (solo env)) ctx ev delivered retry)),
      q_Stats = (\<lambda>ctx. on_pg (q_Stats (pgQueue (solo env)) ctx)),
      q_PurgeDelivered = (\<lambda>ctx retention limit. on_pg (q_PurgeDelivered (pgQueue (solo env)) ctx retention limit))\<rparr>"

definition relay_send ::
  "(string \<Rightarrow> string option) \<Rightarrow> clusterReading \<Rightarrow> Event \<Rightarrow> goerror option \<times> Group \<times> (string \<rightharpoonup> Handler)" where
  "relay_send bracketed cr ev =
     outboxSender bracketed (member_network (cr_fate cr) (cr_clock cr 0) (cr_clock cr 1)) (cr_order cr) (cr_clock cr 2) (cr_clock cr 3)
       (cr_ready cr) (cr_router cr) ev (cr_group cr) (cr_nodes cr)"

definition relaySend ::
  "(string \<Rightarrow> string option) \<Rightarrow> (nat \<Rightarrow> pgReading) \<Rightarrow> (nat \<Rightarrow> clusterReading) \<Rightarrow> gocontext \<Rightarrow> Event \<Rightarrow> relayWorld \<Rightarrow> goerror option \<times> relayWorld" where
  "relaySend bracketed env cluster ctx ev w =
     (let cr = cluster (pw_calls (rw_pg w)) in
      case relay_send bracketed cr ev of (err, g', nodes') \<Rightarrow>
        (case pgSend (solo env) (\<lambda>_ _. err) ctx ev (rw_pg w) of (_, p) \<Rightarrow>
           (err, w\<lparr>rw_pg := p,
                   rw_log := rw_log w @ (if err = None then [(ev, cr_router cr, g', nodes')] else [])\<rparr>)))"

section \<open>Acknowledged means applied\<close>

definition reading_ok :: "clusterReading \<Rightarrow> bool" where
  "reading_ok cr \<longleftrightarrow> dir_inv (cr_router cr) \<and> group_inv (cr_group cr) \<and> nodes_inv (cr_nodes cr) \<and>
     distinct (cr_order cr) \<and> set (cr_order cr) = {..<length (others (cr_router cr))}"

definition applied_everywhere ::
  "(string \<Rightarrow> string option) \<Rightarrow> Directory \<Rightarrow> string \<Rightarrow> int \<Rightarrow> Group \<Rightarrow> (string \<rightharpoonup> Handler) \<Rightarrow> bool" where
  "applied_everywhere bracketed router key version g nodes \<longleftrightarrow>
     directory_Members router \<noteq> [] \<and> version \<le> floor_at (floors g) key \<and>
     (\<forall>m\<in>set (others router). \<exists>user host h gm. parseAuthority bracketed (mem_Address m) = Some (user, host) \<and>
        nodes host = Some h \<and> h_groups h (group_name g) = Some gm \<and> version \<le> floor_at (floors gm) key)"

lemma InvalidateVersion_report_name:
  "directory_InvalidateVersion bracketed network order t1 t2 r g key version w = ((report, None), g', w') \<Longrightarrow>
     group_name g' = group_name g \<and> rep_KnownMembers report = length (directory_Members r)"
  using InvalidateVersion_name [of t1 t2 key version g]
  by (auto simp: directory_InvalidateVersion_def Let_def split: prod.splits option.splits)

lemma relay_send_applied:
  assumes "reading_ok cr" "0 < ev_Version ev" "int64 (ev_Version ev)" "relay_send bracketed cr ev = (None, g', nodes')"
  shows "applied_everywhere bracketed (cr_router cr) (ev_Key ev) (ev_Version ev) g' nodes'"
proof -
  let ?call = "directory_InvalidateVersion bracketed (member_network (cr_fate cr) (cr_clock cr 0) (cr_clock cr 1)) (cr_order cr)
    (cr_clock cr 2) (cr_clock cr 3) (cr_router cr) (cr_group cr) (ev_Key ev) (ev_Version ev) (cr_nodes cr)"
  obtain report where call: "?call = ((report, None), g', nodes')" and c: "rep_Complete report" "rep_KnownMembers report \<noteq> 0"
    using assms(4) by (auto simp: relay_send_def outboxSender_def split: if_splits prod.splits option.splits)
  have ok: "dir_inv (cr_router cr)" "group_inv (cr_group cr)" "nodes_inv (cr_nodes cr)" "distinct (cr_order cr)"
    "set (cr_order cr) = {..<length (others (cr_router cr))}" using assms(1) by (simp_all add: reading_ok_def)
  note n = InvalidateVersion_report_name [OF call]
  show ?thesis
    using complete_report_applied [OF ok(1-3) assms(2,3) ok(4,5) call c(1)] n c(2) by (simp add: applied_everywhere_def)
qed

section \<open>The contract on the assembly\<close>

definition relay_ok :: "(string \<Rightarrow> string option) \<Rightarrow> (nat \<Rightarrow> clusterReading) \<Rightarrow> relayWorld \<Rightarrow> bool" where
  "relay_ok bracketed cluster w \<longleftrightarrow> (\<forall>n. reading_ok (cluster n)) \<and> pg_ok (rw_pg w) \<and> pw_sent (rw_pg w) = map fst (rw_log w) \<and>
     (\<forall>(ev, router, g, nodes)\<in>set (rw_log w). 0 < ev_Version ev \<and> int64 (ev_Version ev) \<longrightarrow>
        applied_everywhere bracketed router (ev_Key ev) (ev_Version ev) g nodes)"

definition relay_pending :: "relayWorld \<Rightarrow> int \<rightharpoonup> string \<times> int" where
  "relay_pending w = pg_pending (rw_pg w)"

definition relay_sent :: "relayWorld \<Rightarrow> Event list" where
  "relay_sent w = pw_sent (rw_pg w)"

definition relay_claimed :: "relayWorld \<Rightarrow> Event \<Rightarrow> bool" where
  "relay_claimed w = pg_claimed (rw_pg w)"

lemma relay_accounted: "accounted relay_pending relay_sent w w' = pg_accounted (rw_pg w) (rw_pg w')"
  by (simp add: accounted_def relay_pending_def relay_sent_def)

lemma solo_others: "list_all (\<lambda>op. \<not> completing op) (rd_others (solo env n))"
  by (simp add: solo_def list_all_iff)

lemma others_silent: "list_all (\<lambda>op. \<not> completing op) ops \<Longrightarrow> pw_sent (fold others_step ops p) = pw_sent p"
proof (induction ops arbitrary: p)
  case (Cons op ops)
  have "completes op (pw_db p) = []" using Cons.prems by (cases op) auto
  then show ?case using Cons by (simp add: others_step_def)
qed simp

lemma pg_call_silent: "pw_sent (snd (pg_call (solo env) stmt p)) = pw_sent p"
  using others_silent [OF solo_others] by (simp add: pg_call_def Let_def split: prod.split)

lemma relay_ok_on_pg:
  assumes "relay_ok bracketed cluster w" "pg_ok (snd (f (rw_pg w)))" "pw_sent (snd (f (rw_pg w))) = pw_sent (rw_pg w)"
  shows "relay_ok bracketed cluster (snd (on_pg f w))"
  using assms by (cases "f (rw_pg w)") (simp add: relay_ok_def on_pg_def)

lemma rw_pg_on_pg: "rw_pg (snd (on_pg f w)) = snd (f (rw_pg w))" "fst (on_pg f w) = fst (f (rw_pg w))"
  by (simp_all add: on_pg_def split: prod.split)

lemma relayQueue_silent:
  "pw_sent (snd (q_Claim (pgQueue (solo env)) ctx lease p)) = pw_sent p"
  "pw_sent (snd (q_Finish (pgQueue (solo env)) ctx ev delivered retry p)) = pw_sent p"
  "pw_sent (snd (q_Stats (pgQueue (solo env)) ctx p)) = pw_sent p"
  "pw_sent (snd (q_PurgeDelivered (pgQueue (solo env)) ctx retention limit p)) = pw_sent p"
  by (simp_all add: pgQueue_def pg_call_silent)

lemma relaySend_world:
  assumes "relaySend bracketed env cluster ctx ev w = (err, w')"
  shows "rw_pg w' = snd (pgSend (solo env) (\<lambda>_ _. err) ctx ev (rw_pg w))" "fst (pgSend (solo env) (\<lambda>_ _. err) ctx ev (rw_pg w)) = err"
    "\<exists>g' nodes'. relay_send bracketed (cluster (pw_calls (rw_pg w))) ev = (err, g', nodes') \<and>
       rw_log w' = rw_log w @ (if err = None then [(ev, cr_router (cluster (pw_calls (rw_pg w))), g', nodes')] else [])"
  using assms by (auto simp: relaySend_def Let_def pgSend_def split: prod.splits option.splits)

lemma relaySend_keeps_ok:
  assumes "relay_ok bracketed cluster w"
  shows "relay_ok bracketed cluster (snd (relaySend bracketed env cluster ctx ev w))"
proof -
  obtain err w' where r: "relaySend bracketed env cluster ctx ev w = (err, w')" by fastforce
  note world = relaySend_world [OF r]
  obtain g' nodes' where send: "relay_send bracketed (cluster (pw_calls (rw_pg w))) ev = (err, g', nodes')"
    and log: "rw_log w' = rw_log w @ (if err = None then [(ev, cr_router (cluster (pw_calls (rw_pg w))), g', nodes')] else [])"
    using world(3) by blast
  have cr: "reading_ok (cluster (pw_calls (rw_pg w)))" and pg: "pg_ok (rw_pg w)" using assms by (simp_all add: relay_ok_def)
  have "pg_ok (rw_pg w')" unfolding world(1) by (rule pg.send_ok [OF pg])
  moreover have "pw_sent (rw_pg w') = pw_sent (rw_pg w) @ (if err = None then [ev] else [])"
    using pgSend_world [of "solo env" "\<lambda>_ _. err" ctx ev "rw_pg w" err "rw_pg w'"] world(1,2) pg_call_silent by (metis prod.collapse)
  ultimately show ?thesis
    using assms log relay_send_applied [OF cr] send unfolding r relay_ok_def by auto
qed

interpretation relay: outbox_worker "relayQueue env" "relay_ok bracketed cluster" relay_pending relay_sent relay_claimed
    "relaySend bracketed env cluster"
  for env bracketed cluster
proof
  fix s s' :: relayWorld and ctx ev lease delivered retry retention limit
  { show "fst (relaySend bracketed env cluster ctx ev s) = None \<Longrightarrow> ev \<in> set (relay_sent (snd (relaySend bracketed env cluster ctx ev s)))"
      using relaySend_world [of bracketed env cluster ctx ev s] pg.send_acknowledged [of "solo env" "\<lambda>_ _. None" ctx ev "rw_pg s"]
      by (cases "relaySend bracketed env cluster ctx ev s") (auto simp: relay_sent_def) }
  assume ok: "relay_ok bracketed cluster s"
  then have pg: "pg_ok (rw_pg s)" by (simp add: relay_ok_def)
  show "relay_ok bracketed cluster (snd (q_Claim (relayQueue env) ctx lease s))"
    "relay_ok bracketed cluster (snd (q_Finish (relayQueue env) ctx ev delivered retry s))"
    "relay_ok bracketed cluster (snd (q_Stats (relayQueue env) ctx s))"
    "relay_ok bracketed cluster (snd (q_PurgeDelivered (relayQueue env) ctx retention limit s))"
    using pg.claim_ok [OF pg] pg.finish_ok [OF pg] pg.stats_ok [OF pg] pg.purge_ok [OF pg]
    by (simp_all add: relayQueue_def relay_ok_on_pg [OF ok] relayQueue_silent)
  show "accounted relay_pending relay_sent s (snd (q_Claim (relayQueue env) ctx lease s))"
    "accounted relay_pending relay_sent s (snd (q_Stats (relayQueue env) ctx s))"
    "accounted relay_pending relay_sent s (snd (q_PurgeDelivered (relayQueue env) ctx retention limit s))"
    using pg.claim_accounted [OF pg] pg.stats_accounted [OF pg] pg.purge_accounted [OF pg]
    by (simp_all add: relayQueue_def relay_accounted rw_pg_on_pg)
  show "relay_claimed s' ev" if "q_Claim (relayQueue env) ctx lease s = ((ev, True, None), s')"
    using pg.claim_event [OF pg, of "solo env" ctx lease ev "rw_pg s'"] that
    by (auto simp: relayQueue_def on_pg_def relay_claimed_def split: prod.splits)
  show "accounted relay_pending relay_sent s (snd (q_Finish (relayQueue env) ctx ev delivered retry s))"
    if "relay_claimed s ev" "delivered \<longrightarrow> ev \<in> set (relay_sent s)"
    using pg.finish_accounted [OF pg that(1) [unfolded relay_claimed_def] that(2) [unfolded relay_sent_def]]
    by (simp add: relayQueue_def relay_accounted rw_pg_on_pg)
  show "relay_ok bracketed cluster (snd (relaySend bracketed env cluster ctx ev s))" by (rule relaySend_keeps_ok [OF ok])
  obtain err w' where r: "relaySend bracketed env cluster ctx ev s = (err, w')" by fastforce
  show "accounted relay_pending relay_sent s (snd (relaySend bracketed env cluster ctx ev s))"
    using pg.send_accounted [OF pg] relaySend_world(1) [OF r] by (simp add: r relay_accounted)
  show "relay_claimed (snd (relaySend bracketed env cluster ctx ev s)) ev" if "relay_claimed s ev"
    using pg.send_claimed [OF pg that [unfolded relay_claimed_def]] relaySend_world(1) [OF r] by (simp add: r relay_claimed_def)
qed

section \<open>A run of the relay\<close>

lemma pending_version:
  assumes "pg_ok p" "pg_pending p i = Some (key, version)"
  shows "0 < version \<and> int64 version"
proof -
  obtain r where r: "r \<in> set (db_outbox (pw_db p))" "version = row_version r"
    using assms(2) row_at_mem by (fastforce simp: pg_pending_def split: option.splits if_splits)
  then have "0 < version" "version \<le> committed (pw_db p) (row_key r)" using assms(1) by (auto simp: pg_ok_def db_inv_def row_ok_def list_all_iff)
  moreover have "committed (pw_db p) (row_key r) \<le> maxBigint"
    using assms(1) by (auto simp: pg_ok_def db_inv_def committed_def maxBigint_def split: option.split)
  ultimately show ?thesis by (auto simp: int64_def maxBigint_def)
qed

lemma relay_run_applied:
  assumes "Run \<lparr>w_Queue = relayQueue env, w_Send = relaySend bracketed env cluster, w_Observer = obs\<rparr> ctx clk w = Some (n, w', evs)"
    and "\<forall>n. reading_ok (cluster n)" "pg_ok (rw_pg w)" "pw_sent (rw_pg w) = []" "rw_log w = []"
    and "pg_pending (rw_pg w) i = Some (key, version)"
  shows "pg_pending (rw_pg w') i = Some (key, version) \<or>
    (\<exists>(ev, router, g, nodes)\<in>set (rw_log w'). ev_ID ev = i \<and> applied_everywhere bracketed router key version g nodes)"
proof -
  have ok: "relay_ok bracketed cluster w" using assms(2-5) by (simp add: relay_ok_def)
  from relay.Run_accounted [OF assms(1) ok] have acc: "accounted relay_pending relay_sent w w'" and ok': "relay_ok bracketed cluster w'" by auto
  note v = pending_version [OF assms(3,6)]
  from acc assms(6) consider "pg_pending (rw_pg w') i = Some (key, version)"
    | ev where "ev \<in> set (pw_sent (rw_pg w'))" "ev_ID ev = i" "ev_Key ev = key" "ev_Version ev = version"
    unfolding accounted_def relay_pending_def relay_sent_def by blast
  then show ?thesis
  proof cases
    case 2
    then obtain router g nodes where "(ev, router, g, nodes) \<in> set (rw_log w')" using ok' by (auto simp: relay_ok_def)
    moreover from this have "applied_everywhere bracketed router key version g nodes" using ok' v 2 by (auto simp: relay_ok_def)
    ultimately show ?thesis using 2(2) by blast
  qed simp
qed

end
