(* ===== verification/Operator_Spec.thy ===== *)
theory Operator_Spec
  imports Go_Text
begin

text \<open>
  The custom resource of the operator (\<open>api/v1/simplecache_types.go\<close>) and the pure functions on it:
  defaults and the desired objects (\<open>resources.go\<close>, \<open>template.go\<close>) and validation (\<open>validation.go\<close>).
  Kubernetes' name checks and resource quantities are library code: a record of functions the
  definitions take. Go maps that are ranged over are association lists in iteration order.
\<close>

section \<open>The custom resource\<close>

record GatewaySpec =
  gw_ClassName :: string
  gw_Replicas :: int

type_synonym 'q resourceList = "(string \<times> 'q) list"

record 'q ResourceRequirements =
  rr_Requests :: "'q resourceList option"
  rr_Limits :: "'q resourceList option"

record 'q SimpleCacheSpec =
  sp_Gateway :: "GatewaySpec option"
  sp_Size :: int
  sp_Image :: string
  sp_SourceSecret :: string
  sp_CacheBytes :: int
  sp_TTLSeconds :: int
  sp_MaxMissWaiters :: int
  sp_SourceMaxPending :: "int option"
  sp_MaxConcurrentWrites :: int
  sp_Resources :: "'q ResourceRequirements"

record Condition =
  co_Type :: string
  co_Status :: bool
  co_Reason :: string
  co_Message :: string
  co_ObservedGeneration :: int

record SimpleCacheStatus =
  st_ObservedGeneration :: int
  st_ReadyReplicas :: int
  st_Conditions :: "Condition list"

record 'q SimpleCache =
  sc_Name :: string
  sc_Namespace :: string
  sc_UID :: string
  sc_Generation :: int
  sc_Deleting :: bool
  sc_Spec :: "'q SimpleCacheSpec"
  sc_Status :: SimpleCacheStatus

text \<open>
  \<open>k8s.io/apimachinery\<close>: the three name checks (true: no complaint), and \<open>resource.Quantity\<close> with
  \<open>Sign\<close>, \<open>Cmp\<close> and \<open>MustParse\<close>.
\<close>

record 'q apimachinery =
  IsDNS1035Label :: "string \<Rightarrow> bool"
  IsDNS1123Label :: "string \<Rightarrow> bool"
  IsDNS1123Subdomain :: "string \<Rightarrow> bool"
  q_Sign :: "'q \<Rightarrow> int"
  q_Cmp :: "'q \<Rightarrow> 'q \<Rightarrow> int"
  MustParse :: "string \<Rightarrow> 'q"

section \<open>Defaults\<close>

definition default_gateway :: "GatewaySpec \<Rightarrow> GatewaySpec" where
  "default_gateway g =
     (let g1 = (if gw_ClassName g = [] then g\<lparr>gw_ClassName := ''eg''\<rparr> else g)
      in if gw_Replicas g1 = 0 then g1\<lparr>gw_Replicas := 2\<rparr> else g1)"

definition default_spec :: "'q SimpleCacheSpec \<Rightarrow> 'q SimpleCacheSpec" where
  "default_spec s =
     s\<lparr>sp_Gateway := map_option default_gateway (sp_Gateway s),
       sp_Size := (if sp_Size s = 0 then 3 else sp_Size s),
       sp_CacheBytes := (if sp_CacheBytes s = 0 then 64 * 2 ^ 20 else sp_CacheBytes s),
       sp_TTLSeconds := (if sp_TTLSeconds s = 0 then 60 else sp_TTLSeconds s),
       sp_MaxMissWaiters := (if sp_MaxMissWaiters s = 0 then 128 else sp_MaxMissWaiters s),
       sp_SourceMaxPending := (if sp_SourceMaxPending s = None then Some 128 else sp_SourceMaxPending s),
       sp_MaxConcurrentWrites := (if sp_MaxConcurrentWrites s = 0 then 16 else sp_MaxConcurrentWrites s)\<rparr>"

definition operator_defaults :: "'q SimpleCache \<Rightarrow> 'q SimpleCache" where
  "operator_defaults cr = cr\<lparr>sc_Spec := default_spec (sc_Spec cr)\<rparr>"

section \<open>Validation\<close>

definition validateGateway :: "'q apimachinery \<Rightarrow> 'q SimpleCache \<Rightarrow> string option" where
  "validateGateway k cr =
     (case sp_Gateway (sc_Spec cr) of
        None \<Rightarrow> None
      | Some g \<Rightarrow>
          if \<not> IsDNS1123Subdomain k (gw_ClassName g) \<or> gw_Replicas g < 1 \<or> gw_Replicas g > 8
          then Some ''gateway className or replica count is invalid''
          else if length (sc_Name cr) > 55 \<or> \<not> IsDNS1123Label k (sc_Name cr)
          then Some ''gateway mode requires a DNS label name of at most 55 characters''
          else None)"

fun validateRequests :: "'q apimachinery \<Rightarrow> 'q resourceList \<Rightarrow> 'q resourceList \<Rightarrow> string option" where
  "validateRequests k limits [] = None"
| "validateRequests k limits ((name, q) # rest) =
     (if q_Sign k q < 0 then Some (''negative request for '' @ name)
      else case map_of limits name of
        Some limit \<Rightarrow>
          if q_Cmp k q limit > 0 then Some (''request exceeds limit for '' @ name) else validateRequests k limits rest
      | None \<Rightarrow> validateRequests k limits rest)"

fun validateLimits :: "'q apimachinery \<Rightarrow> 'q resourceList \<Rightarrow> string option" where
  "validateLimits k [] = None"
| "validateLimits k ((name, q) # rest) =
     (if q_Sign k q < 0 then Some (''negative limit for '' @ name) else validateLimits k rest)"

definition resource_list :: "'q resourceList option \<Rightarrow> 'q resourceList" where
  "resource_list r = (case r of None \<Rightarrow> [] | Some l \<Rightarrow> l)"

definition validateSpec :: "'q apimachinery \<Rightarrow> 'q SimpleCache \<Rightarrow> string option" where
  "validateSpec k cr =
     (let sp = sc_Spec cr; maxName = (if sp_Gateway sp \<noteq> None then 55 else 59);
          requests = resource_list (rr_Requests (sp_Resources sp)); limits = resource_list (rr_Limits (sp_Resources sp)) in
      if int (length (sc_Name cr)) > maxName \<or> \<not> IsDNS1035Label k (sc_Name cr)
      then Some (''name must be a DNS label starting with a letter, at most '' @ FormatInt maxName @ '' characters'')
      else case validateGateway k cr of
        Some e \<Rightarrow> Some e
      | None \<Rightarrow>
          if sp_SourceSecret sp \<noteq> [] \<and> \<not> IsDNS1123Subdomain k (sp_SourceSecret sp)
          then Some ''sourceSecret must be a valid Secret name''
          else if TrimSpace (sp_Image sp) = [] \<or> sp_Size sp < 1 \<or> sp_Size sp > 10 \<or>
                  sp_CacheBytes sp < 2 ^ 20 \<or> sp_CacheBytes sp > 128 * 2 ^ 20 \<or> sp_TTLSeconds sp < 1 \<or> sp_TTLSeconds sp > 3600
          then Some ''image, replica count, cache capacity or TTL is invalid''
          else if sp_MaxMissWaiters sp < 1 \<or> sp_MaxMissWaiters sp > 4096 \<or>
                  sp_MaxConcurrentWrites sp < 1 \<or> sp_MaxConcurrentWrites sp > 256
          then Some ''miss waiter or write concurrency budget is invalid''
          else if (case sp_SourceMaxPending sp of None \<Rightarrow> False | Some p \<Rightarrow> p < 0 \<or> p > 4096)
          then Some ''sourceMaxPending must be between 0 and 4096''
          else case validateRequests k limits requests of
            Some e \<Rightarrow> Some e
          | None \<Rightarrow> validateLimits k limits)"

section \<open>Resources\<close>

definition default_request :: "'q apimachinery \<Rightarrow> 'q resourceList \<Rightarrow> string \<times> 'q \<Rightarrow> 'q resourceList \<Rightarrow> 'q resourceList" where
  "default_request k limits = (\<lambda>(name, q) requests.
     if map_of requests name \<noteq> None then requests
     else requests @ [(name, case map_of limits name of
                               Some limit \<Rightarrow> if q_Cmp k limit q < 0 then limit else q
                             | None \<Rightarrow> q)])"

definition resourceDefaults :: "'q apimachinery \<Rightarrow> 'q ResourceRequirements \<Rightarrow> 'q ResourceRequirements" where
  "resourceDefaults k input =
     (let limits = resource_list (rr_Limits input);
          requests = fold (default_request k limits) [(''cpu'', MustParse k ''100m''), (''memory'', MustParse k ''128Mi'')]
                       (resource_list (rr_Requests input));
          limits' = (if map_of limits ''memory'' \<noteq> None then limits
                     else let limit = MustParse k ''256Mi''; request = the (map_of requests ''memory'')
                          in limits @ [(''memory'', if q_Cmp k request limit > 0 then request else limit)])
      in \<lparr>rr_Requests = Some requests, rr_Limits = Some limits'\<rparr>)"

section \<open>Desired objects\<close>

datatype any = Null | Str string | Num int | Arr "any list" | Obj "(string \<times> any) list"

datatype env_source = Value string | FieldRef string | SecretKeyRef string string

record Probe =
  pr_Path :: string
  pr_Port :: int
  pr_Period :: int
  pr_Timeout :: int
  pr_Failure :: int
  pr_Success :: int

text \<open>\<open>c_Other\<close>, \<open>pt_Other\<close> and \<open>ss_Other\<close> are the fields the operator does not own.\<close>

record 'q Container =
  c_Name :: string
  c_Image :: string
  c_PullPolicy :: string
  c_Command :: "string list"
  c_Args :: "string list"
  c_Env :: "(string \<times> env_source) list"
  c_Ports :: "(string \<times> int) list"
  c_Resources :: "'q ResourceRequirements"
  c_Startup :: "Probe option"
  c_Liveness :: "Probe option"
  c_Readiness :: "Probe option"
  c_Other :: any

record 'q PodTemplate =
  pt_Labels :: "string \<rightharpoonup> string"
  pt_Annotations :: "string \<rightharpoonup> string"
  pt_ServiceAccountName :: string
  pt_DeprecatedServiceAccount :: string
  pt_Grace :: "int option"
  pt_Containers :: "'q Container list"
  pt_Other :: any

record 'q StatefulSetSpec =
  ss_Replicas :: int
  ss_ServiceName :: string
  ss_PodManagement :: string
  ss_Selector :: "string \<rightharpoonup> string"
  ss_Template :: "'q PodTemplate"
  ss_Other :: any

record ServiceSpec =
  sv_Type :: string
  sv_ClusterIP :: string
  sv_Selector :: "string \<rightharpoonup> string"
  sv_Ports :: "(string \<times> int) list"
  sv_PublishNotReady :: bool

type_synonym policyRule = "string list \<times> string list \<times> string list"

text \<open>An object of the cluster; \<open>ob_Controller\<close> is the UID in its controller reference.\<close>

datatype 'q payload =
    Service ServiceSpec
  | ServiceAccount
  | Role "policyRule list"
  | RoleBinding "string \<times> string \<times> string" "(string \<times> string \<times> string) list"
  | StatefulSet "'q StatefulSetSpec"
  | Custom any

record 'q kobject =
  ob_Kind :: string
  ob_Namespace :: string
  ob_Name :: string
  ob_Exists :: bool
  ob_Generation :: int
  ob_Controller :: "string option"
  ob_Payload :: "'q payload"
  ob_Status :: any

definition object_of :: "'q SimpleCache \<Rightarrow> string \<Rightarrow> string \<Rightarrow> 'q payload \<Rightarrow> 'q kobject" where
  "object_of cr kind name p = \<lparr>ob_Kind = kind, ob_Namespace = sc_Namespace cr, ob_Name = name, ob_Exists = False,
     ob_Generation = 0, ob_Controller = None, ob_Payload = p, ob_Status = Null\<rparr>"

definition op_labels :: "'q SimpleCache \<Rightarrow> string \<rightharpoonup> string" where
  "op_labels cr = [''app'' \<mapsto> sc_Name cr]"

definition op_clusterService :: "'q SimpleCache \<Rightarrow> 'q kobject" where
  "op_clusterService cr = object_of cr ''Service'' (sc_Name cr @ ''-svc'')
     (Service \<lparr>sv_Type = ''ClusterIP'', sv_ClusterIP = ''None'', sv_Selector = op_labels cr, sv_Ports = [(''cluster'', 8001)],
               sv_PublishNotReady = False\<rparr>)"

definition apiServiceSpec :: "'q SimpleCache \<Rightarrow> ServiceSpec" where
  "apiServiceSpec cr = \<lparr>sv_Type = ''ClusterIP'', sv_ClusterIP = [], sv_Selector = op_labels cr, sv_Ports = [(''api'', 9999)],
     sv_PublishNotReady = False\<rparr>"

definition apiService :: "'q SimpleCache \<Rightarrow> 'q kobject" where
  "apiService cr = object_of cr ''Service'' (sc_Name cr @ ''-api'') (Service (apiServiceSpec cr))"

definition account :: "'q SimpleCache \<Rightarrow> 'q kobject" where
  "account cr = object_of cr ''ServiceAccount'' (sc_Name cr @ ''-cache'') ServiceAccount"

definition discoveryRole :: "'q SimpleCache \<Rightarrow> 'q kobject" where
  "discoveryRole cr = object_of cr ''Role'' (sc_Name cr @ ''-discovery'')
     (Role [([''discovery.k8s.io''], [''endpointslices''], [''get'', ''list'', ''watch''])])"

definition discoveryBinding :: "'q SimpleCache \<Rightarrow> 'q kobject" where
  "discoveryBinding cr = object_of cr ''RoleBinding'' (sc_Name cr @ ''-discovery'')
     (RoleBinding (''rbac.authorization.k8s.io'', ''Role'', sc_Name cr @ ''-discovery'')
        [(''ServiceAccount'', sc_Name cr @ ''-cache'', sc_Namespace cr)])"

definition container_env :: "'q SimpleCache \<Rightarrow> (string \<times> env_source) list" where
  "container_env cr =
     (let sp = sc_Spec cr; pending = (case sp_SourceMaxPending sp of None \<Rightarrow> 128 | Some p \<Rightarrow> p) in
      [(''POD_NAME'', FieldRef ''metadata.name''), (''POD_NAMESPACE'', FieldRef ''metadata.namespace''),
       (''DISCOVERY_MODE'', Value ''kubernetes''), (''CLUSTER_SERVICE'', Value (sc_Name cr @ ''-svc'')),
       (''CACHE_BYTES'', Value (FormatInt (sp_CacheBytes sp))), (''TTL_SECONDS'', Value (FormatInt (sp_TTLSeconds sp))),
       (''MAX_MISS_WAITERS'', Value (FormatInt (sp_MaxMissWaiters sp))), (''SOURCE_MAX_PENDING'', Value (FormatInt pending)),
       (''WRITE_MAX_CONCURRENCY'', Value (FormatInt (sp_MaxConcurrentWrites sp)))] @
      (if sp_SourceSecret sp \<noteq> []
       then (''SOURCE_MODE'', Value ''postgres'') #
            map (\<lambda>name. (name, SecretKeyRef (sp_SourceSecret sp) name)) [''DATABASE_URL'', ''CACHE_ADMIN_TOKEN'']
       else []))"

definition op_probe :: "string \<Rightarrow> int \<Rightarrow> Probe" where
  "op_probe path failures = \<lparr>pr_Path = path, pr_Port = 9999, pr_Period = 2, pr_Timeout = 1, pr_Failure = failures, pr_Success = 1\<rparr>"

definition cacheContainer :: "'q apimachinery \<Rightarrow> 'q SimpleCache \<Rightarrow> 'q Container" where
  "cacheContainer k cr =
     \<lparr>c_Name = ''cache'', c_Image = sp_Image (sc_Spec cr), c_PullPolicy = ''IfNotPresent'',
      c_Command = [''./geecache-server'', ''-port=8001'', ''-api=true''], c_Args = [], c_Env = container_env cr,
      c_Ports = [(''cluster'', 8001), (''api'', 9999)], c_Resources = resourceDefaults k (sp_Resources (sc_Spec cr)),
      c_Startup = Some (op_probe ''/healthz'' 30), c_Liveness = Some (op_probe ''/healthz'' 3),
      c_Readiness = Some (op_probe ''/readyz'' 3), c_Other = Null\<rparr>"

definition podTemplate :: "'q apimachinery \<Rightarrow> 'q SimpleCache \<Rightarrow> 'q PodTemplate" where
  "podTemplate k cr =
     \<lparr>pt_Labels = op_labels cr,
      pt_Annotations = [''prometheus.io/scrape'' \<mapsto> ''true'', ''prometheus.io/port'' \<mapsto> ''9999'', ''prometheus.io/path'' \<mapsto> ''/metrics''],
      pt_ServiceAccountName = sc_Name cr @ ''-cache'', pt_DeprecatedServiceAccount = [], pt_Grace = Some 10,
      pt_Containers = [cacheContainer k cr], pt_Other = Null\<rparr>"

definition statefulSet :: "'q apimachinery \<Rightarrow> 'q SimpleCache \<Rightarrow> 'q kobject" where
  "statefulSet k cr = object_of cr ''StatefulSet'' (sc_Name cr)
     (StatefulSet \<lparr>ss_Replicas = sp_Size (sc_Spec cr), ss_ServiceName = sc_Name cr @ ''-svc'', ss_PodManagement = ''Parallel'',
                    ss_Selector = op_labels cr, ss_Template = podTemplate k cr, ss_Other = Null\<rparr>)"

section \<open>Templates\<close>

definition merge_container :: "'q Container \<Rightarrow> 'q Container \<Rightarrow> 'q Container" where
  "merge_container wanted c = wanted\<lparr>c_Name := c_Name c, c_Other := c_Other c\<rparr>"

fun merge_containers :: "'q Container \<Rightarrow> 'q Container list \<Rightarrow> 'q Container list" where
  "merge_containers wanted [] = [wanted]"
| "merge_containers wanted (c # cs) =
     (if c_Name c \<noteq> c_Name wanted then c # merge_containers wanted cs else merge_container wanted c # cs)"

text \<open>A desired template without containers is an index panic.\<close>

definition mergeTemplate :: "'q PodTemplate \<Rightarrow> 'q PodTemplate \<Rightarrow> 'q PodTemplate option" where
  "mergeTemplate current desired =
     (case pt_Containers desired of
        [] \<Rightarrow> None
      | wanted # _ \<Rightarrow>
          Some (current\<lparr>pt_Labels := pt_Labels current ++ pt_Labels desired,
                        pt_Annotations := pt_Annotations current ++ pt_Annotations desired,
                        pt_ServiceAccountName := pt_ServiceAccountName desired,
                        pt_DeprecatedServiceAccount := pt_ServiceAccountName desired,
                        pt_Grace := pt_Grace desired,
                        pt_Containers := merge_containers wanted (pt_Containers current)\<rparr>))"

section \<open>Lemmas\<close>

lemma default_spec_idem: "default_spec (default_spec s) = default_spec s"
proof -
  have g: "default_gateway (default_gateway x) = default_gateway x" for x by (simp add: default_gateway_def)
  show ?thesis by (simp add: default_spec_def option.map_comp comp_def g)
qed

lemma operator_defaults_idem: "operator_defaults (operator_defaults cr) = operator_defaults cr"
  by (simp add: operator_defaults_def default_spec_idem)

text \<open>Merging the same template twice changes nothing more, and foreign containers stay as they are.\<close>

lemma merge_containers_idem: "merge_containers w (merge_containers w cs) = merge_containers w cs"
  by (induction cs) (auto simp: merge_container_def)

lemma merge_containers_foreign:
  "filter (\<lambda>c. c_Name c \<noteq> c_Name w) (merge_containers w cs) = filter (\<lambda>c. c_Name c \<noteq> c_Name w) cs"
  by (induction cs) (auto simp: merge_container_def)

lemma merge_containers_owned: "\<exists>c\<in>set (merge_containers w cs). c_Name c = c_Name w \<and> c_Image c = c_Image w \<and> c_Env c = c_Env w"
  by (induction cs) (auto simp: merge_container_def)

lemma mergeTemplate_idem: "mergeTemplate current desired = Some t \<Longrightarrow> mergeTemplate t desired = Some t"
proof -
  have "m ++ n ++ n = m ++ n" for m n :: "string \<rightharpoonup> string" by (rule ext) (simp add: map_add_def split: option.split)
  then show "mergeTemplate current desired = Some t \<Longrightarrow> mergeTemplate t desired = Some t"
    by (auto simp: mergeTemplate_def merge_containers_idem split: list.splits)
qed

text \<open>
  \<open>Cmp\<close> compares by a linear order and \<open>Sign\<close> with zero: \<open>rank\<close> is the number a quantity stands for.
\<close>

definition quantity_laws :: "'q apimachinery \<Rightarrow> ('q \<Rightarrow> int) \<Rightarrow> bool" where
  "quantity_laws k rank \<longleftrightarrow>
     (\<forall>a b. (q_Cmp k a b < 0 \<longleftrightarrow> rank a < rank b) \<and> (q_Cmp k a b > 0 \<longleftrightarrow> rank a > rank b)) \<and>
     (\<forall>a. q_Sign k a < 0 \<longleftrightarrow> rank a < 0) \<and> 0 < rank (MustParse k ''100m'') \<and> 0 < rank (MustParse k ''128Mi'') \<and>
     rank (MustParse k ''128Mi'') \<le> rank (MustParse k ''256Mi'')"

lemma validateRequests_None:
  assumes "quantity_laws k rank"
  shows "validateRequests k limits requests = None \<longleftrightarrow>
    (\<forall>(name, q)\<in>set requests. 0 \<le> rank q \<and> (\<forall>limit. map_of limits name = Some limit \<longrightarrow> rank q \<le> rank limit))"
  using assms by (induction requests) (auto simp: quantity_laws_def not_less split: option.splits if_splits)

lemma validateLimits_None:
  assumes "quantity_laws k rank"
  shows "validateLimits k limits = None \<longleftrightarrow> (\<forall>(name, q)\<in>set limits. 0 \<le> rank q)"
  using assms by (induction limits) (auto simp: quantity_laws_def not_less split: if_splits)

text \<open>What the operator fills in keeps a valid resource request valid: no request above its limit.\<close>

lemma default_request_valid:
  assumes "quantity_laws k rank" "validateRequests k limits requests = None" "validateLimits k limits = None" "0 \<le> rank q"
  shows "validateRequests k limits (default_request k limits (name, q) requests) = None"
proof -
  have pos: "0 \<le> rank limit" if "map_of limits n = Some limit" for n limit
    using assms(3) map_of_SomeD [OF that] by (auto simp: validateLimits_None [OF assms(1)])
  show ?thesis
    using assms(1,2,4) pos unfolding validateRequests_None [OF assms(1)]
    by (auto simp: default_request_def quantity_laws_def not_less split: option.split)
qed

lemma default_request_distinct: "distinct (map fst requests) \<Longrightarrow> distinct (map fst (default_request k limits (name, q) requests))"
  by (auto simp: default_request_def map_of_eq_None_iff)

lemma resourceDefaults_valid:
  assumes "quantity_laws k rank" "validateRequests k (resource_list (rr_Limits input)) (resource_list (rr_Requests input)) = None"
    and "validateLimits k (resource_list (rr_Limits input)) = None" "distinct (map fst (resource_list (rr_Requests input)))"
  shows "validateRequests k (resource_list (rr_Limits (resourceDefaults k input))) (resource_list (rr_Requests (resourceDefaults k input))) = None"
proof -
  let ?l = "resource_list (rr_Limits input)" and ?d = "[(''cpu'', MustParse k ''100m''), (''memory'', MustParse k ''128Mi'')]"
  let ?r = "fold (default_request k ?l) ?d (resource_list (rr_Requests input))"
  have p: "0 \<le> rank (MustParse k ''100m'')" "0 \<le> rank (MustParse k ''128Mi'')" using assms(1) by (auto simp: quantity_laws_def)
  have r: "validateRequests k ?l ?r = None" by (simp add: default_request_valid [OF assms(1) _ assms(3)] assms(2) p)
  show ?thesis
  proof (cases "map_of ?l ''memory''")
    case (Some limit)
    then show ?thesis using r by (simp add: resourceDefaults_def resource_list_def Let_def)
  next
    case None
    define q where "q = the (map_of ?r ''memory'')"
    define m where "m = (if q_Cmp k q (MustParse k ''256Mi'') > 0 then q else MustParse k ''256Mi'')"
    have lim: "resource_list (rr_Limits (resourceDefaults k input)) = ?l @ [(''memory'', m)]"
      "resource_list (rr_Requests (resourceDefaults k input)) = ?r"
      using None by (simp_all add: resourceDefaults_def resource_list_def [of "Some _"] Let_def m_def q_def)
    have "distinct (map fst ?r)" by (simp add: default_request_distinct assms(4))
    then have "rank x \<le> rank m" if "(''memory'', x) \<in> set ?r" for x
      using map_of_is_SomeI [OF _ that] assms(1) by (auto simp: m_def q_def quantity_laws_def not_less)
    then show ?thesis
      using r unfolding lim validateRequests_None [OF assms(1)] by (auto simp: map_add_def split: option.splits if_splits)
  qed
qed

end
