(* ===== verification/Operator_Env.thy ===== *)
theory Operator_Env
  imports Operator_Spec App_Config
begin

text \<open>
  Where the operator meets the engine: the environment of the container the operator asks for is the
  environment \<open>FromEnv\<close> of the cache server reads. How the kubelet turns an entry into a string is a
  function with the documented behaviour as a hypothesis.
\<close>

section \<open>The environment of a container\<close>

definition process_env :: "(env_source \<Rightarrow> string) \<Rightarrow> (string \<times> env_source) list \<Rightarrow> string \<Rightarrow> string" where
  "process_env resolve entries name = (case map_of entries name of None \<Rightarrow> [] | Some source \<Rightarrow> resolve source)"

text \<open>
  A literal value without \<open>$\<close> is taken as it is, the fields are the Pod's name and namespace, and the
  Secret has a nonempty string under every key.
\<close>

definition kubelet_laws :: "(env_source \<Rightarrow> string) \<Rightarrow> string \<Rightarrow> string \<Rightarrow> bool" where
  "kubelet_laws resolve namespace pod \<longleftrightarrow>
     (\<forall>s. CHR ''$'' \<notin> set s \<longrightarrow> resolve (Value s) = s) \<and> resolve (FieldRef ''metadata.name'') = pod \<and>
     resolve (FieldRef ''metadata.namespace'') = namespace \<and> (\<forall>secret key. resolve (SecretKeyRef secret key) \<noteq> [])"

text \<open>A label consists of lower-case letters, digits and hyphens.\<close>

definition label_char :: "char \<Rightarrow> bool" where
  "label_char c \<longleftrightarrow> isLower c \<or> isDigit c \<or> c = CHR ''-''"

definition dns_laws :: "'q apimachinery \<Rightarrow> bool" where
  "dns_laws k \<longleftrightarrow> (\<forall>s. IsDNS1035Label k s \<longrightarrow> list_all label_char s)"

definition pod_identity :: "string \<Rightarrow> bool" where
  "pod_identity s \<longleftrightarrow> s \<noteq> [] \<and> CHR ''/'' \<notin> set s"

lemma validateSpec_bounds:
  assumes "validateSpec k cr = None"
  shows "IsDNS1035Label k (sc_Name cr)" "2 ^ 20 \<le> sp_CacheBytes (sc_Spec cr) \<and> sp_CacheBytes (sc_Spec cr) \<le> 128 * 2 ^ 20"
    "1 \<le> sp_TTLSeconds (sc_Spec cr) \<and> sp_TTLSeconds (sc_Spec cr) \<le> 3600"
    "1 \<le> sp_MaxMissWaiters (sc_Spec cr) \<and> sp_MaxMissWaiters (sc_Spec cr) \<le> 4096"
    "1 \<le> sp_MaxConcurrentWrites (sc_Spec cr) \<and> sp_MaxConcurrentWrites (sc_Spec cr) \<le> 256"
    "sp_SourceMaxPending (sc_Spec cr) = Some p \<Longrightarrow> 0 \<le> p \<and> p \<le> 4096"
  using assms unfolding validateSpec_def Let_def by (simp_all add: not_less split: if_splits option.splits)

lemma FormatInt_plain: "0 \<le> n \<Longrightarrow> CHR ''$'' \<notin> set (FormatInt n)"
  using FormatInt_digits [of n "CHR ''$''"] by (auto simp: isDigit_def)

lemma FormatInt_not_empty: "FormatInt n \<noteq> []"
  by (simp add: FormatInt_def)

lemma bindInt_ok:
  assumes "env name = FormatInt n" "int64 n" "zero \<longrightarrow> n \<noteq> 0"
  shows "bindInt env name zero set_field c = (set_field n c, None)"
  using assms FormatInt_not_empty [of n] ParseInt_FormatInt [OF assms(2)] by (auto simp: bindInt_def Atoi_def)

lemma bindInt_absent: "env name = [] \<Longrightarrow> bindInt env name zero set_field c = (c, None)"
  by (simp add: bindInt_def)

lemma bindTTL_ok:
  assumes "env ''TTL_SECONDS'' = FormatInt n" "1 \<le> n" "n \<le> 3600"
  shows "bindTTL env c = (c\<lparr>cfg_TTL := n * Second\<rparr>, None)"
proof -
  have "int64 n" "int64 (n * Second)" using assms(2,3) by (auto simp: int64_def Second_def Millisecond_def)
  then show ?thesis
    using assms FormatInt_not_empty [of n] ParseInt_FormatInt [of n]
    by (simp add: bindTTL_def ParseDuration_seconds_def Second_def Millisecond_def)
qed

section \<open>The server accepts what the operator writes\<close>

definition operator_env :: "(env_source \<Rightarrow> string) \<Rightarrow> 'q apimachinery \<Rightarrow> 'q SimpleCache \<Rightarrow> string \<Rightarrow> string" where
  "operator_env resolve k cr = process_env resolve (c_Env (cacheContainer k cr))"

lemma operator_env_values:
  assumes "kubelet_laws resolve namespace pod" "dns_laws k" "validateSpec k cr = None" "sp_SourceMaxPending (sc_Spec cr) = Some p"
  shows "operator_env resolve k cr ''POD_NAME'' = pod" "operator_env resolve k cr ''POD_NAMESPACE'' = namespace"
    "operator_env resolve k cr ''DISCOVERY_MODE'' = ''kubernetes''"
    "operator_env resolve k cr ''CLUSTER_SERVICE'' = sc_Name cr @ ''-svc''"
    "operator_env resolve k cr ''CACHE_BYTES'' = FormatInt (sp_CacheBytes (sc_Spec cr))"
    "operator_env resolve k cr ''TTL_SECONDS'' = FormatInt (sp_TTLSeconds (sc_Spec cr))"
    "operator_env resolve k cr ''MAX_MISS_WAITERS'' = FormatInt (sp_MaxMissWaiters (sc_Spec cr))"
    "operator_env resolve k cr ''SOURCE_MAX_PENDING'' = FormatInt p"
    "operator_env resolve k cr ''WRITE_MAX_CONCURRENCY'' = FormatInt (sp_MaxConcurrentWrites (sc_Spec cr))"
    "operator_env resolve k cr ''SOURCE_MODE'' = (if sp_SourceSecret (sc_Spec cr) = [] then [] else ''postgres'')"
    "sp_SourceSecret (sc_Spec cr) \<noteq> [] \<Longrightarrow> operator_env resolve k cr ''DATABASE_URL'' \<noteq> []"
    "sp_SourceSecret (sc_Spec cr) \<noteq> [] \<Longrightarrow> operator_env resolve k cr ''CACHE_ADMIN_TOKEN'' \<noteq> []"
proof -
  note b = validateSpec_bounds [OF assms(3)]
  have "\<not> label_char (CHR ''$'')" by (simp add: label_char_def isLower_def isDigit_def code_def)
  then have "CHR ''$'' \<notin> set (sc_Name cr)" using b(1) assms(2) unfolding dns_laws_def list_all_iff by blast
  then have svc: "CHR ''$'' \<notin> set (sc_Name cr @ ''-svc'')" by simp
  have num: "CHR ''$'' \<notin> set (FormatInt (sp_CacheBytes (sc_Spec cr)))" "CHR ''$'' \<notin> set (FormatInt (sp_TTLSeconds (sc_Spec cr)))"
    "CHR ''$'' \<notin> set (FormatInt (sp_MaxMissWaiters (sc_Spec cr)))" "CHR ''$'' \<notin> set (FormatInt p)"
    "CHR ''$'' \<notin> set (FormatInt (sp_MaxConcurrentWrites (sc_Spec cr)))"
    using b(2-5) b(6) [OF assms(4)] by (auto intro!: FormatInt_plain)
  have lit: "resolve (Value s) = s" if "CHR ''$'' \<notin> set s" for s using assms(1) that by (simp add: kubelet_laws_def)
  have ref: "resolve (FieldRef ''metadata.name'') = pod" "resolve (FieldRef ''metadata.namespace'') = namespace"
    "resolve (SecretKeyRef s key) \<noteq> []" for s key using assms(1) by (auto simp: kubelet_laws_def)
  note ev = operator_env_def process_env_def cacheContainer_def container_env_def Let_def assms(4)
  show "operator_env resolve k cr ''POD_NAME'' = pod" "operator_env resolve k cr ''POD_NAMESPACE'' = namespace"
    "operator_env resolve k cr ''DISCOVERY_MODE'' = ''kubernetes''"
    "operator_env resolve k cr ''CLUSTER_SERVICE'' = sc_Name cr @ ''-svc''"
    "operator_env resolve k cr ''CACHE_BYTES'' = FormatInt (sp_CacheBytes (sc_Spec cr))"
    "operator_env resolve k cr ''TTL_SECONDS'' = FormatInt (sp_TTLSeconds (sc_Spec cr))"
    "operator_env resolve k cr ''MAX_MISS_WAITERS'' = FormatInt (sp_MaxMissWaiters (sc_Spec cr))"
    "operator_env resolve k cr ''SOURCE_MAX_PENDING'' = FormatInt p"
    "operator_env resolve k cr ''WRITE_MAX_CONCURRENCY'' = FormatInt (sp_MaxConcurrentWrites (sc_Spec cr))"
    "operator_env resolve k cr ''SOURCE_MODE'' = (if sp_SourceSecret (sc_Spec cr) = [] then [] else ''postgres'')"
    "sp_SourceSecret (sc_Spec cr) \<noteq> [] \<Longrightarrow> operator_env resolve k cr ''DATABASE_URL'' \<noteq> []"
    "sp_SourceSecret (sc_Spec cr) \<noteq> [] \<Longrightarrow> operator_env resolve k cr ''CACHE_ADMIN_TOKEN'' \<noteq> []"
    using svc num lit ref by (simp_all add: ev)
qed

lemma operator_env_absent:
  "name \<notin> {''POD_NAME'', ''POD_NAMESPACE'', ''DISCOVERY_MODE'', ''CLUSTER_SERVICE'', ''CACHE_BYTES'', ''TTL_SECONDS'', ''MAX_MISS_WAITERS'',
     ''SOURCE_MAX_PENDING'', ''WRITE_MAX_CONCURRENCY'', ''SOURCE_MODE'', ''DATABASE_URL'', ''CACHE_ADMIN_TOKEN''} \<Longrightarrow>
   operator_env resolve k cr name = []"
  by (auto simp: operator_env_def process_env_def cacheContainer_def container_env_def Let_def)

lemma bindIdentity_kubernetes:
  assumes "cfg_DiscoveryMode c = ''kubernetes''" "env ''POD_NAME'' \<noteq> []"
  shows "bindIdentity bracketed unicode env port c = (c\<lparr>cfg_SelfID := cfg_Namespace c @ ''/'' @ env ''POD_NAME''\<rparr>, None)"
  using assms by (simp add: bindIdentity_def)

text \<open>The configuration the server ends up with.\<close>

definition operator_config :: "(string \<Rightarrow> string) \<Rightarrow> 'q SimpleCache \<Rightarrow> int \<Rightarrow> string \<Rightarrow> string \<Rightarrow> Config" where
  "operator_config env cr p namespace pod =
     \<lparr>cfg_ClusterAddr = ''0.0.0.0:8001'', cfg_APIAddr = ''0.0.0.0:9999'', cfg_SelfID = namespace @ ''/'' @ pod,
      cfg_DiscoveryMode = ''kubernetes'', cfg_Namespace = namespace, cfg_ClusterService = sc_Name cr @ ''-svc'', cfg_API = True,
      cfg_CacheBytes = sp_CacheBytes (sc_Spec cr), cfg_TTL = sp_TTLSeconds (sc_Spec cr) * Second, cfg_SourceConcurrency = 32,
      cfg_SourceMaxPending = p, cfg_MaxMissWaiters = sp_MaxMissWaiters (sc_Spec cr),
      cfg_WriteConcurrency = sp_MaxConcurrentWrites (sc_Spec cr), cfg_Members = [], cfg_DebugAddr = [], cfg_ProfileContention = False,
      cfg_SourceMode = (if sp_SourceSecret (sc_Spec cr) = [] then ''demo'' else ''postgres''),
      cfg_DatabaseURL = env ''DATABASE_URL'', cfg_AdminToken = env ''CACHE_ADMIN_TOKEN''\<rparr>"

lemma operator_listeners: "validateListenAddr ''0.0.0.0:8001'' = None" "validateListenAddr ''0.0.0.0:9999'' = None"
  by (simp_all add: validateListenAddr_def SplitHostPort_def lastIndex_def Atoi_def ParseInt_def isDigit_def digitsVal_def digitVal_def)

lemma operator_config_valid:
  assumes "validateSpec k cr = None" "sp_SourceMaxPending (sc_Spec cr) = Some p" "pod_identity namespace" "pod_identity pod"
    and "sp_SourceSecret (sc_Spec cr) \<noteq> [] \<Longrightarrow> env ''DATABASE_URL'' \<noteq> [] \<and> env ''CACHE_ADMIN_TOKEN'' \<noteq> []"
  shows "Validate bracketed unicode (operator_config env cr p namespace pod) = None"
    "validateSourceConfig (operator_config env cr p namespace pod) = None"
proof -
  let ?c = "operator_config env cr p namespace pod"
  note b = validateSpec_bounds [OF assms(1)] validateSpec_bounds(6) [OF assms(1,2)]
  have "Cut (CHR ''/'') (namespace @ CHR ''/'' # pod) = (namespace, pod, True)"
    using assms(3) by (intro Cut_found) (simp add: pod_identity_def)
  then have d: "validateDiscovery ?c = None"
    using assms(3,4) by (simp add: validateDiscovery_def operator_config_def pod_identity_def)
  have ttl: "sp_TTLSeconds (sc_Spec cr) * Second \<le> Hour" "0 \<le> sp_TTLSeconds (sc_Spec cr) * Second"
    using b(3) by (auto simp: Hour_def Minute_def Second_def Millisecond_def)
  show "Validate bracketed unicode ?c = None"
    unfolding Validate_def d using b(2,4,5) b(7) ttl operator_listeners
    by (simp add: operator_config_def validateDebugAddr_def not_less)
  show "validateSourceConfig ?c = None" using assms(5) by (simp add: validateSourceConfig_def operator_config_def)
qed

lemma FromEnv_operator:
  assumes "kubelet_laws resolve namespace pod" "dns_laws k" "validateSpec k cr = None" "sp_SourceMaxPending (sc_Spec cr) = Some p"
    and "pod_identity namespace" "pod_identity pod"
  shows "FromEnv bracketed unicode (operator_env resolve k cr) 8001 True =
    (operator_config (operator_env resolve k cr) cr p namespace pod, None)"
proof -
  let ?env = "operator_env resolve k cr"
  note v = operator_env_values [OF assms(1-4)] and b = validateSpec_bounds [OF assms(3)] validateSpec_bounds(6) [OF assms(3,4)]
  have old: "find (\<lambda>old. ?env old \<noteq> []) removedSettings = None"
    by (simp add: removedSettings_def operator_env_absent)
  have absent: "?env ''API_ADDR'' = []" "?env ''SOURCE_MAX_CONCURRENCY'' = []" "?env ''DEBUG_ADDR'' = []"
    by (simp_all add: operator_env_absent)
  have i64: "int64 (sp_CacheBytes (sc_Spec cr))" "int64 (sp_MaxMissWaiters (sc_Spec cr))" "int64 p" "int64 (sp_MaxConcurrentWrites (sc_Spec cr))"
    using b(2,4,5) b(7) by (auto simp: int64_def)
  have "map digit [8, 0, 0, 1] = ''8001''" by code_simp
  then have port: "FormatInt 8001 = ''8001''" by (simp add: FormatInt_def decimal.simps)
  have pod: "?env ''POD_NAME'' \<noteq> []" using v(1) assms(6) by (simp add: pod_identity_def)
  have ok: "Validate bracketed unicode (operator_config ?env cr p namespace pod) = None"
    "validateSourceConfig (operator_config ?env cr p namespace pod) = None"
    using operator_config_valid [OF assms(3,4,5,6)] v(11,12) by blast+
  have nz: "sp_MaxMissWaiters (sc_Spec cr) \<noteq> 0" "sp_MaxConcurrentWrites (sc_Spec cr) \<noteq> 0" using b(4,5) by auto
  have ints: "bindInt ?env ''CACHE_BYTES'' False f c = (f (sp_CacheBytes (sc_Spec cr)) c, None)"
    "bindInt ?env ''SOURCE_MAX_CONCURRENCY'' False f c = (c, None)" "bindInt ?env ''SOURCE_MAX_PENDING'' False f c = (f p c, None)"
    "bindInt ?env ''MAX_MISS_WAITERS'' True f c = (f (sp_MaxMissWaiters (sc_Spec cr)) c, None)"
    "bindInt ?env ''WRITE_MAX_CONCURRENCY'' True f c = (f (sp_MaxConcurrentWrites (sc_Spec cr)) c, None)" for f c
    using v(5,7,8,9) i64 nz absent(2) by (simp_all add: bindInt_ok [where env = ?env] bindInt_absent)
  have ttl: "bindTTL ?env c = (c\<lparr>cfg_TTL := sp_TTLSeconds (sc_Spec cr) * Second\<rparr>, None)" for c
    using bindTTL_ok [where env = ?env, OF v(6)] b(3) by simp
  show ?thesis
    unfolding FromEnv_def old option.case cfg_then_def bindModes_def defaultConfig_def
    using ok [unfolded operator_config_def]
    by (cases "sp_SourceSecret (sc_Spec cr) = []")
      (simp_all add: v(1-4,10) absent port ints ttl bindIdentity_kubernetes [where env = ?env, OF _ pod] operator_config_def)
qed

text \<open>
  C37: the operator never starts a server that refuses its settings. Whatever custom resource passes
  the operator's validation after defaulting, the cache server accepts the environment of the
  container the operator asks for, and runs with exactly the sizes, budgets, mode and identity
  the resource asks for, provided the Pod has a name and namespace and the Secret nonempty entries.
\<close>

theorem operator_env_accepted:
  assumes "validateSpec k (operator_defaults cr) = None" "dns_laws k" "kubelet_laws resolve namespace pod"
    and "pod_identity namespace" "pod_identity pod"
  shows "case FromEnv bracketed unicode (process_env resolve (c_Env (cacheContainer k (operator_defaults cr)))) 8001 True of (c, err) \<Rightarrow>
    err = None \<and> cfg_SelfID c = namespace @ ''/'' @ pod \<and> cfg_ClusterService c = sc_Name cr @ ''-svc'' \<and>
    (let sp = sc_Spec (operator_defaults cr) in
     cfg_CacheBytes c = sp_CacheBytes sp \<and> cfg_TTL c = sp_TTLSeconds sp * Second \<and> cfg_MaxMissWaiters c = sp_MaxMissWaiters sp \<and>
     Some (cfg_SourceMaxPending c) = sp_SourceMaxPending sp \<and> cfg_WriteConcurrency c = sp_MaxConcurrentWrites sp \<and>
     cfg_SourceMode c = (if sp_SourceSecret sp = [] then ''demo'' else ''postgres''))"
proof -
  obtain p where p: "sp_SourceMaxPending (sc_Spec (operator_defaults cr)) = Some p"
    by (cases "sp_SourceMaxPending (sc_Spec cr)") (auto simp: operator_defaults_def default_spec_def)
  have "sc_Name (operator_defaults cr) = sc_Name cr" by (simp add: operator_defaults_def)
  with FromEnv_operator [OF assms(3,2,1) p assms(4,5), of bracketed unicode, unfolded operator_env_def] p show ?thesis
    by (simp add: operator_config_def Let_def)
qed

text \<open>A resource with a Secret and everything else left to the defaults.\<close>

definition sample_apimachinery :: "int apimachinery" where
  "sample_apimachinery = \<lparr>IsDNS1035Label = list_all label_char, IsDNS1123Label = list_all label_char,
     IsDNS1123Subdomain = list_all (\<lambda>c. label_char c \<or> c = CHR ''.''), q_Sign = sgn, q_Cmp = (\<lambda>a b. sgn (a - b)), MustParse = (\<lambda>_. 1)\<rparr>"

definition sample_cache :: "int SimpleCache" where
  "sample_cache = \<lparr>sc_Name = ''shop'', sc_Namespace = ''prod'', sc_UID = ''u1'', sc_Generation = 1, sc_Deleting = False,
     sc_Spec = \<lparr>sp_Gateway = None, sp_Size = 0, sp_Image = ''cache:v1'', sp_SourceSecret = ''db'', sp_CacheBytes = 0, sp_TTLSeconds = 0,
                sp_MaxMissWaiters = 0, sp_SourceMaxPending = None, sp_MaxConcurrentWrites = 0,
                sp_Resources = \<lparr>rr_Requests = None, rr_Limits = None\<rparr>\<rparr>,
     sc_Status = \<lparr>st_ObservedGeneration = 0, st_ReadyReplicas = 0, st_Conditions = []\<rparr>\<rparr>"

definition sample_resolve :: "env_source \<Rightarrow> string" where
  "sample_resolve e = (case e of Value s \<Rightarrow> s | FieldRef f \<Rightarrow> if f = ''metadata.name'' then ''shop-0'' else ''prod'' | SecretKeyRef _ key \<Rightarrow> ''secret'')"

lemma sample_cache_valid: "validateSpec sample_apimachinery (operator_defaults sample_cache) = None"
proof -
  have "list_all label_char ''shop''" "list_all (\<lambda>c. label_char c \<or> c = CHR ''.'') ''db''" by code_simp+
  moreover have "TrimSpace ''cache:v1'' = ''cache:v1''" by (rule TrimSpace_id) (simp_all add: spaces_def byteString_def eq_commute [of "CHR ''c''"] eq_commute [of "CHR ''1''"] char_of_eq_iff take_bit_eq_mod)
  ultimately show ?thesis
    by (simp add: sample_apimachinery_def sample_cache_def operator_defaults_def default_spec_def validateSpec_def validateGateway_def
        resource_list_def Let_def)
qed

theorem operator_env_accepted_witness:
  "case FromEnv (\<lambda>_. None) (\<lambda>s. s) (process_env sample_resolve (c_Env (cacheContainer sample_apimachinery (operator_defaults sample_cache)))) 8001 True of
     (c, err) \<Rightarrow> err = None \<and> cfg_SelfID c = ''prod/shop-0'' \<and> cfg_SourceMode c = ''postgres'' \<and> cfg_TTL c = 60 * Second"
proof -
  have "dns_laws sample_apimachinery" "kubelet_laws sample_resolve ''prod'' ''shop-0''" "pod_identity ''prod''" "pod_identity ''shop-0''"
    by (simp_all add: dns_laws_def sample_apimachinery_def kubelet_laws_def sample_resolve_def pod_identity_def)
  from operator_env_accepted [OF sample_cache_valid this, of "\<lambda>_. None" "\<lambda>s. s"] show ?thesis
    by (auto simp: operator_defaults_def default_spec_def sample_cache_def Let_def)
qed

end
