(* ===== verification/Operator.thy ===== *)
theory Operator
  imports Operator_Env
begin

text \<open>
  The reconciler of the operator (\<open>internal/controller/simplecache_controller.go\<close>, \<open>gateway.go\<close>). The
  Kubernetes client and the helpers of controller-runtime and apimachinery are a record of functions
  on an unspecified cluster state \<open>'w\<close>; an operation returns an error or a value, and the cluster after it.
  A panic is an error that no handler of this code sees: it leaves \<open>Reconcile\<close> at once.
\<close>

section \<open>Client and effects\<close>

datatype kerror = NotFound string | OwnershipConflict string | Failed string | Panic string

fun kmessage :: "kerror \<Rightarrow> string" where
  "kmessage (NotFound m) = m"
| "kmessage (OwnershipConflict m) = m"
| "kmessage (Failed m) = m"
| "kmessage (Panic m) = m"

type_synonym key = "string \<times> string \<times> string"

definition key_of :: "'q kobject \<Rightarrow> key" where
  "key_of ob = (ob_Kind ob, ob_Namespace ob, ob_Name ob)"

record StatefulSetStatus =
  ts_ObservedGeneration :: int
  ts_ReadyReplicas :: int
  ts_UpdatedReplicas :: int
  ts_CurrentRevision :: string
  ts_UpdateRevision :: string

type_synonym ('w, 'a) kop = "'w \<Rightarrow> (kerror + 'a) \<times> 'w"

record ('q, 'w) kube =
  k_GetCR :: "string \<Rightarrow> string \<Rightarrow> 'w \<Rightarrow> kerror + 'q SimpleCache"
  k_Get :: "key \<Rightarrow> 'w \<Rightarrow> kerror + 'q kobject"
  k_GetStatefulSet :: "string \<Rightarrow> string \<Rightarrow> 'w \<Rightarrow> kerror + int \<times> StatefulSetStatus"
  k_ListServices :: "string \<Rightarrow> 'w \<Rightarrow> kerror + 'q kobject list"
  k_CreateOrUpdate :: "'q kobject \<Rightarrow> ('q kobject \<Rightarrow> kerror + 'q kobject) \<Rightarrow> ('w, unit) kop"
  k_Delete :: "'q kobject \<Rightarrow> ('w, unit) kop"
  k_PatchStatus :: "'q SimpleCache \<Rightarrow> 'q SimpleCache \<Rightarrow> ('w, unit) kop"
  k_SetControllerReference :: "'q SimpleCache \<Rightarrow> 'q kobject \<Rightarrow> kerror + 'q kobject"
  k_SetStatusCondition :: "Condition list \<Rightarrow> Condition \<Rightarrow> Condition list"
  k_NestedSlice :: "any \<Rightarrow> string list \<Rightarrow> any list"
  k_NestedString :: "any \<Rightarrow> string list \<Rightarrow> string"

record ('q, 'w) SimpleCacheReconciler =
  rc_Client :: "('q, 'w) kube"
  EnableGateway :: bool

definition kret :: "'a \<Rightarrow> ('w, 'a) kop" where
  "kret x w = (Inr x, w)"

definition kread :: "('w \<Rightarrow> kerror + 'a) \<Rightarrow> ('w, 'a) kop" where
  "kread g w = (g w, w)"

definition kbind :: "('w, 'a) kop \<Rightarrow> ('a \<Rightarrow> ('w, 'b) kop) \<Rightarrow> ('w, 'b) kop" where
  "kbind m f w = (case m w of (Inl e, w') \<Rightarrow> (Inl e, w') | (Inr x, w') \<Rightarrow> f x w')"

text \<open>\<open>client.IgnoreNotFound\<close> on the error of an operation.\<close>

definition IgnoreNotFound :: "kerror \<Rightarrow> kerror option" where
  "IgnoreNotFound e = (case e of NotFound _ \<Rightarrow> None | _ \<Rightarrow> Some e)"

definition kignore :: "('w, unit) kop \<Rightarrow> ('w, unit) kop" where
  "kignore m w = (case m w of
     (Inl e, w') \<Rightarrow> (case IgnoreNotFound e of None \<Rightarrow> (Inr (), w') | Some e' \<Rightarrow> (Inl e', w'))
   | (Inr x, w') \<Rightarrow> (Inr x, w'))"

fun kfor :: "('a \<Rightarrow> ('w, unit) kop) \<Rightarrow> 'a list \<Rightarrow> ('w, unit) kop" where
  "kfor f [] = kret ()"
| "kfor f (x # xs) = kbind (f x) (\<lambda>_. kfor f xs)"

definition IsControlledBy :: "'q kobject \<Rightarrow> 'q SimpleCache \<Rightarrow> bool" where
  "IsControlledBy ob cr \<longleftrightarrow> ob_Controller ob = Some (sc_UID cr)"

section \<open>Gateway objects\<close>

definition backendPolicyKind :: string where "backendPolicyKind = ''BackendTrafficPolicy''"

definition gatewayController :: string where "gatewayController = ''gateway.envoyproxy.io/gatewayclass-controller''"

definition gatewayKinds :: "(string \<times> string \<times> string) list" where
  "gatewayKinds =
     [(''gateway.networking.k8s.io'', ''v1'', ''Gateway''), (''gateway.networking.k8s.io'', ''v1'', ''HTTPRoute''),
      (''gateway.envoyproxy.io'', ''v1alpha1'', ''EnvoyProxy''), (''gateway.envoyproxy.io'', ''v1alpha1'', ''Backend''),
      (''gateway.envoyproxy.io'', ''v1alpha1'', backendPolicyKind)]"

text \<open>The pinned kinds have distinct names, so the kind alone stands for group, version and kind.\<close>

definition gatewayObject :: "string \<times> string \<times> string \<Rightarrow> string \<Rightarrow> string \<Rightarrow> 'q kobject" where
  "gatewayObject gvk namespace name = \<lparr>ob_Kind = snd (snd gvk), ob_Namespace = namespace, ob_Name = name, ob_Exists = False,
     ob_Generation = 0, ob_Controller = None, ob_Payload = Custom Null, ob_Status = Null\<rparr>"

definition gatewayResource :: "'q SimpleCache \<Rightarrow> string \<Rightarrow> any \<Rightarrow> kerror + 'q kobject" where
  "gatewayResource cr kind spec =
     (case find (\<lambda>gvk. snd (snd gvk) = kind) gatewayKinds of
        Some gvk \<Rightarrow> Inr ((gatewayObject gvk (sc_Namespace cr) (sc_Name cr))\<lparr>ob_Payload := Custom spec\<rparr>)
      | None \<Rightarrow> Inl (Panic ''unknown gateway kind''))"

definition shardService :: "'q SimpleCache \<Rightarrow> int \<Rightarrow> 'q kobject" where
  "shardService cr ordinal =
     (apiService cr)\<lparr>ob_Name := sc_Name cr @ ''-shard-'' @ FormatInt ordinal,
       ob_Payload := Service ((apiServiceSpec cr)\<lparr>sv_Selector :=
         (sv_Selector (apiServiceSpec cr))(''statefulset.kubernetes.io/pod-name'' \<mapsto> sc_Name cr @ ''-'' @ FormatInt ordinal)\<rparr>)\<rparr>"

definition envoyProxySpec :: "int \<Rightarrow> any" where
  "envoyProxySpec replicas = Obj [(''provider'', Obj [(''type'', Str ''Kubernetes''), (''kubernetes'', Obj
     [(''envoyDeployment'', Obj [(''replicas'', Num replicas)]), (''envoyService'', Obj [(''type'', Str ''ClusterIP'')])])])]"

definition backendSpec :: "string list \<Rightarrow> any" where
  "backendSpec ips = Obj [(''endpoints'', Arr (map (\<lambda>ip. Obj [(''ip'', Obj [(''address'', Str ip), (''port'', Num 9999)])]) ips))]"

definition gatewaySpec :: "string \<Rightarrow> string \<Rightarrow> any" where
  "gatewaySpec className name = Obj
     [(''gatewayClassName'', Str className),
      (''infrastructure'', Obj [(''parametersRef'',
         Obj [(''group'', Str ''gateway.envoyproxy.io''), (''kind'', Str ''EnvoyProxy''), (''name'', Str name)])]),
      (''listeners'', Arr [Obj [(''name'', Str ''http''), (''protocol'', Str ''HTTP''), (''port'', Num 80),
         (''allowedRoutes'', Obj [(''namespaces'', Obj [(''from'', Str ''Same'')])])]])]"

definition routeSpec :: "string \<Rightarrow> any" where
  "routeSpec name = Obj
     [(''parentRefs'', Arr [Obj [(''name'', Str name), (''sectionName'', Str ''http'')]]),
      (''rules'', Arr [Obj
        [(''matches'', Arr [Obj [(''path'', Obj [(''type'', Str ''Exact''), (''value'', Str ''/api'')])],
                          Obj [(''path'', Obj [(''type'', Str ''Exact''), (''value'', Str ''/invalidate'')])]]),
         (''backendRefs'', Arr [Obj [(''group'', Str ''gateway.envoyproxy.io''), (''kind'', Str ''Backend''), (''name'', Str name)]])]])]"

definition policySpec :: "string \<Rightarrow> any" where
  "policySpec name = Obj
     [(''targetRefs'', Arr [Obj [(''group'', Str ''gateway.networking.k8s.io''), (''kind'', Str ''HTTPRoute''), (''name'', Str name)]]),
      (''loadBalancer'', Obj [(''type'', Str ''ConsistentHash''), (''consistentHash'', Obj
         [(''type'', Str ''QueryParams''), (''queryParams'', Arr [Obj [(''name'', Str ''key'')]]), (''tableSize'', Num 65537)])]),
      (''healthCheck'', Obj [(''active'', Obj
         [(''type'', Str ''HTTP''), (''interval'', Str ''2s''), (''timeout'', Str ''1s''), (''healthyThreshold'', Num 1), (''unhealthyThreshold'', Num 1),
          (''http'', Obj [(''path'', Str ''/readyz''), (''method'', Str ''GET''), (''expectedStatuses'', Arr [Num 200])])])])]"

fun collect :: "(kerror + 'a) list \<Rightarrow> kerror + 'a list" where
  "collect [] = Inr []"
| "collect (Inl e # _) = Inl e"
| "collect (Inr x # rest) = (case collect rest of Inl e \<Rightarrow> Inl e | Inr xs \<Rightarrow> Inr (x # xs))"

text \<open>Only called on a resource with a gateway section; without one the code dereferences nil.\<close>

definition gatewayResources :: "'q SimpleCache \<Rightarrow> string list \<Rightarrow> kerror + 'q kobject list" where
  "gatewayResources cr ips =
     (case sp_Gateway (sc_Spec cr) of
        None \<Rightarrow> Inl (Panic ''nil pointer dereference'')
      | Some g \<Rightarrow> collect
          [gatewayResource cr ''EnvoyProxy'' (envoyProxySpec (gw_Replicas g)), gatewayResource cr ''Backend'' (backendSpec ips),
           gatewayResource cr ''Gateway'' (gatewaySpec (gw_ClassName g) (sc_Name cr)), gatewayResource cr ''HTTPRoute'' (routeSpec (sc_Name cr)),
           gatewayResource cr backendPolicyKind (policySpec (sc_Name cr))])"

definition member :: "(string \<times> any) list \<Rightarrow> string \<Rightarrow> any" where
  "member a k = (case map_of a k of None \<Rightarrow> Null | Some v \<Rightarrow> v)"

fun desiredSubset :: "any \<Rightarrow> any \<Rightarrow> bool" and subset_members :: "(string \<times> any) list \<Rightarrow> (string \<times> any) list \<Rightarrow> bool"
  and subset_items :: "any list \<Rightarrow> any list \<Rightarrow> bool" where
  "desiredSubset actual (Obj d) = (case actual of Obj a \<Rightarrow> subset_members a d | _ \<Rightarrow> False)"
| "desiredSubset actual (Arr d) = (case actual of Arr a \<Rightarrow> length a = length d \<and> subset_items a d | _ \<Rightarrow> False)"
| "desiredSubset actual desired = (actual = desired)"
| "subset_members a [] = True"
| "subset_members a ((k, v) # d) = (desiredSubset (member a k) v \<and> subset_members a d)"
| "subset_items (x # a) (y # d) = (desiredSubset x y \<and> subset_items a d)"
| "subset_items _ _ = True"

section \<open>Conditions\<close>

text \<open>The JSON document of an unstructured object, as far as it is read.\<close>

definition object_json :: "'q kobject \<Rightarrow> any" where
  "object_json ob = Obj [(''spec'', case ob_Payload ob of Custom spec \<Rightarrow> spec | _ \<Rightarrow> Null), (''status'', ob_Status ob)]"

definition condition_holds :: "string \<Rightarrow> int \<Rightarrow> any \<Rightarrow> bool" where
  "condition_holds kind generation raw =
     (case raw of
        Obj c \<Rightarrow> member c ''type'' = Str kind \<and> member c ''status'' = Str ''True'' \<and> member c ''observedGeneration'' = Num generation
      | _ \<Rightarrow> False)"

definition conditionTrue :: "('q, 'w) kube \<Rightarrow> any \<Rightarrow> string \<Rightarrow> int \<Rightarrow> string list \<Rightarrow> bool" where
  "conditionTrue K object kind generation path = list_ex (condition_holds kind generation) (k_NestedSlice K object path)"

definition parent_holds :: "('q, 'w) kube \<Rightarrow> 'q kobject \<Rightarrow> 'q SimpleCache \<Rightarrow> string \<Rightarrow> bool \<Rightarrow> any \<Rightarrow> bool" where
  "parent_holds K ob cr field resolved raw =
     (case raw of
        Obj p \<Rightarrow>
          member p ''controllerName'' = Str gatewayController \<and>
          (case member p (if field = ''ancestors'' then ''ancestorRef'' else ''parentRef'') of
             Obj ref \<Rightarrow>
               member ref ''name'' = Str (sc_Name cr) \<and>
               (case map_of ref ''namespace'' of None \<Rightarrow> True | Some ns \<Rightarrow> ns = Str (sc_Namespace cr)) \<and>
               conditionTrue K (Obj p) ''Accepted'' (ob_Generation ob) [''conditions''] \<and>
               (\<not> resolved \<or> conditionTrue K (Obj p) ''ResolvedRefs'' (ob_Generation ob) [''conditions''])
           | _ \<Rightarrow> False)
      | _ \<Rightarrow> False)"

definition parentConditionsTrue :: "('q, 'w) kube \<Rightarrow> 'q kobject \<Rightarrow> 'q SimpleCache \<Rightarrow> string \<Rightarrow> bool \<Rightarrow> bool" where
  "parentConditionsTrue K ob cr field resolved =
     list_ex (parent_holds K ob cr field resolved) (k_NestedSlice K (object_json ob) [''status'', field])"

definition gateway_ready :: "('q, 'w) kube \<Rightarrow> 'q SimpleCache \<Rightarrow> 'q kobject \<Rightarrow> bool" where
  "gateway_ready K cr ob =
     (let own = (\<lambda>kind. conditionTrue K (object_json ob) kind (ob_Generation ob) [''status'', ''conditions'']) in
      if ob_Kind ob = ''Gateway'' then own ''Accepted'' \<and> own ''Programmed''
      else if ob_Kind ob = ''Backend'' then own ''Accepted''
      else if ob_Kind ob = ''HTTPRoute'' then parentConditionsTrue K ob cr ''parents'' True
      else if ob_Kind ob = backendPolicyKind then parentConditionsTrue K ob cr ''ancestors'' False
      else True)"

section \<open>Writing one object\<close>

fun typeName :: "'q payload \<Rightarrow> string" where
  "typeName (Service _) = ''*v1.Service''"
| "typeName ServiceAccount = ''*v1.ServiceAccount''"
| "typeName (Role _) = ''*v1.Role''"
| "typeName (RoleBinding _ _) = ''*v1.RoleBinding''"
| "typeName (StatefulSet _) = ''*v1.StatefulSet''"
| "typeName (Custom _) = ''*unstructured.Unstructured''"

definition ensure_service :: "ServiceSpec \<Rightarrow> ServiceSpec \<Rightarrow> kerror + ServiceSpec" where
  "ensure_service current spec =
     (if sv_ClusterIP spec = ''None'' \<and> sv_ClusterIP current \<noteq> [] \<and> sv_ClusterIP current \<noteq> ''None''
      then Inl (Failed ''existing Service is not headless'')
      else Inr (current\<lparr>sv_ClusterIP := (if sv_ClusterIP spec = ''None'' then ''None'' else sv_ClusterIP current),
                        sv_Selector := sv_Selector spec, sv_Ports := sv_Ports spec, sv_Type := sv_Type spec, sv_PublishNotReady := False\<rparr>))"

definition ensure_statefulSet :: "bool \<Rightarrow> 'q StatefulSetSpec \<Rightarrow> 'q StatefulSetSpec \<Rightarrow> kerror + 'q StatefulSetSpec" where
  "ensure_statefulSet exists current spec =
     (if \<not> exists then Inr spec
      else if ss_ServiceName current \<noteq> ss_ServiceName spec \<or> ss_Selector current \<noteq> ss_Selector spec
      then Inl (Failed ''StatefulSet immutable identity does not match'')
      else case mergeTemplate (ss_Template current) (ss_Template spec) of
        None \<Rightarrow> Inl (Panic ''index out of range'')
      | Some t \<Rightarrow> Inr (current\<lparr>ss_Replicas := ss_Replicas spec, ss_Template := t\<rparr>))"

text \<open>The part of the object the operator owns. A mismatch of types is a failing type assertion.\<close>

definition conversion :: "kerror + 'a" where "conversion = Inl (Panic ''interface conversion'')"

definition ensure_payload :: "bool \<Rightarrow> 'q payload \<Rightarrow> 'q payload \<Rightarrow> kerror + 'q payload" where
  "ensure_payload exists current wanted =
     (case current of
        Custom actual \<Rightarrow>
          (case wanted of Custom spec \<Rightarrow> Inr (Custom (if desiredSubset actual spec then actual else spec)) | _ \<Rightarrow> conversion)
      | Service actual \<Rightarrow> (case wanted of Service spec \<Rightarrow> map_sum id Service (ensure_service actual spec) | _ \<Rightarrow> conversion)
      | ServiceAccount \<Rightarrow> Inr ServiceAccount
      | Role _ \<Rightarrow> (case wanted of Role rules \<Rightarrow> Inr (Role rules) | _ \<Rightarrow> conversion)
      | RoleBinding ref _ \<Rightarrow>
          (case wanted of
             RoleBinding ref' subjects \<Rightarrow>
               if exists \<and> ref \<noteq> ref' then Inl (Failed ''RoleBinding roleRef is immutable'') else Inr (RoleBinding ref' subjects)
           | _ \<Rightarrow> conversion)
      | StatefulSet actual \<Rightarrow>
          (case wanted of StatefulSet spec \<Rightarrow> map_sum id StatefulSet (ensure_statefulSet exists actual spec) | _ \<Rightarrow> conversion))"

definition ensure_mutate :: "('q, 'w) kube \<Rightarrow> 'q SimpleCache \<Rightarrow> 'q kobject \<Rightarrow> 'q kobject \<Rightarrow> kerror + 'q kobject" where
  "ensure_mutate K owner wanted actual =
     (if ob_Exists actual \<and> \<not> IsControlledBy actual owner
      then Inl (OwnershipConflict (typeName (ob_Payload actual) @ '' '' @ ob_Name actual @ '' is not owned by this SimpleCache''))
      else case k_SetControllerReference K owner actual of
        Inl e \<Rightarrow> Inl e
      | Inr current \<Rightarrow>
          map_sum id (\<lambda>p. current\<lparr>ob_Payload := p\<rparr>) (ensure_payload (ob_Exists current) (ob_Payload current) (ob_Payload wanted)))"

definition ensure :: "('q, 'w) kube \<Rightarrow> 'q SimpleCache \<Rightarrow> 'q kobject \<Rightarrow> ('w, unit) kop" where
  "ensure K owner wanted = k_CreateOrUpdate K wanted (ensure_mutate K owner wanted)"

section \<open>The gateway\<close>

definition checkGatewayClass :: "('q, 'w) SimpleCacheReconciler \<Rightarrow> 'q SimpleCache \<Rightarrow> GatewaySpec \<Rightarrow> 'w \<Rightarrow> string option" where
  "checkGatewayClass r cr g w =
     (if \<not> EnableGateway r then Some ''enable --enable-gateway after installing Envoy Gateway v1.9.2 and its CRDs''
      else case k_Get (rc_Client r) (''GatewayClass'', [], gw_ClassName g) w of
        Inl e \<Rightarrow> Some (''read GatewayClass: '' @ kmessage e)
      | Inr class \<Rightarrow>
          if k_NestedString (rc_Client r) (object_json class) [''spec'', ''controllerName''] \<noteq> gatewayController
          then Some (''GatewayClass must use '' @ gatewayController)
          else if \<not> conditionTrue (rc_Client r) (object_json class) ''Accepted'' (ob_Generation class) [''status'', ''conditions'']
          then Some ''GatewayClass is not accepted yet''
          else None)"

text \<open>The addresses of the shard Services in order, or the message to wait with.\<close>

fun shard_addresses :: "('q, 'w) kube \<Rightarrow> 'q SimpleCache \<Rightarrow> int list \<Rightarrow> ('w, string + string list) kop" where
  "shard_addresses K cr [] = kret (Inr [])"
| "shard_addresses K cr (i # rest) =
     kbind (ensure K cr (shardService cr i)) (\<lambda>_.
     kbind (kread (k_Get K (key_of (shardService cr i)))) (\<lambda>svc.
       case ob_Payload svc of
         Service spec \<Rightarrow>
           if sv_ClusterIP spec = [] then kret (Inl ''Waiting for shard Service addresses'')
           else kbind (shard_addresses K cr rest) (\<lambda>r. kret (map_sum id (\<lambda>ips. sv_ClusterIP spec # ips) r))
       | _ \<Rightarrow> kread (\<lambda>_. Inl (Failed ''decode Service''))))"

definition shard_stale :: "'q SimpleCache \<Rightarrow> int \<Rightarrow> 'q kobject \<Rightarrow> bool" where
  "shard_stale cr keep svc \<longleftrightarrow>
     IsControlledBy svc cr \<and> HasPrefix (ob_Name svc) (sc_Name cr @ ''-shard-'') \<and>
     (case Atoi (TrimPrefix (ob_Name svc) (sc_Name cr @ ''-shard-'')) of None \<Rightarrow> False | Some ordinal \<Rightarrow> ordinal \<ge> keep)"

definition removeShardServices :: "('q, 'w) kube \<Rightarrow> 'q SimpleCache \<Rightarrow> int \<Rightarrow> ('w, unit) kop" where
  "removeShardServices K cr keep =
     kbind (kread (k_ListServices K (sc_Namespace cr))) (\<lambda>svcs.
       kfor (\<lambda>svc. if shard_stale cr keep svc then kignore (k_Delete K svc) else kret ()) svcs)"

fun gateway_wait :: "('q, 'w) kube \<Rightarrow> 'q SimpleCache \<Rightarrow> 'q kobject list \<Rightarrow> ('w, string) kop" where
  "gateway_wait K cr [] = kret []"
| "gateway_wait K cr (obj # rest) =
     kbind (kread (k_Get K (key_of obj))) (\<lambda>current.
       if \<not> gateway_ready K cr current then kret (''Waiting for '' @ ob_Kind current @ '' acceptance/programming'')
       else gateway_wait K cr rest)"

definition reconcileGateway :: "('q, 'w) kube \<Rightarrow> 'q SimpleCache \<Rightarrow> ('w, string) kop" where
  "reconcileGateway K cr =
     kbind (shard_addresses K cr [0..sp_Size (sc_Spec cr) - 1]) (\<lambda>addresses.
       case addresses of
         Inl message \<Rightarrow> kret message
       | Inr ips \<Rightarrow>
           kbind (kread (\<lambda>_. gatewayResources cr ips)) (\<lambda>objects.
           kbind (kfor (ensure K cr) objects) (\<lambda>_.
           kbind (removeShardServices K cr (sp_Size (sc_Spec cr))) (\<lambda>_. gateway_wait K cr objects))))"

definition remove_owned :: "('q, 'w) kube \<Rightarrow> 'q SimpleCache \<Rightarrow> string \<times> string \<times> string \<Rightarrow> ('w, unit) kop" where
  "remove_owned K cr gvk w =
     (case k_Get K (key_of (gatewayObject gvk (sc_Namespace cr) (sc_Name cr) :: 'q kobject)) w of
        Inl e \<Rightarrow> (case IgnoreNotFound e of Some e' \<Rightarrow> (Inl e', w) | None \<Rightarrow> (Inr (), w))
      | Inr obj \<Rightarrow> if IsControlledBy obj cr then kignore (k_Delete K obj) w else (Inr (), w))"

definition removeGateway :: "('q, 'w) SimpleCacheReconciler \<Rightarrow> 'q SimpleCache \<Rightarrow> ('w, unit) kop" where
  "removeGateway r cr =
     (if \<not> EnableGateway r then kret ()
      else kbind (kfor (remove_owned (rc_Client r) cr) gatewayKinds) (\<lambda>_. removeShardServices (rc_Client r) cr 0))"

section \<open>Reconciliation\<close>

definition setStatus :: "('q, 'w) kube \<Rightarrow> 'q SimpleCache \<Rightarrow> int \<Rightarrow> bool \<Rightarrow> string \<Rightarrow> string \<Rightarrow> ('w, unit) kop" where
  "setStatus K cr ready status reason message =
     (let st = \<lparr>st_ObservedGeneration = sc_Generation cr, st_ReadyReplicas = ready,
                st_Conditions = k_SetStatusCondition K (st_Conditions (sc_Status cr))
                  \<lparr>co_Type = ''Ready'', co_Status = status, co_Reason = reason, co_Message = message, co_ObservedGeneration = sc_Generation cr\<rparr>\<rparr>
      in if st \<noteq> sc_Status cr then k_PatchStatus K cr (cr\<lparr>sc_Status := st\<rparr>) else kret ())"

text \<open>The outcome of a call: \<open>RequeueAfter\<close> and the error.\<close>

type_synonym outcome_of = "duration \<times> kerror option"

definition result_after :: "duration \<Rightarrow> ('w, unit) kop \<Rightarrow> 'w \<Rightarrow> outcome_of \<times> 'w" where
  "result_after requeue m w = (case m w of (Inl e, w') \<Rightarrow> ((requeue, Some e), w') | (Inr _, w') \<Rightarrow> ((requeue, None), w'))"

text \<open>A failure is written to the status first; a panic is not.\<close>

definition report_failure :: "('q, 'w) kube \<Rightarrow> 'q SimpleCache \<Rightarrow> (kerror \<Rightarrow> string) \<Rightarrow> kerror \<Rightarrow> ('w, unit) kop" where
  "report_failure K cr reason e =
     (case e of
        Panic _ \<Rightarrow> kread (\<lambda>_. Inl e)
      | _ \<Rightarrow> kbind (setStatus K cr 0 False (reason e) (kmessage e)) (\<lambda>_. kread (\<lambda>_. Inl e)))"

definition ensure_reason :: "kerror \<Rightarrow> string" where
  "ensure_reason e = (case e of OwnershipConflict _ \<Rightarrow> ''ResourceConflict'' | _ \<Rightarrow> ''ReconcileFailed'')"

definition desired_objects :: "'q apimachinery \<Rightarrow> 'q SimpleCache \<Rightarrow> 'q kobject list" where
  "desired_objects k desired =
     [account desired, discoveryRole desired, discoveryBinding desired, op_clusterService desired, apiService desired, statefulSet k desired]"

definition rolled_out :: "'q SimpleCache \<Rightarrow> int \<Rightarrow> StatefulSetStatus \<Rightarrow> bool" where
  "rolled_out desired generation st \<longleftrightarrow>
     ts_ObservedGeneration st \<ge> generation \<and> ts_ReadyReplicas st = sp_Size (sc_Spec desired) \<and>
     ts_UpdatedReplicas st = sp_Size (sc_Spec desired) \<and> ts_CurrentRevision st = ts_UpdateRevision st"

definition ready_condition :: "bool \<Rightarrow> string \<Rightarrow> bool \<times> string \<times> string" where
  "ready_condition rolled gatewayMessage =
     (if gatewayMessage \<noteq> [] then (False, ''GatewayPending'', gatewayMessage)
      else if rolled then (True, ''Ready'', ''All desired cache replicas are ready'')
      else (False, ''Reconciling'', ''Waiting for StatefulSet rollout''))"

definition report_rollout ::
  "('q, 'w) kube \<Rightarrow> 'q SimpleCache \<Rightarrow> 'q SimpleCache \<Rightarrow> string \<Rightarrow> string \<Rightarrow> string \<Rightarrow> 'w \<Rightarrow> outcome_of \<times> 'w" where
  "report_rollout K cr desired ns name gatewayMessage w =
     (case k_GetStatefulSet K ns name w of
        Inl e \<Rightarrow> ((0, Some e), w)
      | Inr (generation, st) \<Rightarrow>
          (case ready_condition (rolled_out desired generation st) gatewayMessage of (status, reason, message) \<Rightarrow>
             result_after (if sp_Gateway (sc_Spec desired) \<noteq> None then 5 * Second else 0)
               (setStatus K cr (ts_ReadyReplicas st) status reason message) w))"

definition reconcile_valid ::
  "('q, 'w) SimpleCacheReconciler \<Rightarrow> 'q apimachinery \<Rightarrow> 'q SimpleCache \<Rightarrow> 'q SimpleCache \<Rightarrow> string \<Rightarrow> string \<Rightarrow> 'w \<Rightarrow> outcome_of \<times> 'w" where
  "reconcile_valid r k cr desired ns name w =
     (let K = rc_Client r in
      case kfor (ensure K cr) (desired_objects k desired) w of
        (Inl e, w1) \<Rightarrow> result_after 0 (report_failure K cr ensure_reason e) w1
      | (Inr _, w1) \<Rightarrow>
          (if sp_Gateway (sc_Spec desired) \<noteq> None
           then case reconcileGateway K desired w1 of
                  (Inl e, w2) \<Rightarrow> result_after 0 (report_failure K cr (\<lambda>_. ''GatewayReconcileFailed'') e) w2
                | (Inr message, w2) \<Rightarrow> report_rollout K cr desired ns name message w2
           else case removeGateway r desired w1 of
                  (Inl e, w2) \<Rightarrow> ((0, Some e), w2)
                | (Inr _, w2) \<Rightarrow> report_rollout K cr desired ns name [] w2))"

definition Reconcile :: "('q, 'w) SimpleCacheReconciler \<Rightarrow> 'q apimachinery \<Rightarrow> string \<Rightarrow> string \<Rightarrow> 'w \<Rightarrow> outcome_of \<times> 'w" where
  "Reconcile r k ns name w =
     (case k_GetCR (rc_Client r) ns name w of
        Inl e \<Rightarrow> ((0, IgnoreNotFound e), w)
      | Inr cr \<Rightarrow>
          if sc_Deleting cr then ((0, None), w)
          else let desired = operator_defaults cr in
            case validateSpec k desired of
              Some message \<Rightarrow> result_after 0 (setStatus (rc_Client r) cr 0 False ''InvalidSpec'' message) w
            | None \<Rightarrow>
                (case Option.bind (sp_Gateway (sc_Spec desired)) (\<lambda>g. checkGatewayClass r desired g w) of
                   Some message \<Rightarrow> result_after (5 * Second) (setStatus (rc_Client r) cr 0 False ''GatewayUnavailable'' message) w
                 | None \<Rightarrow> reconcile_valid r k cr desired ns name w))"

section \<open>Watches\<close>

text \<open>
  What the manager watches: \<open>mapped\<close> is the answer of its REST mapper for a kind, \<open>complete\<close> the
  registration of the controller for the custom resource and the owned kinds.
\<close>

definition SetupWithManager ::
  "('q, 'w) SimpleCacheReconciler \<Rightarrow> (string \<times> string \<times> string \<Rightarrow> kerror option) \<Rightarrow> (string \<Rightarrow> string list \<Rightarrow> kerror option) \<Rightarrow> kerror option" where
  "SetupWithManager r mapped complete =
     (let owned = [''StatefulSet'', ''Service'', ''ServiceAccount'', ''Role'', ''RoleBinding''] in
      if \<not> EnableGateway r then complete ''SimpleCache'' owned
      else case List.map_filter mapped gatewayKinds of
        e # _ \<Rightarrow> Some (Failed (''install gateway CRDs before --enable-gateway: '' @ kmessage e))
      | [] \<Rightarrow> complete ''SimpleCache'' (owned @ map (\<lambda>gvk. snd (snd gvk)) gatewayKinds))"

section \<open>Gateway resources\<close>

lemma gatewayResource_kind:
  assumes "kind \<in> {''Gateway'', ''HTTPRoute'', ''EnvoyProxy'', ''Backend'', backendPolicyKind}"
  shows "\<exists>ob. gatewayResource cr kind spec = Inr ob \<and> ob_Kind ob = kind \<and> ob_Payload ob = Custom spec"
  using assms by (elim insertE emptyE) (simp_all add: gatewayResource_def gatewayKinds_def gatewayObject_def backendPolicyKind_def)

text \<open>Building the gateway objects never panics.\<close>

lemma gatewayResources_built:
  assumes "sp_Gateway (sc_Spec cr) = Some g"
  shows "\<exists>objects. gatewayResources cr ips = Inr objects \<and> length objects = 5 \<and> (\<exists>ob\<in>set objects. ob_Kind ob = ''Backend'' \<and> ob_Payload ob = Custom (backendSpec ips))"
proof -
  have built: "\<exists>ob. gatewayResource cr kind spec = Inr ob" if "kind \<in> {''Gateway'', ''HTTPRoute'', ''EnvoyProxy'', ''Backend'', backendPolicyKind}" for kind spec
    using gatewayResource_kind [OF that] by blast
  obtain b1 where "gatewayResource cr ''EnvoyProxy'' (envoyProxySpec (gw_Replicas g)) = Inr b1" using built by blast
  moreover obtain b2 where b2: "gatewayResource cr ''Backend'' (backendSpec ips) = Inr b2" "ob_Kind b2 = ''Backend''" "ob_Payload b2 = Custom (backendSpec ips)"
    using gatewayResource_kind [of "''Backend''" cr "backendSpec ips"] by auto
  moreover obtain b3 where "gatewayResource cr ''Gateway'' (gatewaySpec (gw_ClassName g) (sc_Name cr)) = Inr b3" using built by blast
  moreover obtain b4 where "gatewayResource cr ''HTTPRoute'' (routeSpec (sc_Name cr)) = Inr b4" using built by blast
  moreover obtain b5 where "gatewayResource cr backendPolicyKind (policySpec (sc_Name cr)) = Inr b5" using built by blast
  ultimately have "gatewayResources cr ips = Inr [b1, b2, b3, b4, b5]" by (simp add: gatewayResources_def assms)
  then show ?thesis using b2(2,3) by simp
qed

text \<open>
  The comparison behind drift correction: it ignores what the server adds to an object, but a Backend
  accepted as it is has exactly the wanted addresses, in order, and no obsolete one.
\<close>

definition endpoint_address :: "any \<Rightarrow> any" where
  "endpoint_address e = (case e of Obj f \<Rightarrow> (case member f ''ip'' of Obj i \<Rightarrow> member i ''address'' | _ \<Rightarrow> Null) | _ \<Rightarrow> Null)"

definition backend_addresses :: "any \<Rightarrow> any list" where
  "backend_addresses spec =
     (case spec of Obj a \<Rightarrow> (case member a ''endpoints'' of Arr es \<Rightarrow> map endpoint_address es | _ \<Rightarrow> []) | _ \<Rightarrow> [])"

lemma endpoint_address_exact:
  assumes "desiredSubset e (Obj [(''ip'', Obj [(''address'', Str ip), (''port'', Num 9999)])])"
  shows "endpoint_address e = Str ip"
proof (cases e)
  case (Obj f)
  with assms show ?thesis by (cases "member f ''ip''") (simp_all add: endpoint_address_def)
qed (use assms in simp_all)

lemma subset_items_addresses:
  assumes "length es = length ips"
    and "subset_items es (map (\<lambda>ip. Obj [(''ip'', Obj [(''address'', Str ip), (''port'', Num 9999)])]) ips)"
  shows "map endpoint_address es = map Str ips"
  using assms by (induction es ips rule: list_induct2) (simp_all del: desiredSubset.simps add: endpoint_address_exact)

lemma backend_addresses_exact:
  assumes "desiredSubset actual (backendSpec ips)"
  shows "backend_addresses actual = map Str ips"
proof (cases actual)
  case (Obj a)
  with assms show ?thesis by (cases "member a ''endpoints''") (simp_all add: backendSpec_def backend_addresses_def subset_items_addresses)
qed (use assms in \<open>simp_all add: backendSpec_def\<close>)

text \<open>A document with no repeated member is a subset of itself, so a corrected object stays as it is.\<close>

fun wf_any :: "any \<Rightarrow> bool" where
  "wf_any (Obj d) \<longleftrightarrow> distinct (map fst d) \<and> (\<forall>(k, v)\<in>set d. wf_any v)"
| "wf_any (Arr d) \<longleftrightarrow> (\<forall>v\<in>set d. wf_any v)"
| "wf_any _ \<longleftrightarrow> True"

lemma subset_members_iff: "subset_members a d \<longleftrightarrow> (\<forall>(k, v)\<in>set d. desiredSubset (member a k) v)"
  by (induction d) auto

lemma subset_items_iff: "length a = length d \<Longrightarrow> subset_items a d \<longleftrightarrow> list_all2 desiredSubset a d"
  by (induction a d rule: list_induct2) auto

lemma desiredSubset_refl: "wf_any x \<Longrightarrow> desiredSubset x x"
proof (induction x rule: wf_any.induct)
  case (1 d)
  have "desiredSubset (member d k) v" if "(k, v) \<in> set d" for k v
    using 1 that by (auto simp: member_def)
  then show ?case by (auto simp: subset_members_iff)
qed (auto simp: subset_items_iff list_all2_same)

lemma map_sum_Inr: "map_sum f g s = Inr y \<longleftrightarrow> (\<exists>x. s = Inr x \<and> y = g x)"
  by (cases s) auto

lemma ensure_service_idem: "ensure_service current spec = Inr s \<Longrightarrow> ensure_service s spec = Inr s"
  by (auto simp: ensure_service_def split: if_splits)

lemma ensure_statefulSet_idem:
  assumes "ensure_statefulSet True current spec = Inr s"
  shows "ensure_statefulSet True s spec = Inr s"
  using assms by (auto simp: ensure_statefulSet_def dest: mergeTemplate_idem split: if_splits option.splits)

text \<open>What \<open>ensure\<close> wrote, it leaves as it is the next time: reconciliation reaches a fixed point.\<close>

lemma ensure_payload_idem:
  assumes "ensure_payload True current wanted = Inr p" "\<And>spec. wanted = Custom spec \<Longrightarrow> wf_any spec"
  shows "ensure_payload True p wanted = Inr p"
proof (cases current)
  case (Service actual)
  with assms(1) show ?thesis
    by (cases wanted) (auto simp: ensure_payload_def conversion_def map_sum_Inr dest: ensure_service_idem)
next
  case (StatefulSet actual)
  with assms(1) show ?thesis
    by (cases wanted) (auto simp: ensure_payload_def conversion_def map_sum_Inr dest: ensure_statefulSet_idem)
next
  case (Custom actual)
  with assms show ?thesis by (cases wanted) (auto simp: ensure_payload_def conversion_def desiredSubset_refl)
next
  case (Role rules)
  with assms(1) show ?thesis by (cases wanted) (auto simp: ensure_payload_def conversion_def)
next
  case (RoleBinding ref subjects)
  with assms(1) show ?thesis by (cases wanted) (auto simp: ensure_payload_def conversion_def split: if_splits)
next
  case ServiceAccount
  with assms(1) show ?thesis by (simp add: ensure_payload_def)
qed

lemma gateway_specs_wf:
  "wf_any (envoyProxySpec n)" "wf_any (backendSpec ips)" "wf_any (gatewaySpec class name)" "wf_any (routeSpec name)" "wf_any (policySpec name)"
  by (simp_all add: envoyProxySpec_def backendSpec_def gatewaySpec_def routeSpec_def policySpec_def)

text \<open>Scaling down removes exactly the owned shard Services from the new size on, never a wanted one.\<close>

lemma shard_stale_iff:
  assumes "ob_Name svc = ob_Name (shardService cr i)" "int64 i"
  shows "shard_stale cr keep svc \<longleftrightarrow> IsControlledBy svc cr \<and> keep \<le> i"
  using assms ParseInt_FormatInt [OF assms(2)]
  by (simp add: shard_stale_def shardService_def HasPrefix_def TrimPrefix_def Atoi_def)

text \<open>Ready is reported exactly for a finished rollout behind a programmed gateway.\<close>

lemma ready_condition_truthful: "fst (ready_condition rolled message) \<longleftrightarrow> rolled \<and> message = []"
  by (simp add: ready_condition_def)

section \<open>What the client promises\<close>

text \<open>
  \<open>objs\<close> is the cluster as everyone sees it. Reads answer with what is there. \<open>CreateOrUpdate\<close> writes at
  most the object it names, and only what the mutation returned for the object found there (the
  wanted object if there is none); the server may fill in fields, but not the controller reference.
  \<open>Delete\<close> affects at most the object it names, and one that outlives it keeps its controller. The
  status of the custom resource is not among the objects. A controller reference names the owner.
\<close>

type_synonym ('q, 'w) view = "'w \<Rightarrow> key \<Rightarrow> 'q kobject option"

definition reads_current :: "('q, 'w) kube \<Rightarrow> ('q, 'w) view \<Rightarrow> bool" where
  "reads_current K objs \<longleftrightarrow>
     (\<forall>key w x. k_Get K key w = Inr x \<longrightarrow> objs w key = Some x \<and> key_of x = key) \<and>
     (\<forall>ns w xs. k_ListServices K ns w = Inr xs \<longrightarrow> (\<forall>x\<in>set xs. objs w (key_of x) = Some x))"

definition found :: "('q, 'w) view \<Rightarrow> 'q kobject \<Rightarrow> 'w \<Rightarrow> 'q kobject" where
  "found objs wanted w = (case objs w (key_of wanted) of None \<Rightarrow> wanted | Some x \<Rightarrow> x\<lparr>ob_Exists := True\<rparr>)"

definition writes_mutated :: "('q, 'w) kube \<Rightarrow> ('q, 'w) view \<Rightarrow> bool" where
  "writes_mutated K objs \<longleftrightarrow>
     (\<forall>wanted f w r w'. k_CreateOrUpdate K wanted f w = (r, w') \<longrightarrow>
        objs w' = objs w \<or>
        (\<exists>y y'. f (found objs wanted w) = Inr y \<and> ob_Controller y' = ob_Controller y \<and> objs w' = (objs w)(key_of wanted \<mapsto> y')))"

definition deletes_named :: "('q, 'w) kube \<Rightarrow> ('q, 'w) view \<Rightarrow> bool" where
  "deletes_named K objs \<longleftrightarrow>
     (\<forall>x w r w'. k_Delete K x w = (r, w') \<longrightarrow>
        (\<forall>key. key \<noteq> key_of x \<longrightarrow> objs w' key = objs w key) \<and>
        (\<forall>y. objs w' (key_of x) = Some y \<longrightarrow> (\<exists>z. objs w (key_of x) = Some z \<and> ob_Controller y = ob_Controller z)))"

definition client_laws :: "('q, 'w) kube \<Rightarrow> ('q, 'w) view \<Rightarrow> bool" where
  "client_laws K objs \<longleftrightarrow>
     reads_current K objs \<and> writes_mutated K objs \<and> deletes_named K objs \<and>
     (\<forall>before after w. objs (snd (k_PatchStatus K before after w)) = objs w) \<and>
     (\<forall>owner x y. k_SetControllerReference K owner x = Inr y \<longrightarrow> ob_Controller y = Some (sc_UID owner))"

section \<open>Ownership\<close>

text \<open>Between two clusters: foreign objects are as they were, and whatever is new or changed is the owner's.\<close>

definition owned_only :: "('q, 'w) view \<Rightarrow> string \<Rightarrow> 'w \<Rightarrow> 'w \<Rightarrow> bool" where
  "owned_only objs uid w w' \<longleftrightarrow>
     (\<forall>key x. objs w key = Some x \<longrightarrow> ob_Controller x \<noteq> Some uid \<longrightarrow> objs w' key = Some x) \<and>
     (\<forall>key y. objs w' key = Some y \<longrightarrow> objs w key \<noteq> Some y \<longrightarrow> ob_Controller y = Some uid)"

lemma owned_only_refl [simp]: "owned_only objs uid w w"
  by (simp add: owned_only_def)

lemma owned_only_same: "objs w' = objs w \<Longrightarrow> owned_only objs uid w w'"
  by (simp add: owned_only_def)

lemma owned_only_trans [trans]: "owned_only objs uid w w' \<Longrightarrow> owned_only objs uid w' w'' \<Longrightarrow> owned_only objs uid w w''"
  unfolding owned_only_def by metis

definition keeps_foreign :: "('q, 'w) view \<Rightarrow> string \<Rightarrow> ('w, 'a) kop \<Rightarrow> bool" where
  "keeps_foreign objs uid m \<longleftrightarrow> (\<forall>w. owned_only objs uid w (snd (m w)))"

named_theorems keeps \<open>operations that change only what the owner controls\<close>

lemma keeps_ret [keeps]: "keeps_foreign objs uid (kret x)"
  by (simp add: keeps_foreign_def kret_def)

lemma keeps_read [keeps]: "keeps_foreign objs uid (kread g)"
  by (simp add: keeps_foreign_def kread_def)

lemma keeps_bind [keeps]:
  assumes "keeps_foreign objs uid m" "\<And>x. keeps_foreign objs uid (f x)"
  shows "keeps_foreign objs uid (kbind m f)"
  unfolding keeps_foreign_def
proof
  fix w
  obtain r w' where m: "m w = (r, w')" by fastforce
  have step: "owned_only objs uid w w'" using assms(1) m unfolding keeps_foreign_def by (metis snd_conv)
  show "owned_only objs uid w (snd (kbind m f w))"
  proof (cases r)
    case (Inl e)
    then show ?thesis using m step by (simp add: kbind_def)
  next
    case (Inr x)
    then show ?thesis using m step assms(2) [of x] by (auto simp: kbind_def keeps_foreign_def intro: owned_only_trans)
  qed
qed

lemma keeps_for [keeps]: "(\<And>x. keeps_foreign objs uid (f x)) \<Longrightarrow> keeps_foreign objs uid (kfor f xs)"
  by (induction xs) (auto intro: keeps)

lemma kignore_world: "snd (kignore m w) = snd (m w)"
  by (auto simp: kignore_def split: prod.split sum.split option.split)

lemma client_law:
  assumes "client_laws K objs"
  shows "k_Get K key w = Inr x \<Longrightarrow> objs w key = Some x" "k_Get K key w = Inr x \<Longrightarrow> key_of x = key"
    "k_ListServices K ns w = Inr xs \<Longrightarrow> x \<in> set xs \<Longrightarrow> objs w (key_of x) = Some x"
    "objs (snd (k_PatchStatus K before after w)) = objs w"
    "k_SetControllerReference K owner x = Inr y \<Longrightarrow> ob_Controller y = Some (sc_UID owner)"
  using assms unfolding client_laws_def reads_current_def by blast+

text \<open>The mutation refuses an existing object of someone else, and what it returns is the owner's.\<close>

lemma ensure_mutate_owned:
  assumes "client_laws K objs" "ensure_mutate K owner wanted actual = Inr y"
  shows "ob_Exists actual \<longrightarrow> ob_Controller actual = Some (sc_UID owner)" "ob_Controller y = Some (sc_UID owner)"
proof -
  show "ob_Exists actual \<longrightarrow> ob_Controller actual = Some (sc_UID owner)"
    using assms(2) by (auto simp: ensure_mutate_def IsControlledBy_def split: if_splits)
  obtain current p where "k_SetControllerReference K owner actual = Inr current" "y = current\<lparr>ob_Payload := p\<rparr>"
    using assms(2) unfolding ensure_mutate_def by (auto simp: map_sum_Inr split: if_splits sum.splits)
  then show "ob_Controller y = Some (sc_UID owner)" using client_law(5) [OF assms(1)] by simp
qed

lemma keeps_ensure [keeps]:
  assumes laws: "client_laws K objs"
  shows "keeps_foreign objs (sc_UID cr) (ensure K cr wanted)"
  unfolding keeps_foreign_def
proof
  fix w
  obtain r w' where e: "ensure K cr wanted w = (r, w')" by fastforce
  from laws have "writes_mutated K objs" by (simp add: client_laws_def)
  with e consider "objs w' = objs w" | y y' where "ensure_mutate K cr wanted (found objs wanted w) = Inr y"
    "ob_Controller y' = ob_Controller y" "objs w' = (objs w)(key_of wanted \<mapsto> y')"
    unfolding writes_mutated_def ensure_def by blast
  then show "owned_only objs (sc_UID cr) w (snd (ensure K cr wanted w))"
  proof cases
    case 1
    then show ?thesis by (simp add: e owned_only_same)
  next
    case 2
    have own: "ob_Controller y' = Some (sc_UID cr)" using ensure_mutate_owned(2) [OF laws 2(1)] 2(2) by simp
    have old: "objs w (key_of wanted) = Some x \<Longrightarrow> ob_Controller x = Some (sc_UID cr)" for x
      using ensure_mutate_owned(1) [OF laws 2(1)] by (simp add: found_def)
    show ?thesis unfolding owned_only_def e snd_conv 2(3) using own old by auto
  qed
qed

text \<open>Deleting an object that is the owner's, or gone.\<close>

lemma delete_owned:
  assumes "client_laws K objs" "\<And>z. objs w (key_of x) = Some z \<Longrightarrow> ob_Controller z = Some uid"
  shows "owned_only objs uid w (snd (kignore (k_Delete K x) w))"
    "key \<noteq> key_of x \<Longrightarrow> objs (snd (kignore (k_Delete K x) w)) key = objs w key"
    "objs (snd (kignore (k_Delete K x) w)) (key_of x) = Some y \<Longrightarrow> ob_Controller y = Some uid"
proof -
  obtain r w' where d: "k_Delete K x w = (r, w')" by fastforce
  from assms(1) have "deletes_named K objs" by (simp add: client_laws_def)
  with d have other: "\<And>key. key \<noteq> key_of x \<Longrightarrow> objs w' key = objs w key"
    and kept: "\<And>y. objs w' (key_of x) = Some y \<Longrightarrow> \<exists>z. objs w (key_of x) = Some z \<and> ob_Controller y = ob_Controller z"
    unfolding deletes_named_def by blast+
  have own: "ob_Controller y = Some uid" if "objs w' (key_of x) = Some y" for y using kept [OF that] assms(2) by force
  show "key \<noteq> key_of x \<Longrightarrow> objs (snd (kignore (k_Delete K x) w)) key = objs w key" using other by (simp add: kignore_world d)
  show "objs (snd (kignore (k_Delete K x) w)) (key_of x) = Some y \<Longrightarrow> ob_Controller y = Some uid" using own by (simp add: kignore_world d)
  show "owned_only objs uid w (snd (kignore (k_Delete K x) w))"
    unfolding owned_only_def kignore_world d snd_conv using other own assms(2) by metis
qed

lemma keeps_removal:
  assumes laws: "client_laws K objs"
    and "\<And>x z. x \<in> set xs \<Longrightarrow> shard_stale cr keep x \<Longrightarrow> objs w (key_of x) = Some z \<Longrightarrow> ob_Controller z = Some (sc_UID cr)"
  shows "owned_only objs (sc_UID cr) w (snd (kfor (\<lambda>svc. if shard_stale cr keep svc then kignore (k_Delete K svc) else kret ()) xs w))"
  using assms(2)
proof (induction xs arbitrary: w)
  case Nil
  then show ?case by (simp add: kret_def)
next
  case (Cons x xs)
  let ?f = "\<lambda>svc. if shard_stale cr keep svc then kignore (k_Delete K svc) else kret ()"
  obtain r w' where s: "?f x w = (r, w')" by fastforce
  have own: "objs w (key_of x) = Some z \<Longrightarrow> ob_Controller z = Some (sc_UID cr)" if "shard_stale cr keep x" for z
    using Cons.prems [of x z] that by simp
  have step: "owned_only objs (sc_UID cr) w w'"
    using delete_owned(1) [OF laws, of w x] own s by (cases "shard_stale cr keep x") (simp_all add: kret_def)
  have "ob_Controller z = Some (sc_UID cr)" if "y \<in> set xs" "shard_stale cr keep y" "objs w' (key_of y) = Some z" for y z
  proof (cases "objs w (key_of y) = Some z")
    case True
    then show ?thesis using Cons.prems [of y z] that(1,2) by simp
  next
    case False
    then show ?thesis using step that(3) unfolding owned_only_def by blast
  qed
  then have "owned_only objs (sc_UID cr) w' (snd (kfor ?f xs w'))" by (rule Cons.IH)
  with step have "owned_only objs (sc_UID cr) w (snd (kfor ?f xs w'))" by (rule owned_only_trans)
  with step show ?case by (cases r) (simp_all add: kbind_def s)
qed

lemma keeps_removeShardServices [keeps]:
  assumes "client_laws K objs"
  shows "keeps_foreign objs (sc_UID cr) (removeShardServices K cr keep)"
  unfolding keeps_foreign_def
proof
  fix w
  show "owned_only objs (sc_UID cr) w (snd (removeShardServices K cr keep w))"
  proof (cases "k_ListServices K (sc_Namespace cr) w")
    case (Inr xs)
    have "ob_Controller z = Some (sc_UID cr)" if "x \<in> set xs" "shard_stale cr keep x" "objs w (key_of x) = Some z" for x z
      using client_law(3) [OF assms Inr that(1)] that(2,3) by (simp add: shard_stale_def IsControlledBy_def)
    then have "owned_only objs (sc_UID cr) w
        (snd (kfor (\<lambda>svc. if shard_stale cr keep svc then kignore (k_Delete K svc) else kret ()) xs w))"
      by (rule keeps_removal [OF assms])
    then show ?thesis by (simp add: removeShardServices_def kbind_def kread_def Inr)
  qed (simp add: removeShardServices_def kbind_def kread_def)
qed

lemma keeps_remove_owned [keeps]:
  assumes "client_laws K objs"
  shows "keeps_foreign objs (sc_UID cr) (remove_owned K cr gvk)"
  unfolding keeps_foreign_def
proof
  fix w
  let ?key = "key_of (gatewayObject gvk (sc_Namespace cr) (sc_Name cr) :: 'a kobject)"
  show "owned_only objs (sc_UID cr) w (snd (remove_owned K cr gvk w))"
  proof (cases "k_Get K ?key w")
    case (Inl e)
    then show ?thesis by (simp add: remove_owned_def split: option.split)
  next
    case (Inr x)
    have "ob_Controller z = Some (sc_UID cr)" if "IsControlledBy x cr" "objs w (key_of x) = Some z" for z
      using client_law(1,2) [OF assms Inr] that by (simp add: IsControlledBy_def)
    with Inr show ?thesis using delete_owned(1) [OF assms, of w x] by (simp add: remove_owned_def)
  qed
qed

lemma keeps_removeGateway [keeps]:
  "client_laws (rc_Client r) objs \<Longrightarrow> keeps_foreign objs (sc_UID cr) (removeGateway r cr)"
  by (simp add: removeGateway_def keeps)

lemma keeps_shard_addresses [keeps]:
  "client_laws K objs \<Longrightarrow> keeps_foreign objs (sc_UID cr) (shard_addresses K cr ordinals)"
  by (induction ordinals) (auto intro!: keeps split: payload.split)

lemma keeps_gateway_wait [keeps]: "keeps_foreign objs uid (gateway_wait K cr objects)"
  by (induction objects) (auto intro!: keeps)

lemma keeps_reconcileGateway [keeps]:
  "client_laws K objs \<Longrightarrow> keeps_foreign objs (sc_UID cr) (reconcileGateway K cr)"
  unfolding reconcileGateway_def by (auto intro!: keeps split: sum.split)

lemma keeps_setStatus [keeps]:
  "client_laws K objs \<Longrightarrow> keeps_foreign objs uid (setStatus K cr ready status reason message)"
  by (auto simp: setStatus_def Let_def keeps_foreign_def kret_def client_law(4) intro: owned_only_same)

lemma keeps_report_failure [keeps]:
  "client_laws K objs \<Longrightarrow> keeps_foreign objs uid (report_failure K cr reason e)"
  by (auto simp: report_failure_def intro!: keeps split: kerror.split)

lemma owned_after: "keeps_foreign objs uid m \<Longrightarrow> m w = (r, w') \<Longrightarrow> owned_only objs uid w w'"
  unfolding keeps_foreign_def by (metis snd_conv)

lemma owned_result_after: "keeps_foreign objs uid m \<Longrightarrow> owned_only objs uid w (snd (result_after requeue m w))"
  by (auto simp: result_after_def dest: owned_after split: prod.split sum.split)

lemma owned_report_rollout:
  "client_laws K objs \<Longrightarrow> owned_only objs uid w (snd (report_rollout K cr desired ns name message w))"
  by (auto simp: report_rollout_def intro!: owned_result_after keeps split: sum.split prod.split)

lemma owned_reconcile_valid:
  assumes laws: "client_laws (rc_Client r) objs" and uid: "sc_UID desired = sc_UID cr"
  shows "owned_only objs (sc_UID cr) w (snd (reconcile_valid r k cr desired ns name w))"
proof -
  let ?K = "rc_Client r"
  obtain e w1 where first: "kfor (ensure ?K cr) (desired_objects k desired) w = (e, w1)" by fastforce
  obtain g w2 where gateway: "reconcileGateway ?K desired w1 = (g, w2)" by fastforce
  obtain d w3 where removal: "removeGateway r desired w1 = (d, w3)" by fastforce
  have steps: "owned_only objs (sc_UID cr) w w1" "owned_only objs (sc_UID cr) w w2" "owned_only objs (sc_UID cr) w w3"
    using owned_after [OF keeps_for [OF keeps_ensure [OF laws, of cr]] first]
      owned_after [OF keeps_reconcileGateway [OF laws, of desired] gateway] owned_after [OF keeps_removeGateway [OF laws, of desired] removal]
    by (auto simp: uid intro: owned_only_trans)
  have rest: "owned_only objs (sc_UID cr) w (snd (result_after q (report_failure ?K cr reason x) w'))"
    "owned_only objs (sc_UID cr) w (snd (report_rollout ?K cr desired ns name message w'))"
    if "owned_only objs (sc_UID cr) w w'" for q reason x w' message
    by (rule owned_only_trans [OF that owned_result_after [OF keeps_report_failure [OF laws]]],
        rule owned_only_trans [OF that owned_report_rollout [OF laws]])
  show ?thesis
    using steps rest by (auto simp: reconcile_valid_def Let_def first gateway removal split: sum.split)
qed

lemma Reconcile_owned:
  assumes "client_laws (rc_Client r) objs" "k_GetCR (rc_Client r) ns name w = Inr cr"
  shows "owned_only objs (sc_UID cr) w (snd (Reconcile r k ns name w))"
proof -
  have "sc_UID (operator_defaults cr) = sc_UID cr" by (simp add: operator_defaults_def)
  note valid = owned_reconcile_valid [OF assms(1) this] and failed = owned_result_after [OF keeps_setStatus [OF assms(1)]]
  show ?thesis
    unfolding Reconcile_def assms(2) Let_def by (simp add: valid failed split: option.split)
qed


text \<open>A cluster in memory, in which a Service nobody controls has taken the name \<open>shop-svc\<close>.\<close>

type_synonym sample_cluster = "key \<Rightarrow> int kobject option"

definition sample_update :: "int kobject \<Rightarrow> (int kobject \<Rightarrow> kerror + int kobject) \<Rightarrow> (sample_cluster, unit) kop" where
  "sample_update wanted f w =
     (case f (case w (key_of wanted) of None \<Rightarrow> wanted | Some x \<Rightarrow> x\<lparr>ob_Exists := True\<rparr>) of
        Inl e \<Rightarrow> (Inl e, w)
      | Inr y \<Rightarrow> (Inr (), w(key_of wanted \<mapsto> y)))"

definition sample_kube :: "(int, sample_cluster) kube" where
  "sample_kube = \<lparr>
     k_GetCR = (\<lambda>ns name w. Inr sample_cache),
     k_Get = (\<lambda>key w. case w key of Some x \<Rightarrow> if key_of x = key then Inr x else Inl (NotFound []) | None \<Rightarrow> Inl (NotFound [])),
     k_GetStatefulSet = (\<lambda>ns name w. Inl (NotFound [])),
     k_ListServices = (\<lambda>ns w. Inr []),
     k_CreateOrUpdate = sample_update,
     k_Delete = (\<lambda>x w. (Inr (), w(key_of x := None))),
     k_PatchStatus = (\<lambda>before after w. (Inr (), w)),
     k_SetControllerReference = (\<lambda>owner x. Inr (x\<lparr>ob_Controller := Some (sc_UID owner)\<rparr>)),
     k_SetStatusCondition = (\<lambda>cs c. [c]),
     k_NestedSlice = (\<lambda>object path. []),
     k_NestedString = (\<lambda>object path. [])\<rparr>"

definition sample_foreign :: "int kobject" where
  "sample_foreign = (op_clusterService sample_cache)\<lparr>ob_Exists := True\<rparr>"

lemma sample_kube_laws: "client_laws sample_kube (\<lambda>w. w)"
  unfolding client_laws_def reads_current_def writes_mutated_def deletes_named_def sample_kube_def
  by (auto simp: sample_update_def found_def split: option.splits sum.splits if_splits)


end
