(* ===== verification/Bench_Arrival.thy ===== *)
theory Bench_Arrival
  imports Go_Text
begin

text \<open>
  The open-loop experiment of the load generator (\<open>internal/bench/gateway/arrival.go\<close>, the part of
  \<open>config.go\<close> and \<open>records.go\<close> it uses, \<open>internal/bench/measurement\<close>): validation, the plan of
  arrivals, the dispatcher with its catch-up bound, the workers, and the accounting. Latencies stay in
  nanoseconds, where the code divides by a millisecond for its report. The draws of the Zipf generator,
  the clock, the room in the queue and the record of one HTTP request are arguments.
\<close>

section \<open>Configuration\<close>

record RateStage =
  rs_Name :: string
  rs_Rate :: int
  rs_Seconds :: int

record benchConfig =
  bc_MaxScheduleLagMillis :: int
  bc_MaxCatchUp :: int
  bc_Distribution :: string
  bc_MaxPending :: int
  bc_Stages :: "RateStage list"
  bc_Keys :: int
  bc_ThinkMillis :: int
  bc_Windows :: int
  bc_DurationSeconds :: int

text \<open>The loop over the stages: their sums of requests and of seconds, or the error.\<close>

fun validateStages :: "string list \<Rightarrow> int \<Rightarrow> int \<Rightarrow> RateStage list \<Rightarrow> string + int \<times> int" where
  "validateStages names requests seconds [] = Inr (requests, seconds)"
| "validateStages names requests seconds (s # rest) =
     (if rs_Name s = [] \<or> length (rs_Name s) > 48 \<or> rs_Name s \<in> set names \<or> rs_Rate s < 1 \<or> rs_Rate s > 10000 \<or>
         rs_Seconds s < 1 \<or> rs_Seconds s > 120
      then Inl ''invalid arrival stage''
      else validateStages (rs_Name s # names) (requests + rs_Rate s * rs_Seconds s) (seconds + rs_Seconds s) rest)"

definition validateArrival :: "benchConfig \<Rightarrow> string option" where
  "validateArrival c =
     (if bc_MaxScheduleLagMillis c < 0 \<or> bc_MaxScheduleLagMillis c > 50 \<or> bc_MaxCatchUp c < 0 \<or> bc_MaxCatchUp c > 64
      then Some ''arrival scheduler requires 0-50ms lag and 0-64 catch-up slots''
      else if bc_Stages c = [] \<or> length (bc_Stages c) > 12 \<or> bc_MaxPending c < 0 \<or> bc_MaxPending c > 4096 \<or> bc_ThinkMillis c \<noteq> 0 \<or>
              bc_Windows c \<noteq> 0 \<or> bc_DurationSeconds c \<noteq> 0
      then Some ''arrival requires 1-12 stages, 0-4096 pending slots and no closed-loop timing options''
      else case validateStages [] 0 0 (bc_Stages c) of
        Inl e \<Rightarrow> Some e
      | Inr (requests, seconds) \<Rightarrow>
          if requests > 100000 \<or> seconds > 120 then Some ''arrival exceeds 100000 requests or 120s schedule''
          else if bc_Distribution c \<notin> {''hot'', ''scan'', ''zipf'', ''hot-scan'', ''hit-miss'', ''distinct''}
          then Some ''invalid arrival distribution''
          else if bc_Distribution c \<in> {''hot-scan'', ''hit-miss''} \<and> bc_Keys c < 2 then Some ''mixed cohorts require at least two keys''
          else if bc_Distribution c = ''distinct'' \<and> requests > bc_Keys c
          then Some ''distinct arrivals require at least one key per planned request''
          else None)"

section \<open>The plan\<close>

record arrivalJob =
  aj_index :: nat
  aj_key :: int
  aj_stage :: nat
  aj_offset :: duration
  aj_cohort :: string
  aj_missing :: bool
  aj_dispatched :: gotime

text \<open>Key, cohort and whether the key is missing, for the \<open>i\<close>-th request; \<open>zipf\<close> is the sequence of draws.\<close>

definition arrival_choice :: "benchConfig \<Rightarrow> (nat \<Rightarrow> int) \<Rightarrow> nat \<Rightarrow> int \<times> string \<times> bool" where
  "arrival_choice c zipf i =
     (let d = bc_Distribution c in
      if d = ''scan'' \<or> d = ''distinct'' then (int i mod bc_Keys c, d, False)
      else if d = ''zipf'' then (zipf i, d, False)
      else if d = ''hot-scan'' then
        (if i mod 2 = 0 then (0, ''hot'', False) else (1 + int (i div 2) mod (bc_Keys c - 1), ''scan'', False))
      else if d = ''hit-miss'' then
        (int (i div 2) mod bc_Keys c, if i mod 2 = 1 then ''missing'' else ''existing'', i mod 2 = 1)
      else (0, d, False))"

definition arrival_job :: "benchConfig \<Rightarrow> (nat \<Rightarrow> int) \<Rightarrow> nat \<Rightarrow> nat \<Rightarrow> duration \<Rightarrow> arrivalJob" where
  "arrival_job c zipf stage i off =
     (case arrival_choice c zipf i of (key, cohort, missing) \<Rightarrow>
        \<lparr>aj_index = i, aj_key = key, aj_stage = stage, aj_offset = off, aj_cohort = cohort, aj_missing = missing, aj_dispatched = 0\<rparr>)"

fun plan_stages :: "benchConfig \<Rightarrow> (nat \<Rightarrow> int) \<Rightarrow> nat \<Rightarrow> duration \<Rightarrow> nat \<Rightarrow> RateStage list \<Rightarrow> arrivalJob list" where
  "plan_stages c zipf stage base i [] = []"
| "plan_stages c zipf stage base i (s # rest) =
     (let count = nat (rs_Rate s * rs_Seconds s) in
      map (\<lambda>n. arrival_job c zipf stage (i + n) (base + int n * Second div rs_Rate s)) [0..<count] @
      plan_stages c zipf (Suc stage) (base + rs_Seconds s * Second) (i + count) rest)"

definition arrivalPlan :: "benchConfig \<Rightarrow> (nat \<Rightarrow> int) \<Rightarrow> arrivalJob list" where
  "arrivalPlan c zipf = plan_stages c zipf 0 0 0 (bc_Stages c)"

section \<open>Records and the dispatcher\<close>

record benchRecord =
  br_Dispatched :: bool
  br_Dispatch :: duration
  br_Stage :: string
  br_Cohort :: string
  br_Scheduled :: duration
  br_Queue :: duration
  br_Total :: duration
  br_DropReason :: string
  br_KeyIndex :: int
  br_Attempted :: bool
  br_Status :: int
  br_Elapsed :: duration
  br_Error :: string
  br_Incorrect :: bool

definition stage_of :: "benchConfig \<Rightarrow> arrivalJob \<Rightarrow> RateStage" where
  "stage_of c j = bc_Stages c ! aj_stage j"

definition planned_record :: "benchConfig \<Rightarrow> arrivalJob \<Rightarrow> benchRecord" where
  "planned_record c j =
     \<lparr>br_Dispatched = False, br_Dispatch = 0, br_Stage = rs_Name (stage_of c j), br_Cohort = aj_cohort j, br_Scheduled = aj_offset j,
      br_Queue = 0, br_Total = 0, br_DropReason = ''canceled'', br_KeyIndex = aj_key j, br_Attempted = False, br_Status = 0,
      br_Elapsed = 0, br_Error = [], br_Incorrect = False\<rparr>"

definition catchUpLimit :: "benchConfig \<Rightarrow> int" where
  "catchUpLimit c = (if bc_MaxCatchUp c = 0 then 4 else bc_MaxCatchUp c)"

definition arrivalDispatchDrop :: "duration \<Rightarrow> duration \<Rightarrow> benchConfig \<Rightarrow> int \<Rightarrow> string" where
  "arrivalDispatchDrop lag interval c catchUp =
     (let budget = (if bc_MaxScheduleLagMillis c > 0 then bc_MaxScheduleLagMillis c * Millisecond else interval) in
      if lag \<ge> budget then ''scheduler_late''
      else if catchUp \<ge> catchUpLimit c then ''catch_up_limit''
      else [])"

text \<open>
  What the dispatcher finds out about one job: the time left until it is due, whether the context ended
  during the wait, whether it is over after it, the lag, the time of dispatch, and whether the
  queue has room.
\<close>

record dispatchReading =
  dr_delay :: duration
  dr_canceled :: bool
  dr_over :: bool
  dr_lag :: duration
  dr_at :: gotime
  dr_room :: bool

text \<open>The records after the loop, and the jobs sent to the workers.\<close>

fun dispatch_loop ::
  "benchConfig \<Rightarrow> (nat \<Rightarrow> dispatchReading) \<Rightarrow> int \<Rightarrow> arrivalJob list \<Rightarrow> benchRecord list \<Rightarrow> benchRecord list \<times> arrivalJob list" where
  "dispatch_loop c rd catchUp [] rs = (rs, [])"
| "dispatch_loop c rd catchUp (j # js) rs =
     (let d = rd (aj_index j); catchUp1 = (if dr_delay d > 0 then 0 else catchUp) in
      if dr_delay d > 0 \<and> dr_canceled d \<or> dr_over d then (rs, [])
      else
        (let r = (rs ! aj_index j)\<lparr>br_Dispatch := dr_lag d\<rparr>;
             reason = arrivalDispatchDrop (dr_lag d) (Second div rs_Rate (stage_of c j)) c catchUp1 in
         if reason \<noteq> [] then dispatch_loop c rd catchUp1 js (rs[aj_index j := r\<lparr>br_DropReason := reason\<rparr>])
         else if dr_room d
         then (case dispatch_loop c rd (catchUp1 + 1) js (rs[aj_index j := r]) of
                 (rs', queue) \<Rightarrow> (rs', j\<lparr>aj_dispatched := dr_at d\<rparr> # queue))
         else dispatch_loop c rd (catchUp1 + 1) js (rs[aj_index j := r\<lparr>br_DropReason := ''client_capacity''\<rparr>])))"

text \<open>
  A worker with one job: whether the context is over, when the request begins and ends, and the record the
  client returns for it. Workers and dispatcher write different records, so their order does not matter.
\<close>

record workerReading =
  wr_over :: bool
  wr_began :: gotime
  wr_ended :: gotime
  wr_record :: benchRecord

definition work_job :: "benchConfig \<Rightarrow> gotime \<Rightarrow> (nat \<Rightarrow> workerReading) \<Rightarrow> arrivalJob \<Rightarrow> benchRecord list \<Rightarrow> benchRecord list" where
  "work_job c start wr j rs =
     (let i = aj_index j; w = wr i; due = start + aj_offset j; lag = aj_dispatched j - due in
      rs[i := (if wr_over w then (rs ! i)\<lparr>br_Dispatched := True, br_Dispatch := lag\<rparr>
               else (wr_record w)\<lparr>br_Dispatched := True, br_Dispatch := lag, br_Stage := rs_Name (stage_of c j), br_Cohort := aj_cohort j,
                                  br_Scheduled := aj_offset j, br_Queue := wr_began w - due, br_Total := wr_ended w - due\<rparr>)])"

definition arrival_records ::
  "benchConfig \<Rightarrow> (nat \<Rightarrow> int) \<Rightarrow> gotime \<Rightarrow> (nat \<Rightarrow> dispatchReading) \<Rightarrow> (nat \<Rightarrow> workerReading) \<Rightarrow> benchRecord list" where
  "arrival_records c zipf start rd wr =
     (let jobs = arrivalPlan c zipf in
      case dispatch_loop c rd 0 jobs (map (planned_record c) jobs) of (rs, queue) \<Rightarrow> fold (work_job c start wr) queue rs)"

section \<open>Accounting\<close>

record Percentiles =
  pc_Count :: nat
  pc_P50 :: duration
  pc_P95 :: duration
  pc_P99 :: duration

text \<open>\<open>rank p n\<close> is \<open>int(math.Ceil(p * float64(n)))\<close> for the percentage \<open>p\<close>, in floating point.\<close>

definition Quantiles :: "(nat \<Rightarrow> nat \<Rightarrow> nat) \<Rightarrow> duration list \<Rightarrow> Percentiles" where
  "Quantiles rank values =
     (if values = [] then \<lparr>pc_Count = 0, pc_P50 = 0, pc_P95 = 0, pc_P99 = 0\<rparr>
      else (let sorted = sort values; at = (\<lambda>p. sorted ! (rank p (length sorted) - 1)) in
            \<lparr>pc_Count = length sorted, pc_P50 = at 50, pc_P95 = at 95, pc_P99 = at 99\<rparr>))"

record tally =
  ta_Dispatched :: nat
  ta_Attempted :: nat
  ta_Success :: nat
  ta_Errors :: nat
  ta_Incorrect :: nat
  ta_Dropped :: nat
  ta_DropReasons :: "string \<Rightarrow> nat"
  ta_Statuses :: "int \<Rightarrow> nat"
  ta_dispatch :: "duration list"
  ta_q :: "duration list"
  ta_service :: "duration list"
  ta_total :: "duration list"
  ta_good :: "duration list"
  ta_bad :: "duration list"

definition no_tally :: tally where
  "no_tally = \<lparr>ta_Dispatched = 0, ta_Attempted = 0, ta_Success = 0, ta_Errors = 0, ta_Incorrect = 0, ta_Dropped = 0,
     ta_DropReasons = (\<lambda>_. 0), ta_Statuses = (\<lambda>_. 0), ta_dispatch = [], ta_q = [], ta_service = [], ta_total = [], ta_good = [], ta_bad = []\<rparr>"

definition bump :: "'a \<Rightarrow> ('a \<Rightarrow> nat) \<Rightarrow> 'a \<Rightarrow> nat" where
  "bump k m = m(k := m k + 1)"

definition count_record :: "benchRecord \<Rightarrow> tally \<Rightarrow> tally" where
  "count_record r t =
     (let t1 = (if br_Dispatched r then t\<lparr>ta_Dispatched := ta_Dispatched t + 1, ta_dispatch := ta_dispatch t @ [br_Dispatch r]\<rparr> else t) in
      if \<not> br_Attempted r then t1\<lparr>ta_Dropped := ta_Dropped t1 + 1, ta_DropReasons := bump (br_DropReason r) (ta_DropReasons t1)\<rparr>
      else
        (let t2 = t1\<lparr>ta_Attempted := ta_Attempted t1 + 1, ta_Statuses := bump (br_Status r) (ta_Statuses t1), ta_q := ta_q t1 @ [br_Queue r],
                     ta_service := ta_service t1 @ [br_Elapsed r], ta_total := ta_total t1 @ [br_Total r]\<rparr>;
             t3 = (if br_Incorrect r then t2\<lparr>ta_Incorrect := ta_Incorrect t2 + 1\<rparr> else t2);
             t4 = (if br_Error r \<noteq> [] then t3\<lparr>ta_Errors := ta_Errors t3 + 1\<rparr> else t3) in
         if br_Error r = [] \<and> \<not> br_Incorrect r then t4\<lparr>ta_Success := ta_Success t4 + 1, ta_good := ta_good t4 @ [br_Elapsed r]\<rparr>
         else t4\<lparr>ta_bad := ta_bad t4 @ [br_Elapsed r]\<rparr>))"

record ArrivalCounts =
  ac_Planned :: nat
  ac_Tally :: tally
  ac_Dispatch :: Percentiles
  ac_Queue :: Percentiles
  ac_Service :: Percentiles
  ac_Total :: Percentiles
  ac_SuccessLatency :: Percentiles
  ac_ErrorLatency :: Percentiles

definition arrivalCounts :: "(nat \<Rightarrow> nat \<Rightarrow> nat) \<Rightarrow> benchRecord list \<Rightarrow> ArrivalCounts" where
  "arrivalCounts rank records =
     (let t = fold count_record records no_tally in
      \<lparr>ac_Planned = length records, ac_Tally = t, ac_Dispatch = Quantiles rank (ta_dispatch t), ac_Queue = Quantiles rank (ta_q t),
       ac_Service = Quantiles rank (ta_service t), ac_Total = Quantiles rank (ta_total t),
       ac_SuccessLatency = Quantiles rank (ta_good t), ac_ErrorLatency = Quantiles rank (ta_bad t)\<rparr>)"

definition arrival_status :: "bool \<Rightarrow> ArrivalCounts \<Rightarrow> string" where
  "arrival_status over counts =
     (if ta_Incorrect (ac_Tally counts) > 0 \<or> over then ''failed''
      else if ta_Dropped (ac_Tally counts) > 0 then ''client-limited''
      else if ta_Errors (ac_Tally counts) > 0 then ''completed-with-errors''
      else ''passed'')"

text \<open>One stage of the report, with its cohorts.\<close>

definition arrival_stage :: "(nat \<Rightarrow> nat \<Rightarrow> nat) \<Rightarrow> benchRecord list \<Rightarrow> RateStage \<Rightarrow> ArrivalCounts \<times> (string \<Rightarrow> ArrivalCounts option)" where
  "arrival_stage rank records s =
     (let subset = filter (\<lambda>r. br_Stage r = rs_Name s) records in
      (arrivalCounts rank subset,
       \<lambda>cohort. case filter (\<lambda>r. br_Cohort r = cohort) subset of [] \<Rightarrow> None | group_records \<Rightarrow> Some (arrivalCounts rank group_records)))"

text \<open>
  \<open>runArrival\<close> after its directory exists: \<open>over\<close> is the context at the end, \<open>written\<close> the outcome of
  writing the evidence.
\<close>

record arrivalResult =
  ar_Records :: "benchRecord list"
  ar_Counts :: ArrivalCounts
  ar_Stages :: "(ArrivalCounts \<times> (string \<Rightarrow> ArrivalCounts option)) list"
  ar_Status :: string
  ar_Error :: "goerror option"

definition runArrival ::
  "(nat \<Rightarrow> nat \<Rightarrow> nat) \<Rightarrow> benchConfig \<Rightarrow> (nat \<Rightarrow> int) \<Rightarrow> gotime \<Rightarrow> (nat \<Rightarrow> dispatchReading) \<Rightarrow> (nat \<Rightarrow> workerReading) \<Rightarrow> bool \<Rightarrow>
   goerror option \<Rightarrow> arrivalResult" where
  "runArrival rank c zipf start rd wr over written =
     (let records = arrival_records c zipf start rd wr; counts = arrivalCounts rank records; status = arrival_status over counts in
      \<lparr>ar_Records = records, ar_Counts = counts, ar_Stages = map (arrival_stage rank records) (bc_Stages c), ar_Status = status,
       ar_Error = (case written of
                     Some e \<Rightarrow> Some e
                   | None \<Rightarrow> if status \<noteq> ''passed'' then Some (NewError (''arrival outcome: '' @ status @ ''; raw evidence retained'')) else None)\<rparr>)"

section \<open>The plan is what the stages ask for\<close>

definition stage_total :: "RateStage list \<Rightarrow> nat" where
  "stage_total ss = sum_list (map (\<lambda>s. nat (rs_Rate s * rs_Seconds s)) ss)"

lemma arrival_job_sel [simp]:
  "aj_index (arrival_job c zipf stage i off) = i" "aj_stage (arrival_job c zipf stage i off) = stage" "aj_offset (arrival_job c zipf stage i off) = off"
  by (simp_all add: arrival_job_def split: prod.split)

lemma plan_stages_index: "map aj_index (plan_stages c zipf stage base i ss) = [i..<i + stage_total ss]"
proof (induction ss arbitrary: stage base i)
  case (Cons s ss)
  let ?n = "nat (rs_Rate s * rs_Seconds s)"
  have "map ((+) i) [0..<?n] = [i..<i + ?n]" by (rule nth_equalityI) auto
  then show ?case using Cons.IH [of "Suc stage" "base + rs_Seconds s * Second" "i + ?n"]
    by (simp add: stage_total_def comp_def Let_def upt_add_eq_append [of i "i + ?n", symmetric] add.assoc [symmetric])
qed (simp add: stage_total_def)

lemma arrivalPlan_index: "map aj_index (arrivalPlan c zipf) = [0..<stage_total (bc_Stages c)]"
  by (simp add: arrivalPlan_def plan_stages_index)

lemma arrivalPlan_length: "length (arrivalPlan c zipf) = stage_total (bc_Stages c)"
  using arg_cong [OF arrivalPlan_index, of length c zipf] by simp

lemma arrivalPlan_nth: "j \<in> set (arrivalPlan c zipf) \<Longrightarrow> aj_index j < length (arrivalPlan c zipf) \<and> arrivalPlan c zipf ! aj_index j = j"
proof -
  assume "j \<in> set (arrivalPlan c zipf)"
  then obtain i where i: "i < length (arrivalPlan c zipf)" "arrivalPlan c zipf ! i = j" by (auto simp: in_set_conv_nth)
  then have "aj_index j = i" using arg_cong [OF arrivalPlan_index, of "\<lambda>xs. xs ! i" c zipf] by (simp add: arrivalPlan_length)
  then show ?thesis using i by simp
qed

lemma plan_stages_stage:
  "j \<in> set (plan_stages c zipf stage base i ss) \<Longrightarrow> stage \<le> aj_stage j \<and> aj_stage j < stage + length ss"
  by (induction ss arbitrary: stage base i) (fastforce simp: Let_def)+

lemma arrivalPlan_stage: "j \<in> set (arrivalPlan c zipf) \<Longrightarrow> stage_of c j \<in> set (bc_Stages c)"
  using plan_stages_stage [of j c zipf 0 0 0 "bc_Stages c"] by (simp add: arrivalPlan_def stage_of_def)

text \<open>The schedule never goes back, and every arrival lies in the time of its stage.\<close>

lemma div_below:
  fixes a b r :: int
  assumes "0 < r" "a < r * b"
  shows "a div r < b"
proof -
  have "(a + r * (- b)) div r < 0" using assms by (simp add: pos_imp_zdiv_neg_iff)
  moreover have "(a + r * (- b)) div r = - b + a div r" using assms(1) by (intro div_mult_self2) simp
  ultimately show ?thesis by simp
qed

lemma plan_stages_offsets:
  assumes "\<And>s. s \<in> set ss \<Longrightarrow> 1 \<le> rs_Rate s \<and> 1 \<le> rs_Seconds s"
  shows "sorted (map aj_offset (plan_stages c zipf stage base i ss)) \<and>
    (\<forall>j\<in>set (plan_stages c zipf stage base i ss). base \<le> aj_offset j \<and> aj_offset j < base + sum_list (map rs_Seconds ss) * Second)"
  using assms
proof (induction ss arbitrary: stage base i)
  case (Cons s ss)
  let ?n = "nat (rs_Rate s * rs_Seconds s)" and ?base = "base + rs_Seconds s * Second"
  have s: "1 \<le> rs_Rate s" "1 \<le> rs_Seconds s" using Cons.prems by auto
  have rest: "0 \<le> sum_list (map rs_Seconds ss)" using Cons.prems by (intro sum_list_nonneg) force
  have off: "0 \<le> int n * Second div rs_Rate s" "int n * Second div rs_Rate s < rs_Seconds s * Second" if "n < ?n" for n
  proof -
    show "0 \<le> int n * Second div rs_Rate s" using s(1) by (simp add: pos_imp_zdiv_nonneg_iff Second_def)
    have "int n < rs_Rate s * rs_Seconds s" using that by linarith
    then have "int n * Second < rs_Rate s * (rs_Seconds s * Second)" by (simp add: Second_def)
    then show "int n * Second div rs_Rate s < rs_Seconds s * Second" using s(1) by (intro div_below) simp_all
  qed
  have first: "sorted (map (\<lambda>n. base + int n * Second div rs_Rate s) [0..<?n])"
    using s(1) by (auto simp: sorted_iff_nth_mono Second_def intro!: zdiv_mono1)
  have tail: "0 \<le> sum_list (map rs_Seconds ss) * Second" using rest by (simp add: Second_def)
  define A where "A = map (\<lambda>n. arrival_job c zipf stage (i + n) (base + int n * Second div rs_Rate s)) [0..<?n]"
  define B where "B = plan_stages c zipf (Suc stage) ?base (i + ?n) ss"
  have A: "sorted (map aj_offset A)" "\<And>j. j \<in> set A \<Longrightarrow> base \<le> aj_offset j \<and> aj_offset j < ?base"
    using first off by (auto simp: A_def comp_def)
  have B: "sorted (map aj_offset B)" "\<And>j. j \<in> set B \<Longrightarrow> ?base \<le> aj_offset j \<and> aj_offset j < ?base + sum_list (map rs_Seconds ss) * Second"
    using Cons.IH [of "Suc stage" ?base "i + ?n"] Cons.prems unfolding B_def by auto
  have plan: "plan_stages c zipf stage base i (s # ss) = A @ B" by (simp add: A_def B_def Let_def)
  have sum: "base + sum_list (map rs_Seconds (s # ss)) * Second = ?base + sum_list (map rs_Seconds ss) * Second" by (simp add: distrib_right)
  have "sorted (map aj_offset (A @ B))" using A B by (force simp: sorted_append)
  moreover have "\<forall>j\<in>set (A @ B). base \<le> aj_offset j \<and> aj_offset j < ?base + sum_list (map rs_Seconds ss) * Second"
    using A(2) B(2) tail s(2) by (fastforce simp: Second_def)
  ultimately show ?case unfolding plan sum by blast
qed simp

text \<open>Keys stay within the key space, and distinct arrivals never share one.\<close>

lemma arrival_choice_key:
  assumes "1 \<le> bc_Keys c" "bc_Distribution c = ''hot-scan'' \<Longrightarrow> 2 \<le> bc_Keys c" "\<And>n. 0 \<le> zipf n \<and> zipf n < bc_Keys c"
  shows "0 \<le> fst (arrival_choice c zipf i) \<and> fst (arrival_choice c zipf i) < bc_Keys c"
proof -
  have "int (i div 2) mod (bc_Keys c - 1) < bc_Keys c - 1" "0 \<le> int (i div 2) mod (bc_Keys c - 1)" if "bc_Distribution c = ''hot-scan''"
    using assms(2) [OF that] by simp_all
  then show ?thesis using assms(1,3) by (auto simp: arrival_choice_def Let_def)
qed

lemma arrivalPlan_distinct:
  assumes "bc_Distribution c = ''distinct''" "int (stage_total (bc_Stages c)) \<le> bc_Keys c"
  shows "distinct (map aj_key (arrivalPlan c zipf))"
proof -
  have key: "aj_key j = int (aj_index j) mod bc_Keys c" if "j \<in> set (plan_stages c zipf k base i ss)" for j k base i ss
    using that assms(1) by (induction ss arbitrary: k base i) (auto simp: Let_def arrival_job_def arrival_choice_def)
  have "aj_key j = int (aj_index j)" if "j \<in> set (arrivalPlan c zipf)" for j
    using key [of j 0 0 0 "bc_Stages c"] that arrivalPlan_nth [OF that] assms(2) by (simp add: arrivalPlan_def [symmetric] arrivalPlan_length)
  then have "map aj_key (arrivalPlan c zipf) = map int (map aj_index (arrivalPlan c zipf))" by simp
  then show ?thesis unfolding arrivalPlan_index by (simp add: distinct_map)
qed

section \<open>The dispatcher\<close>

lemma dispatch_loop_length: "length (fst (dispatch_loop c rd k js rs)) = length rs"
  by (induction c rd k js rs rule: dispatch_loop.induct) (auto simp: Let_def split: prod.splits)

lemma dispatch_loop_queue:
  "j \<in> set (snd (dispatch_loop c rd k js rs)) \<Longrightarrow> \<exists>j'\<in>set js. aj_index j = aj_index j' \<and> aj_stage j = aj_stage j'"
  by (induction c rd k js rs rule: dispatch_loop.induct) (fastforce simp: Let_def split: prod.splits if_splits)+

text \<open>Without a wait in between, the dispatcher sends at most as many requests as it may catch up.\<close>

lemma dispatch_burst:
  assumes "\<And>j. j \<in> set js \<Longrightarrow> dr_delay (rd (aj_index j)) \<le> 0" "k \<le> catchUpLimit c"
  shows "int (length (snd (dispatch_loop c rd k js rs))) \<le> catchUpLimit c - k"
  using assms
proof (induction c rd k js rs rule: dispatch_loop.induct)
  case (2 c rd k j js rs)
  have d: "\<not> 0 < dr_delay (rd (aj_index j))" using "2.prems"(1) [of j] by simp
  have more: "k + 1 \<le> catchUpLimit c" if "arrivalDispatchDrop lag interval c k = []" for lag interval
    using that by (auto simp: arrivalDispatchDrop_def Let_def split: if_splits)
  show ?case
    using "2.IH" "2.prems" d more by (fastforce simp: Let_def split: prod.splits)
qed simp

lemma dispatch_loop_stage:
  "i < length rs \<Longrightarrow> br_Stage (fst (dispatch_loop c rd k js rs) ! i) = br_Stage (rs ! i)"
proof (induction c rd k js rs rule: dispatch_loop.induct)
  case (2 c rd k j js rs)
  have keep: "br_Stage (rs[aj_index j := (rs ! aj_index j)\<lparr>br_Dispatch := x\<rparr>] ! i) = br_Stage (rs ! i)"
    "br_Stage (rs[aj_index j := (rs ! aj_index j)\<lparr>br_Dispatch := x, br_DropReason := y\<rparr>] ! i) = br_Stage (rs ! i)" for x y
    by (cases "aj_index j < length rs"; simp add: nth_list_update list_update_beyond)+
  show ?case using "2.IH" "2.prems" keep by (auto simp: Let_def split: prod.splits)
qed simp

section \<open>Every planned request is accounted for\<close>

lemma tally_fold:
  "let t' = fold count_record rs t in
     ta_Attempted t' = ta_Attempted t + length (filter br_Attempted rs) \<and>
     ta_Dropped t' = ta_Dropped t + length (filter (\<lambda>r. \<not> br_Attempted r) rs) \<and>
     ta_Incorrect t' = ta_Incorrect t + length (filter (\<lambda>r. br_Attempted r \<and> br_Incorrect r) rs) \<and>
     ta_Errors t' = ta_Errors t + length (filter (\<lambda>r. br_Attempted r \<and> br_Error r \<noteq> []) rs) \<and>
     ta_Success t' = ta_Success t + length (filter (\<lambda>r. br_Attempted r \<and> br_Error r = [] \<and> \<not> br_Incorrect r) rs)"
proof (induction rs arbitrary: t)
  case (Cons r rs)
  show ?case using Cons.IH [of "count_record r t"] by (simp add: count_record_def Let_def)
qed simp

text \<open>A request that was queued but never attempted contributes its dispatch lag to the percentiles.\<close>

lemma dispatch_lag_counts_canceled:
  "br_Dispatched r \<Longrightarrow> \<not> br_Attempted r \<Longrightarrow>
   ta_dispatch (count_record r t) = ta_dispatch t @ [br_Dispatch r] \<and> ta_Attempted (count_record r t) = ta_Attempted t"
  by (simp add: count_record_def)

lemma length_filter_all: "length (filter P xs) = length xs \<longleftrightarrow> (\<forall>x\<in>set xs. P x)"
  using length_filter_less [of _ xs P] by (metis filter_True less_irrefl)

lemma arrivalCounts_exact:
  fixes rank rs
  defines "t \<equiv> ac_Tally (arrivalCounts rank rs)"
  shows "ac_Planned (arrivalCounts rank rs) = length rs" "ta_Attempted t + ta_Dropped t = length rs"
    "ta_Dropped t = 0 \<longleftrightarrow> (\<forall>r\<in>set rs. br_Attempted r)" "ta_Incorrect t = 0 \<longleftrightarrow> (\<forall>r\<in>set rs. br_Attempted r \<longrightarrow> \<not> br_Incorrect r)"
    "ta_Errors t = 0 \<longleftrightarrow> (\<forall>r\<in>set rs. br_Attempted r \<longrightarrow> br_Error r = [])"
    "ta_Success t = length rs \<longleftrightarrow> (\<forall>r\<in>set rs. br_Attempted r \<and> br_Error r = [] \<and> \<not> br_Incorrect r)"
proof -
  let ?t = "fold count_record rs no_tally"
  have t: "t = ?t" by (simp add: t_def arrivalCounts_def Let_def)
  note f = tally_fold [of rs no_tally, unfolded Let_def]
  show "ac_Planned (arrivalCounts rank rs) = length rs" by (simp add: arrivalCounts_def Let_def)
  show "ta_Attempted t + ta_Dropped t = length rs" using f sum_length_filter_compl [of br_Attempted rs] by (simp add: t no_tally_def)
  show "ta_Dropped t = 0 \<longleftrightarrow> (\<forall>r\<in>set rs. br_Attempted r)" using f by (simp add: t no_tally_def filter_empty_conv)
  show "ta_Incorrect t = 0 \<longleftrightarrow> (\<forall>r\<in>set rs. br_Attempted r \<longrightarrow> \<not> br_Incorrect r)" using f by (simp add: t no_tally_def filter_empty_conv)
  show "ta_Errors t = 0 \<longleftrightarrow> (\<forall>r\<in>set rs. br_Attempted r \<longrightarrow> br_Error r = [])" using f by (simp add: t no_tally_def filter_empty_conv)
  show "ta_Success t = length rs \<longleftrightarrow> (\<forall>r\<in>set rs. br_Attempted r \<and> br_Error r = [] \<and> \<not> br_Incorrect r)"
    using f by (simp add: t no_tally_def length_filter_all)
qed

lemma arrival_status_passed:
  "arrival_status over (arrivalCounts rank rs) = ''passed'' \<longleftrightarrow> \<not> over \<and> ta_Success (ac_Tally (arrivalCounts rank rs)) = length rs"
  unfolding arrivalCounts_exact(6)
  using arrivalCounts_exact(3-5) [of rank rs] by (auto simp: arrival_status_def)

lemma work_job_length: "length (fold (work_job c start wr) queue rs) = length rs"
  by (induction queue arbitrary: rs) (simp_all add: work_job_def Let_def)

lemma work_job_stage:
  assumes "\<And>j. j \<in> set queue \<Longrightarrow> rs_Name (stage_of c j) = names (aj_index j)" "\<And>i. i < length rs \<Longrightarrow> br_Stage (rs ! i) = names i"
    and "i < length rs"
  shows "br_Stage (fold (work_job c start wr) queue rs ! i) = names i"
  using assms
proof (induction queue arbitrary: rs)
  case (Cons j queue)
  have "br_Stage (work_job c start wr j rs ! n) = names n" if "n < length rs" for n
    using Cons.prems(1) [of j] Cons.prems(2) [OF that] that
    by (cases "aj_index j < length rs") (auto simp: work_job_def Let_def nth_list_update list_update_beyond)
  then show ?case using Cons.IH [of "work_job c start wr j rs"] Cons.prems by (simp add: work_job_def Let_def)
qed simp

text \<open>The record of a request carries the name of its stage, whatever happened to it.\<close>

lemma arrival_records_stage:
  assumes "i < length (arrivalPlan c zipf)"
  shows "length (arrival_records c zipf start rd wr) = length (arrivalPlan c zipf)"
    "br_Stage (arrival_records c zipf start rd wr ! i) = rs_Name (stage_of c (arrivalPlan c zipf ! i))"
proof -
  let ?jobs = "arrivalPlan c zipf" and ?names = "\<lambda>i. rs_Name (stage_of c (arrivalPlan c zipf ! i))"
  obtain rs queue where d: "dispatch_loop c rd 0 ?jobs (map (planned_record c) ?jobs) = (rs, queue)" by fastforce
  have len: "length rs = length ?jobs" using dispatch_loop_length [of c rd 0 ?jobs "map (planned_record c) ?jobs"] d by simp
  show "length (arrival_records c zipf start rd wr) = length ?jobs" by (simp add: arrival_records_def d work_job_length len)
  have st: "br_Stage (rs ! n) = ?names n" if "n < length rs" for n
    using dispatch_loop_stage [of n "map (planned_record c) ?jobs" c rd 0 ?jobs] d that len by (simp add: planned_record_def)
  have q: "rs_Name (stage_of c j) = ?names (aj_index j)" if "j \<in> set queue" for j
  proof -
    obtain j' where "j' \<in> set ?jobs" "aj_index j = aj_index j'" "aj_stage j = aj_stage j'"
      using dispatch_loop_queue [of j c rd 0 ?jobs "map (planned_record c) ?jobs"] d \<open>j \<in> set queue\<close> by auto
    then show ?thesis using arrivalPlan_nth [of j' c zipf] by (simp add: stage_of_def)
  qed
  show "br_Stage (arrival_records c zipf start rd wr ! i) = ?names i"
    using work_job_stage [of queue c ?names rs i start wr] q st assms len by (simp add: arrival_records_def d)
qed

lemma validateStages_exact:
  assumes "validateStages names requests seconds ss = Inr (requests', seconds')"
  shows "requests' = requests + int (stage_total ss)" "seconds' = seconds + sum_list (map rs_Seconds ss)" "distinct (map rs_Name ss)"
    "set (map rs_Name ss) \<inter> set names = {}" "\<forall>s\<in>set ss. 1 \<le> rs_Rate s \<and> 1 \<le> rs_Seconds s"
  using assms
proof (induction ss arbitrary: names requests seconds)
  case (Cons s ss)
  {
    case 1
    with Cons.IH(1) [of "rs_Name s # names" "requests + rs_Rate s * rs_Seconds s" "seconds + rs_Seconds s"] show ?case by (simp add: stage_total_def split: if_splits)
  next
    case 2
    with Cons.IH(2) [of "rs_Name s # names" "requests + rs_Rate s * rs_Seconds s" "seconds + rs_Seconds s"] show ?case by (simp split: if_splits)
  next
    case 3
    with Cons.IH(3,4) [of "rs_Name s # names" "requests + rs_Rate s * rs_Seconds s" "seconds + rs_Seconds s"] show ?case by (simp split: if_splits)
  next
    case 4
    with Cons.IH(4) [of "rs_Name s # names" "requests + rs_Rate s * rs_Seconds s" "seconds + rs_Seconds s"] show ?case by (simp split: if_splits)
  next
    case 5
    with Cons.IH(5) [of "rs_Name s # names" "requests + rs_Rate s * rs_Seconds s" "seconds + rs_Seconds s"] show ?case by (simp split: if_splits)
  }
qed (simp_all add: stage_total_def)

lemma validateArrival_stages:
  assumes "validateArrival c = None"
  shows "distinct (map rs_Name (bc_Stages c))" "stage_total (bc_Stages c) \<le> 100000" "sum_list (map rs_Seconds (bc_Stages c)) \<le> 120"
    "\<forall>s\<in>set (bc_Stages c). 1 \<le> rs_Rate s \<and> 1 \<le> rs_Seconds s" "bc_Distribution c = ''distinct'' \<Longrightarrow> int (stage_total (bc_Stages c)) \<le> bc_Keys c"
proof -
  obtain requests seconds where v: "validateStages [] 0 0 (bc_Stages c) = Inr (requests, seconds)" "requests \<le> 100000" "seconds \<le> 120"
    and d: "bc_Distribution c = ''distinct'' \<longrightarrow> requests \<le> bc_Keys c"
    using assms by (auto simp: validateArrival_def not_less split: if_splits sum.splits prod.splits)
  note e = validateStages_exact [OF v(1)]
  show "distinct (map rs_Name (bc_Stages c))" by (rule e(3))
  show "stage_total (bc_Stages c) \<le> 100000" using e(1) v(2) by simp
  show "sum_list (map rs_Seconds (bc_Stages c)) \<le> 120" using e(2) v(3) by simp
  show "\<forall>s\<in>set (bc_Stages c). 1 \<le> rs_Rate s \<and> 1 \<le> rs_Seconds s" by (rule e(5))
  show "bc_Distribution c = ''distinct'' \<Longrightarrow> int (stage_total (bc_Stages c)) \<le> bc_Keys c" using e(1) d by simp
qed

lemma filter_partition:
  "distinct ns \<Longrightarrow> sum_list (map (\<lambda>n. length (filter (\<lambda>r. f r = n) rs)) ns) = length (filter (\<lambda>r. f r \<in> set ns) rs)"
proof (induction ns)
  case (Cons n ns)
  have "length (filter (\<lambda>r. f r \<in> set (n # ns)) rs) = length (filter (\<lambda>r. f r = n) rs) + length (filter (\<lambda>r. f r \<in> set ns) rs)"
    using Cons.prems by (induction rs) auto
  then show ?case using Cons by simp
qed simp

lemma arrival_records_length: "length (arrival_records c zipf start rd wr) = stage_total (bc_Stages c)"
proof (cases "arrivalPlan c zipf")
  case Nil
  then show ?thesis using arrivalPlan_length [of c zipf] by (simp add: arrival_records_def)
next
  case (Cons j js)
  then show ?thesis using arrival_records_stage(1) [of 0 c zipf] arrivalPlan_length [of c zipf] by simp
qed

lemma arrival_stages_partition:
  assumes "validateArrival c = None"
  shows "sum_list (map (ac_Planned \<circ> fst \<circ> arrival_stage rank (arrival_records c zipf start rd wr)) (bc_Stages c)) = stage_total (bc_Stages c)"
proof -
  let ?rs = "arrival_records c zipf start rd wr"
  have len: "length ?rs = stage_total (bc_Stages c)" by (rule arrival_records_length)
  have "br_Stage r \<in> set (map rs_Name (bc_Stages c))" if "r \<in> set ?rs" for r
  proof -
    obtain i where i: "i < length ?rs" "?rs ! i = r" using \<open>r \<in> set ?rs\<close> by (auto simp: in_set_conv_nth)
    then have p: "i < length (arrivalPlan c zipf)" by (simp add: len arrivalPlan_length)
    from arrival_records_stage(2) [OF p] i(2) arrivalPlan_stage [OF nth_mem [OF p]] show ?thesis by auto
  qed
  then have "filter (\<lambda>r. br_Stage r \<in> set (map rs_Name (bc_Stages c))) ?rs = ?rs" by (auto simp: filter_id_conv)
  then show ?thesis
    using filter_partition [OF validateArrival_stages(1) [OF assms], of br_Stage ?rs] len
    by (simp add: arrival_stage_def Let_def comp_def arrivalCounts_exact(1))
qed

text \<open>
  C39: an arrival experiment hides no request. For every configuration it accepts, whatever the clock,
  the queue, the workers and the servers do: the report covers exactly the planned requests, at most
  100000, each attempted or dropped and each in exactly one stage; it says \<open>passed\<close> exactly if the
  experiment was not cut short and every planned request was attempted and answered correctly without
  an error, and only then, with the evidence written, does the run return no error.
\<close>

theorem arrival_accounts_for_all:
  assumes "validateArrival c = None"
  shows "let r = runArrival rank c zipf start rd wr over written; t = ac_Tally (ar_Counts r);
      n = sum_list (map (\<lambda>s. nat (rs_Rate s * rs_Seconds s)) (bc_Stages c)) in
    n \<le> 100000 \<and> ac_Planned (ar_Counts r) = n \<and> ta_Attempted t + ta_Dropped t = n \<and>
    sum_list (map (ac_Planned \<circ> fst) (ar_Stages r)) = n \<and>
    (ar_Status r = ''passed'' \<longleftrightarrow> \<not> over \<and> ta_Success t = n) \<and>
    (ta_Success t = n \<longleftrightarrow> (\<forall>q\<in>set (ar_Records r). br_Attempted q \<and> br_Error q = [] \<and> \<not> br_Incorrect q)) \<and>
    (ar_Error r = None \<longleftrightarrow> written = None \<and> ar_Status r = ''passed'')"
  using validateArrival_stages(2) [OF assms] arrival_stages_partition [OF assms, of rank zipf start rd wr]
    arrivalCounts_exact(1,2,6) [of rank "arrival_records c zipf start rd wr"]
    arrival_status_passed [of over rank "arrival_records c zipf start rd wr"] arrival_records_length [of c zipf start rd wr]
  by (simp add: runArrival_def Let_def stage_total_def comp_assoc split: option.split)

definition sample_arrival :: benchConfig where
  "sample_arrival = \<lparr>bc_MaxScheduleLagMillis = 0, bc_MaxCatchUp = 0, bc_Distribution = ''distinct'', bc_MaxPending = 1,
     bc_Stages = [\<lparr>rs_Name = ''a'', rs_Rate = 1, rs_Seconds = 2\<rparr>], bc_Keys = 2, bc_ThinkMillis = 0, bc_Windows = 0, bc_DurationSeconds = 0\<rparr>"

theorem arrival_accounts_for_all_witness:
  "ac_Planned (ar_Counts (runArrival (\<lambda>p n. n) sample_arrival (\<lambda>_. 0) 0
      (\<lambda>_. \<lparr>dr_delay = 1, dr_canceled = False, dr_over = False, dr_lag = 0, dr_at = 0, dr_room = False\<rparr>)
      (\<lambda>_. \<lparr>wr_over = True, wr_began = 0, wr_ended = 0, wr_record = planned_record sample_arrival (arrival_job sample_arrival (\<lambda>_. 0) 0 0 0)\<rparr>)
      False None)) = 2"
proof -
  have "validateArrival sample_arrival = None" by (simp add: validateArrival_def sample_arrival_def)
  from arrival_accounts_for_all [OF this] show ?thesis by (simp add: Let_def sample_arrival_def)
qed

end
