(* ===== verification/Validation_Report.thy ===== *)
theory Validation_Report
  imports Go_IP Go_JSON
begin

text \<open>
  The report over a validation run (\<open>internal/validation/report\<close>): test events, Ginkgo specs, performance
  trials, and the verdict of \<open>Generate\<close>. The run directory is a record of what reading each file gives;
  the JSON documents in it arrive decoded (or with the decoder's error). Rendering is left out, and so are the
  quotes of \<open>%q\<close> in two error texts.
\<close>

section \<open>Stages\<close>

text \<open>An error of the file system, with its text; \<open>NotExist\<close> is what \<open>os.IsNotExist\<close> accepts.\<close>

datatype fileError = NotExist string | FileError string

fun fileMessage :: "fileError \<Rightarrow> string" where
  "fileMessage (NotExist m) = m"
| "fileMessage (FileError m) = m"

record Stage =
  sg_Name :: string
  sg_ExitCode :: int
  sg_Seconds :: int
  sg_Passed :: "nat option"
  sg_Failed :: "nat option"
  sg_Skipped :: "nat option"
  sg_Pending :: "nat option"
  sg_CountSource :: string
  sg_Notes :: "string list"
  sg_Failures :: "string list"
  sg_Evidence :: "bytes list"

definition fail_with :: "string list \<Rightarrow> Stage \<Rightarrow> Stage" where
  "fail_with ms s = s\<lparr>sg_Failures := sg_Failures s @ ms\<rparr>"

definition set_counts :: "nat \<times> nat \<times> nat \<times> nat \<Rightarrow> string \<Rightarrow> Stage \<Rightarrow> Stage" where
  "set_counts n source s = (case n of (passed, failed, skipped, pending) \<Rightarrow>
     s\<lparr>sg_Passed := Some passed, sg_Failed := Some failed, sg_Skipped := Some skipped, sg_Pending := Some pending, sg_CountSource := source\<rparr>)"

section \<open>Test events\<close>

record testEvent =
  te_Action :: string
  te_Package :: string
  te_Test :: string
  te_Output :: string

text \<open>\<open>strings.Cut\<close> at a longer separator: what follows its first occurrence.\<close>

fun cut_after :: "string \<Rightarrow> string \<Rightarrow> string option" where
  "cut_after sep [] = (if sep = [] then Some [] else None)"
| "cut_after sep (c # s) = (if HasPrefix (c # s) sep then Some (TrimPrefix (c # s) sep) else cut_after sep s)"

definition event_counts :: "testEvent \<Rightarrow> nat \<times> nat \<times> nat \<times> nat \<Rightarrow> nat \<times> nat \<times> nat \<times> nat" where
  "event_counts e = (\<lambda>(passed, failed, skipped, pending).
     if te_Test e = [] then (passed, failed, skipped, pending)
     else if te_Action e = ''pass'' then (passed + 1, failed, skipped, pending)
     else if te_Action e = ''fail'' then (passed, failed + 1, skipped, pending)
     else if te_Action e = ''skip'' then (passed, failed, skipped + 1, pending)
     else (passed, failed, skipped, pending))"

definition event_failures :: "testEvent \<Rightarrow> string list" where
  "event_failures e =
     (if te_Action e \<noteq> ''fail'' then []
      else if te_Test e \<noteq> [] then [te_Package e @ ''/'' @ te_Test e] else [''package '' @ te_Package e])"

text \<open>The lines of the stream, decoded or with the error of the decoder, then the scanner's own error.\<close>

fun scan_events ::
  "string \<Rightarrow> fileError option \<Rightarrow> (string + testEvent) list \<Rightarrow> nat \<times> nat \<times> nat \<times> nat \<Rightarrow> Stage \<Rightarrow> string option \<times> Stage" where
  "scan_events path scanErr [] n s =
     (case scanErr of Some e \<Rightarrow> (Some (fileMessage e), s) | None \<Rightarrow> (None, set_counts n ''go-test-events'' s))"
| "scan_events path scanErr (Inl e # rest) n s = (Some (''invalid test event in '' @ path @ '': '' @ e), s)"
| "scan_events path scanErr (Inr e # rest) n s =
     (let s1 = fail_with (event_failures e) s in
      case cut_after ''EVIDENCE '' (te_Output e) of
        None \<Rightarrow> scan_events path scanErr rest (event_counts e n) s1
      | Some raw \<Rightarrow>
          (let payload = TrimSpace raw in
           if \<not> json_Valid payload then (Some (''invalid scenario evidence: '' @ payload), s1)
           else scan_events path scanErr rest (event_counts e n) (s1\<lparr>sg_Evidence := sg_Evidence s1 @ [payload]\<rparr>)))"

type_synonym eventFile = "fileError + (string + testEvent) list \<times> fileError option"

definition parseEvents :: "string \<Rightarrow> eventFile \<Rightarrow> Stage \<Rightarrow> string option \<times> Stage" where
  "parseEvents path file s =
     (case file of
        Inl (NotExist _) \<Rightarrow> (None, s)
      | Inl (FileError m) \<Rightarrow> (Some m, s)
      | Inr (events, scanErr) \<Rightarrow> scan_events path scanErr events (0, 0, 0, 0) s)"

section \<open>Ginkgo specs\<close>

record ginkgoSpec =
  gs_LeafNodeType :: string
  gs_LeafNodeText :: string
  gs_Containers :: "string list"
  gs_State :: string
  gs_Message :: string

record ginkgoSuite =
  gk_Description :: string
  gk_Succeeded :: "bool option"
  gk_Specs :: "ginkgoSpec list option"

fun strings_Join :: "string \<Rightarrow> string list \<Rightarrow> string" where
  "strings_Join sep [] = []"
| "strings_Join sep [s] = s"
| "strings_Join sep (s # rest) = s @ sep @ strings_Join sep rest"

definition failedStates :: "string list" where
  "failedStates = [''failed'', ''timedout'', ''panicked'', ''interrupted'', ''aborted'']"

type_synonym counts = "nat \<times> nat \<times> nat \<times> nat"

definition count_spec :: "string \<Rightarrow> counts \<Rightarrow> counts" where
  "count_spec state = (\<lambda>(passed, failed, skipped, pending).
     if state = ''passed'' then (passed + 1, failed, skipped, pending)
     else if state = ''skipped'' then (passed, failed, skipped + 1, pending)
     else if state = ''pending'' then (passed, failed, skipped, pending + 1)
     else (passed, failed + 1, skipped, pending))"

fun ginkgo_specs :: "string \<Rightarrow> ginkgoSpec list \<Rightarrow> counts \<times> string list \<Rightarrow> string + counts \<times> string list" where
  "ginkgo_specs suite [] acc = Inr acc"
| "ginkgo_specs suite (spec # rest) (n, failures) =
     (if gs_LeafNodeType spec = [] then Inl ''missing LeafNodeType''
      else if gs_State spec \<notin> set ([''passed'', ''skipped'', ''pending''] @ failedStates)
      then Inl (''unknown Ginkgo spec state '' @ gs_State spec)
      else
        (let name = strings_Join '' / '' (gs_Containers spec @ [gs_LeafNodeText spec]);
             failures1 = (if gs_State spec \<in> set failedStates
                          then failures @ [suite @ '': '' @ name @ '' ('' @ gs_State spec @ ''): '' @ gs_Message spec] else failures) in
         ginkgo_specs suite rest (if gs_LeafNodeType spec \<noteq> ''It'' then n else count_spec (gs_State spec) n, failures1)))"

fun ginkgo_suites :: "ginkgoSuite list \<Rightarrow> counts \<times> string list \<Rightarrow> string + counts \<times> string list" where
  "ginkgo_suites [] acc = Inr acc"
| "ginkgo_suites (suite # rest) (n, failures) =
     (case gk_Succeeded suite of
        None \<Rightarrow> Inl ''missing SuiteSucceeded''
      | Some ok \<Rightarrow>
          (let failures1 = (if ok then failures else failures @ [''Ginkgo suite failed: '' @ gk_Description suite]) in
           case gk_Specs suite of
             None \<Rightarrow> Inl ''missing SpecReports''
           | Some specs \<Rightarrow>
               (case ginkgo_specs (gk_Description suite) specs (n, failures1) of
                  Inl e \<Rightarrow> Inl e
                | Inr acc \<Rightarrow> ginkgo_suites rest acc)))"

definition parseGinkgo :: "fileError + (string + ginkgoSuite list) \<Rightarrow> Stage \<Rightarrow> fileError option \<times> Stage" where
  "parseGinkgo file s =
     (case file of
        Inl e \<Rightarrow> (Some e, s)
      | Inr (Inl e) \<Rightarrow> (Some (FileError e), s)
      | Inr (Inr suites) \<Rightarrow>
          if suites = [] then (Some (FileError ''empty Ginkgo suite report''), s)
          else (case ginkgo_suites suites ((0, 0, 0, 0), []) of
                  Inl e \<Rightarrow> (Some (FileError e), s)
                | Inr (n, failures) \<Rightarrow> (None, fail_with failures (set_counts n ''ginkgo-specs'' s))))"

section \<open>Performance trials\<close>

record Trial =
  tr_ID :: string
  tr_Scenario :: string
  tr_Repeat :: int
  tr_Profiled :: bool
  tr_ServerPID :: int
  tr_ClientPID :: int
  tr_Requests :: int
  tr_Errors :: int
  tr_Incorrect :: int
  tr_Failure :: string

record perfSummary =
  pf_Status :: string
  pf_Seconds :: int
  pf_Repeats :: int
  pf_Workers :: int
  pf_ThinkMS :: int
  pf_SourceDelayMS :: int
  pf_ServerGOMAXPROCS :: int
  pf_Quick :: bool
  pf_Trials :: "Trial list"
  pf_Failure :: string
  pf_ServerSHA256 :: string

definition perfScenarios :: "string list" where
  "perfScenarios = [''warm-hot'', ''distinct-keys'', ''capacity-pressure'']"

definition trial_id :: "string \<Rightarrow> string \<Rightarrow> int \<Rightarrow> string" where
  "trial_id phase scenario repeat = phase @ ''-'' @ scenario @ ''-'' @ FormatInt repeat"

definition expected_trials :: "int \<Rightarrow> string list" where
  "expected_trials repeats =
     concat (map (\<lambda>scenario. map (trial_id ''baseline'' scenario) [1..min repeats 5] @ [''profile-'' @ scenario @ ''-1'']) perfScenarios)"

definition trial_bad :: "string list \<Rightarrow> string set \<Rightarrow> Trial \<Rightarrow> bool" where
  "trial_bad expected seen t \<longleftrightarrow>
     tr_ServerPID t \<le> 0 \<or> tr_ClientPID t \<le> 0 \<or> tr_ServerPID t = tr_ClientPID t \<or> tr_Requests t = 0 \<or> tr_Errors t \<noteq> 0 \<or>
     tr_Incorrect t \<noteq> 0 \<or> tr_Failure t \<noteq> [] \<or> tr_ID t \<in> seen \<or> tr_ID t \<notin> set expected \<or>
     trial_id (if tr_Profiled t then ''profile'' else ''baseline'') (tr_Scenario t) (tr_Repeat t) \<noteq> tr_ID t"

fun check_trials :: "string list \<Rightarrow> string set \<Rightarrow> Trial list \<Rightarrow> nat \<times> nat \<times> string list" where
  "check_trials expected seen [] = (0, 0, [])"
| "check_trials expected seen (t # ts) =
     (case check_trials expected (insert (tr_ID t) seen) ts of (passed, failed, failures) \<Rightarrow>
        if trial_bad expected seen t then (passed, failed + 1, (''performance trial failed: '' @ tr_ID t @ '' '' @ tr_Failure t) # failures)
        else (passed + 1, failed, failures))"

definition collectPerformance :: "fileError + (string + perfSummary) \<Rightarrow> Stage \<Rightarrow> perfSummary option \<times> Stage" where
  "collectPerformance file s =
     (case file of
        Inl e \<Rightarrow> (None, fail_with [''missing performance evidence: '' @ fileMessage e] s)
      | Inr (Inl e) \<Rightarrow> (None, fail_with [''invalid performance evidence: '' @ e] s)
      | Inr (Inr m) \<Rightarrow>
          (case check_trials (expected_trials (pf_Repeats m)) {} (pf_Trials m) of (passed, failed, failures) \<Rightarrow>
             (let s1 = fail_with failures s;
                  s2 = (if pf_Status m \<noteq> ''passed'' \<or> pf_Failure m \<noteq> [] \<or> int (length (pf_Trials m)) \<noteq> 3 * pf_Repeats m + 3 \<or>
                           pf_Repeats m < 1 \<or> \<not> pf_Quick m \<and> pf_Repeats m < 3
                        then fail_with [''incomplete or failed performance run: '' @ pf_Failure m] s1 else s1);
                  s3 = (if pf_Seconds m < 1 \<or> pf_Seconds m > 30 \<or> \<not> pf_Quick m \<and> pf_Seconds m < 10 \<or> pf_Workers m < 1 \<or> pf_Workers m > 32 \<or>
                           pf_Repeats m > 5 \<or> pf_SourceDelayMS m \<noteq> 100 \<or> pf_ServerGOMAXPROCS m \<noteq> 2 \<or> pf_ThinkMS m \<noteq> 1 \<or>
                           length (pf_ServerSHA256 m) \<noteq> 64
                        then fail_with [''invalid performance configuration metadata''] s2 else s2) in
              (Some m, set_counts (passed, failed, 0, 0) ''diagnostic-trials'' s3))))"

section \<open>The report\<close>

text \<open>
  What is found in the run directory. \<open>rd_environment\<close> tells whether a valid JSON document is an
  object with a non-null member \<open>environment\<close>; the last two are the outcomes of listing the
  directory and of writing the report.
\<close>

record runDirectory =
  rd_stages :: "fileError + string"
  rd_stat :: "string \<Rightarrow> fileError option"
  rd_events :: "string \<Rightarrow> eventFile"
  rd_ginkgo :: "fileError + (string + ginkgoSuite list)"
  rd_performance :: "fileError + (string + perfSummary)"
  rd_probe :: "fileError + bytes"
  rd_smoke :: "fileError + string"
  rd_environment :: "bytes \<Rightarrow> bool"
  rd_entries :: "fileError option"
  rd_write :: "fileError option"

definition new_stage :: "string \<Rightarrow> int \<Rightarrow> int \<Rightarrow> Stage" where
  "new_stage name exitCode seconds =
     \<lparr>sg_Name = name, sg_ExitCode = exitCode, sg_Seconds = seconds, sg_Passed = None, sg_Failed = None, sg_Skipped = None, sg_Pending = None,
      sg_CountSource = [], sg_Notes = [], sg_Failures = [], sg_Evidence = []\<rparr>"

definition stage_stream :: "runDirectory \<Rightarrow> Stage \<Rightarrow> Stage" where
  "stage_stream d s =
     (if sg_Name s \<in> {''engine-race'', ''engine-unit'', ''diagnostics''}
      then (case rd_stat d (sg_Name s @ ''.jsonl'') of
              Some e \<Rightarrow> fail_with [''missing test event stream: '' @ fileMessage e] s
            | None \<Rightarrow> s)
      else s)"

definition is_not_exist :: "fileError option \<Rightarrow> bool" where
  "is_not_exist e = (case e of Some (NotExist _) \<Rightarrow> True | _ \<Rightarrow> False)"

definition stage_tests :: "runDirectory \<Rightarrow> Stage \<Rightarrow> Stage" where
  "stage_tests d s =
     (if sg_Name s = ''operator-tests''
      then (case parseGinkgo (rd_ginkgo d) s of
              (None, s') \<Rightarrow> s'
            | (Some e, s') \<Rightarrow>
                if is_not_exist (Some e) \<and> is_not_exist (rd_stat d ''ginkgo-required'')
                then s'\<lparr>sg_Notes := sg_Notes s' @ [''Legacy run: Ginkgo spec counts were not collected; counts are N/A.'']\<rparr>
                else fail_with [''cannot collect Ginkgo evidence: '' @ fileMessage e] s')
      else (case parseEvents (sg_Name s @ ''.jsonl'') (rd_events d (sg_Name s)) s of
              (None, s') \<Rightarrow> s'
            | (Some e, s') \<Rightarrow> fail_with [''cannot parse test evidence: '' @ e] s'))"

definition smoke_evidence :: "runDirectory \<Rightarrow> bool \<Rightarrow> string \<Rightarrow> bytes list" where
  "smoke_evidence d hasProbe log =
     filter (\<lambda>payload. json_Valid payload \<and> \<not> (hasProbe \<and> rd_environment d payload))
       (map (\<lambda>line. TrimPrefix line ''EVIDENCE '') (filter (\<lambda>line. HasPrefix line ''EVIDENCE '') (Split (CHR 0x0A) log)))"

definition stage_smoke :: "runDirectory \<Rightarrow> Stage \<Rightarrow> Stage" where
  "stage_smoke d s =
     (if sg_Name s \<noteq> ''kind-smoke'' then s
      else
        (let (s1, hasProbe) =
               (case rd_probe d of
                  Inl _ \<Rightarrow> (fail_with [''missing continuity probe evidence''] s, False)
                | Inr data \<Rightarrow>
                    if \<not> json_Valid data then (fail_with [''invalid probe evidence''] s, False)
                    else (s\<lparr>sg_Evidence := sg_Evidence s @ [data]\<rparr>, True)) in
         case rd_smoke d of
           Inl _ \<Rightarrow> s1
         | Inr log \<Rightarrow> s1\<lparr>sg_Evidence := sg_Evidence s1 @ smoke_evidence d hasProbe log\<rparr>))"

definition stage_failed :: "Stage \<Rightarrow> bool" where
  "stage_failed s \<longleftrightarrow> sg_ExitCode s \<noteq> 0 \<or> (case sg_Failed s of None \<Rightarrow> False | Some n \<Rightarrow> n \<noteq> 0) \<or> sg_Failures s \<noteq> []"

record Report =
  rp_Passed :: bool
  rp_Stages :: "Stage list"
  rp_Performance :: "perfSummary option"

definition add_stage :: "runDirectory \<Rightarrow> Stage \<Rightarrow> Report \<Rightarrow> Report" where
  "add_stage d s r =
     (let s1 = stage_tests d (stage_stream d s);
          (perf, s2) = (if sg_Name s1 = ''performance'' then collectPerformance (rd_performance d) s1 else (rp_Performance r, s1));
          s3 = stage_smoke d s2 in
      \<lparr>rp_Passed = (rp_Passed r \<and> \<not> stage_failed s3), rp_Stages = rp_Stages r @ [s3], rp_Performance = perf\<rparr>)"

fun add_lines :: "runDirectory \<Rightarrow> string list \<Rightarrow> Report \<Rightarrow> Report \<times> string option" where
  "add_lines d [] r = (r, None)"
| "add_lines d (line # rest) r =
     (case Split (CHR 0x09) line of
        [name, exit, took] \<Rightarrow>
          (case Atoi exit of
             None \<Rightarrow> (r, Some ''strconv.Atoi: invalid syntax'')
           | Some exitCode \<Rightarrow>
               (case Atoi took of
                  None \<Rightarrow> (r, Some ''strconv.Atoi: invalid syntax'')
                | Some seconds \<Rightarrow> add_lines d rest (add_stage d (new_stage name exitCode seconds) r)))
      | _ \<Rightarrow> (r, Some (''invalid stage metadata '' @ line)))"

definition Generate :: "runDirectory \<Rightarrow> Report \<times> string option" where
  "Generate d =
     (let r = \<lparr>rp_Passed = True, rp_Stages = [], rp_Performance = None\<rparr> in
      case rd_stages d of
        Inl e \<Rightarrow> (r, Some (fileMessage e))
      | Inr b \<Rightarrow>
          (case add_lines d (Split (CHR 0x0A) (TrimSpace b)) r of
             (r', Some e) \<Rightarrow> (r', Some e)
           | (r', None) \<Rightarrow>
               (case rd_entries d of
                  Some e \<Rightarrow> (r', Some (fileMessage e))
                | None \<Rightarrow> (r', map_option fileMessage (rd_write d)))))"

section \<open>Failures are never lost\<close>

definition extends :: "Stage \<Rightarrow> Stage \<Rightarrow> bool" where
  "extends s s' \<longleftrightarrow> sg_Name s' = sg_Name s \<and> sg_ExitCode s' = sg_ExitCode s \<and> (\<exists>fs. sg_Failures s' = sg_Failures s @ fs)"

lemma extends_refl [simp]: "extends s s"
  by (simp add: extends_def)

lemma extends_trans: "extends s s' \<Longrightarrow> extends s' s'' \<Longrightarrow> extends s s''"
  by (auto simp: extends_def)

lemma extends_fail_with [simp]: "extends s (fail_with fs s)"
  by (simp add: extends_def fail_with_def)

lemma extends_set_counts [simp]: "extends s (set_counts n source s')  \<longleftrightarrow> extends s s'"
  by (simp add: extends_def set_counts_def split: prod.split)

lemma extends_evidence [simp]: "extends s (s'\<lparr>sg_Evidence := e\<rparr>) \<longleftrightarrow> extends s s'" "extends s (s'\<lparr>sg_Notes := e\<rparr>) \<longleftrightarrow> extends s s'"
  by (simp_all add: extends_def)

lemma extends_empty: "extends s s' \<Longrightarrow> sg_Failures s' = [] \<Longrightarrow> sg_Failures s = []"
  by (auto simp: extends_def)

lemma extends_scan_events: "extends s (snd (scan_events path scanErr events n s))"
proof (induction events arbitrary: n s)
  case Nil
  then show ?case by (simp split: option.split)
next
  case (Cons x rest)
  have s1: "extends s (fail_with (event_failures e) s)" "extends s ((fail_with (event_failures e) s)\<lparr>sg_Evidence := ev\<rparr>)" for e ev by simp_all
  show ?case
  proof (cases x)
    case (Inr e)
    have "extends s (snd (scan_events path scanErr rest m (fail_with (event_failures e) s)))"
      "extends s (snd (scan_events path scanErr rest m ((fail_with (event_failures e) s)\<lparr>sg_Evidence := ev\<rparr>)))" for m ev
      by (rule extends_trans [OF s1(1) Cons.IH], rule extends_trans [OF s1(2) Cons.IH])
    then show ?thesis unfolding Inr scan_events.simps Let_def by (simp split: option.split)
  qed simp
qed

lemma extends_parseEvents: "extends s (snd (parseEvents path file s))"
  using extends_scan_events by (auto simp: parseEvents_def split: sum.split fileError.split)

lemma extends_parseGinkgo: "extends s (snd (parseGinkgo file s))"
proof -
  have "extends s (fail_with fs (set_counts n source s))" for fs n source
    using extends_trans [OF _ extends_fail_with, of s "set_counts n source s"] by simp
  then show ?thesis by (auto simp: parseGinkgo_def split: sum.split)
qed

lemma extends_stage_stream: "extends s (stage_stream d s)"
  by (simp add: stage_stream_def split: option.split)

lemma extends_stage_tests: "extends s (stage_tests d s)"
proof (cases "sg_Name s = ''operator-tests''")
  case True
  obtain e s' where g: "parseGinkgo (rd_ginkgo d) s = (e, s')" by fastforce
  then have "extends s s'" using extends_parseGinkgo [of s "rd_ginkgo d"] by simp
  then show ?thesis using True g extends_trans [OF _ extends_fail_with] by (auto simp: stage_tests_def split: option.split)
next
  case False
  obtain e s' where g: "parseEvents (sg_Name s @ ''.jsonl'') (rd_events d (sg_Name s)) s = (e, s')" by fastforce
  then have "extends s s'" using extends_parseEvents [of s "sg_Name s @ ''.jsonl''" "rd_events d (sg_Name s)"] by simp
  then show ?thesis using False g extends_trans [OF _ extends_fail_with] by (auto simp: stage_tests_def split: option.split)
qed

lemma extends_stage_smoke: "extends s (stage_smoke d s)"
  by (auto simp: stage_smoke_def Let_def split: sum.split)

lemma stage_smoke_probe:
  assumes "sg_Name s = ''kind-smoke''" "sg_Failures (stage_smoke d s) = []"
  shows "\<exists>data. rd_probe d = Inr data \<and> json_Valid data"
  using assms by (cases "rd_probe d"; cases "rd_smoke d") (auto simp: stage_smoke_def fail_with_def split: if_splits)

section \<open>A passed performance run is complete\<close>

definition trial_clean :: "Trial \<Rightarrow> bool" where
  "trial_clean t \<longleftrightarrow> tr_Requests t \<noteq> 0 \<and> tr_Errors t = 0 \<and> tr_Incorrect t = 0 \<and> tr_Failure t = [] \<and> tr_ServerPID t \<noteq> tr_ClientPID t"

lemma check_trials_clean:
  assumes "check_trials expected seen ts = (passed, failed, [])"
  shows "failed = 0 \<and> distinct (map tr_ID ts) \<and> tr_ID ` set ts \<inter> seen = {} \<and> tr_ID ` set ts \<subseteq> set expected \<and> list_all trial_clean ts"
  using assms
proof (induction ts arbitrary: seen passed failed)
  case (Cons t ts)
  obtain p f fs where rest: "check_trials expected (insert (tr_ID t) seen) ts = (p, f, fs)" by (cases "check_trials expected (insert (tr_ID t) seen) ts")
  have ok: "\<not> trial_bad expected seen t" and fs: "fs = []" and f: "failed = f" using Cons.prems rest by (auto split: if_splits)
  have "tr_ID t \<notin> seen" "tr_ID t \<in> set expected" "trial_clean t" using ok by (auto simp: trial_bad_def trial_clean_def)
  with Cons.IH [OF rest [unfolded fs]] f show ?case by auto
qed simp

lemma expected_trials_length: "0 \<le> repeats \<Longrightarrow> repeats \<le> 5 \<Longrightarrow> int (length (expected_trials repeats)) = 3 * repeats + 3"
  by (simp add: expected_trials_def perfScenarios_def)

lemma collectPerformance_extends: "extends s (snd (collectPerformance file s))"
proof -
  have step: "extends s (if b then fail_with fs t else t)" if "extends s t" for b fs t
    using that extends_trans [OF that extends_fail_with] by simp
  consider (none) e where "file = Inl e" | (bad) e where "file = Inr (Inl e)" | (doc) m where "file = Inr (Inr m)" by (metis sum.exhaust)
  then show ?thesis
  proof cases
    case (doc m)
    obtain p f fs where check: "check_trials (expected_trials (pf_Repeats m)) {} (pf_Trials m) = (p, f, fs)" using prod_cases3 by blast
    show ?thesis unfolding collectPerformance_def doc sum.case check prod.case Let_def snd_conv extends_set_counts by (intro step extends_fail_with)
  qed (simp_all add: collectPerformance_def)
qed

text \<open>A run that adds no failure has every expected trial, each exactly once and clean.\<close>

definition performance_complete :: "perfSummary \<Rightarrow> bool" where
  "performance_complete m \<longleftrightarrow>
     1 \<le> pf_Repeats m \<and> distinct (map tr_ID (pf_Trials m)) \<and> set (map tr_ID (pf_Trials m)) = set (expected_trials (pf_Repeats m)) \<and>
     list_all trial_clean (pf_Trials m)"

lemma collectPerformance_complete:
  assumes "sg_Failures (snd (collectPerformance file s)) = []"
  shows "\<exists>m. file = Inr (Inr m) \<and> performance_complete m"
proof -
  consider (none) e where "file = Inl e" | (bad) e where "file = Inr (Inl e)" | (doc) m where "file = Inr (Inr m)" by (metis sum.exhaust)
  then show ?thesis
  proof cases
    case (doc m)
    let ?ids = "map tr_ID (pf_Trials m)" and ?expected = "expected_trials (pf_Repeats m)"
    obtain p f fs where check: "check_trials ?expected {} (pf_Trials m) = (p, f, fs)" using prod_cases3 by blast
    have facts: "fs = []" "int (length (pf_Trials m)) = 3 * pf_Repeats m + 3" "1 \<le> pf_Repeats m" "pf_Repeats m \<le> 5"
      using assms unfolding collectPerformance_def doc sum.case check prod.case Let_def snd_conv
      by (auto simp: set_counts_def fail_with_def not_less split: if_splits)
    note clean = check_trials_clean [OF check [unfolded facts(1)]]
    have "length ?ids = length ?expected" using facts expected_trials_length [of "pf_Repeats m"] by simp
    then have "card (set ?expected) \<le> card (set ?ids)" using clean card_length [of ?expected] distinct_card [of ?ids] by simp
    then have "set ?ids = set ?expected" using clean by (intro card_seteq) auto
    then show ?thesis using doc clean facts(3) by (simp add: performance_complete_def)
  qed (use assms in \<open>simp_all add: collectPerformance_def fail_with_def\<close>)
qed

section \<open>The verdict\<close>

definition finish_stage :: "runDirectory \<Rightarrow> Stage \<Rightarrow> Stage" where
  "finish_stage d s =
     (let s1 = stage_tests d (stage_stream d s)
      in stage_smoke d (if sg_Name s1 = ''performance'' then snd (collectPerformance (rd_performance d) s1) else s1))"

lemma add_stage_finish:
  "rp_Stages (add_stage d s r) = rp_Stages r @ [finish_stage d s]"
  "rp_Passed (add_stage d s r) \<longleftrightarrow> rp_Passed r \<and> \<not> stage_failed (finish_stage d s)"
  by (simp_all add: add_stage_def finish_stage_def Let_def split: prod.split)

lemma new_stage_failures: "sg_Failures (new_stage name exitCode seconds) = []"
  by (simp add: new_stage_def)

lemma add_lines_finish:
  "add_lines d lines r = (r', None) \<Longrightarrow>
   \<exists>ss. length ss = length lines \<and> (\<forall>s\<in>set ss. sg_Failures s = []) \<and> rp_Stages r' = rp_Stages r @ map (finish_stage d) ss \<and>
     (rp_Passed r' \<longleftrightarrow> rp_Passed r \<and> (\<forall>s\<in>set ss. \<not> stage_failed (finish_stage d s)))"
proof (induction lines arbitrary: r)
  case (Cons line lines)
  from Cons.prems obtain name exitCode seconds where "add_lines d lines (add_stage d (new_stage name exitCode seconds) r) = (r', None)"
    by (auto split: list.splits option.splits)
  then obtain s where s: "sg_Failures s = []" "add_lines d lines (add_stage d s r) = (r', None)" by (meson new_stage_failures)
  from Cons.IH [OF s(2)] obtain ss where "length ss = length lines" "\<forall>s\<in>set ss. sg_Failures s = []"
    "rp_Stages r' = rp_Stages (add_stage d s r) @ map (finish_stage d) ss"
    "rp_Passed r' \<longleftrightarrow> rp_Passed (add_stage d s r) \<and> (\<forall>s\<in>set ss. \<not> stage_failed (finish_stage d s))" by blast
  with s(1) show ?case by (intro exI [of _ "s # ss"]) (auto simp: add_stage_finish)
qed simp

lemma finish_stage_clean:
  assumes "sg_Failures (finish_stage d s) = []"
  shows "sg_Name (finish_stage d s) = ''performance'' \<Longrightarrow> \<exists>m. rd_performance d = Inr (Inr m) \<and> performance_complete m"
    "sg_Name (finish_stage d s) = ''kind-smoke'' \<Longrightarrow> \<exists>data. rd_probe d = Inr data \<and> json_Valid data"
    "sg_Name (finish_stage d s) \<in> {''engine-race'', ''engine-unit'', ''diagnostics''} \<Longrightarrow> rd_stat d (sg_Name (finish_stage d s) @ ''.jsonl'') = None"
proof -
  define s1 where "s1 = stage_tests d (stage_stream d s)"
  define s2 where "s2 = (if sg_Name s1 = ''performance'' then snd (collectPerformance (rd_performance d) s1) else s1)"
  have fin: "finish_stage d s = stage_smoke d s2" by (simp add: finish_stage_def s1_def s2_def Let_def)
  have e2: "extends s2 (finish_stage d s)" unfolding fin by (rule extends_stage_smoke)
  have e1: "extends s1 s2" using collectPerformance_extends by (simp add: s2_def)
  have e0: "extends (stage_stream d s) s1" unfolding s1_def by (rule extends_stage_tests)
  have names: "sg_Name (finish_stage d s) = sg_Name s2" "sg_Name s2 = sg_Name s1" "sg_Name s1 = sg_Name s"
    using e2 e1 e0 extends_stage_stream [of s d] by (simp_all add: extends_def)
  have f2: "sg_Failures s2 = []" using extends_empty [OF e2 assms] .
  have f0: "sg_Failures (stage_stream d s) = []" using extends_empty [OF extends_trans [OF e0 e1] f2] .
  show "\<exists>m. rd_performance d = Inr (Inr m) \<and> performance_complete m" if "sg_Name (finish_stage d s) = ''performance''"
    using collectPerformance_complete [of "rd_performance d" s1] f2 that names by (simp add: s2_def)
  show "\<exists>data. rd_probe d = Inr data \<and> json_Valid data" if "sg_Name (finish_stage d s) = ''kind-smoke''"
    using stage_smoke_probe [of s2 d] assms that names by (simp add: fin)
  show "rd_stat d (sg_Name (finish_stage d s) @ ''.jsonl'') = None" if "sg_Name (finish_stage d s) \<in> {''engine-race'', ''engine-unit'', ''diagnostics''}"
    using f0 that names by (simp add: stage_stream_def fail_with_def split: option.splits)
qed

text \<open>
  C40: a validation report that passes has its evidence. If the report is written and says passed, it
  has at least one stage, every stage ended with exit code zero, recorded no failure and counted no failed test; the
  test stream of an engine stage was there; a smoke stage has a valid probe document; and a performance stage
  rests on a run in which every expected trial occurs exactly once, with requests, without errors or
  wrong values, by a client separate from the server.
\<close>

theorem report_passes_with_evidence:
  assumes "Generate d = (r, None)" "rp_Passed r"
  shows "rp_Stages r \<noteq> [] \<and>
    (\<forall>s\<in>set (rp_Stages r). sg_ExitCode s = 0 \<and> sg_Failures s = [] \<and> sg_Failed s \<in> {None, Some 0} \<and>
      (sg_Name s \<in> {''engine-race'', ''engine-unit'', ''diagnostics''} \<longrightarrow> rd_stat d (sg_Name s @ ''.jsonl'') = None) \<and>
      (sg_Name s = ''kind-smoke'' \<longrightarrow> (\<exists>data. rd_probe d = Inr data \<and> json_Valid data)) \<and>
      (sg_Name s = ''performance'' \<longrightarrow> (\<exists>m. rd_performance d = Inr (Inr m) \<and> performance_complete m)))"
proof -
  obtain b where b: "add_lines d (Split (CHR 0x0A) (TrimSpace b)) \<lparr>rp_Passed = True, rp_Stages = [], rp_Performance = None\<rparr> = (r, None)"
    using assms(1) by (auto simp: Generate_def Let_def split: sum.splits prod.splits option.splits)
  from add_lines_finish [OF b] assms(2) obtain ss where ss: "length ss = length (Split (CHR 0x0A) (TrimSpace b))"
    "rp_Stages r = map (finish_stage d) ss" "\<forall>s\<in>set ss. \<not> stage_failed (finish_stage d s)" by auto
  have some: "rp_Stages r \<noteq> []" using ss Split_nonempty by auto
  have clean: "sg_ExitCode (finish_stage d s) = 0" "sg_Failures (finish_stage d s) = []" "sg_Failed (finish_stage d s) \<in> {None, Some 0}" if "s \<in> set ss" for s
    using bspec [OF ss(3) that] by (cases "sg_Failed (finish_stage d s)"; simp add: stage_failed_def)+
  show ?thesis
  proof (intro conjI some ballI)
    fix s assume "s \<in> set (rp_Stages r)"
    then obtain s' where s': "s' \<in> set ss" "s = finish_stage d s'" using ss(2) by auto
    note f = clean [OF s'(1)] and g = finish_stage_clean [of d s', OF clean(2) [OF s'(1)]]
    show "sg_ExitCode s = 0" "sg_Failures s = []" "sg_Failed s \<in> {None, Some 0}" unfolding s'(2) by (rule f)+
    show "sg_Name s \<in> {''engine-race'', ''engine-unit'', ''diagnostics''} \<longrightarrow> rd_stat d (sg_Name s @ ''.jsonl'') = None"
      "sg_Name s = ''kind-smoke'' \<longrightarrow> (\<exists>data. rd_probe d = Inr data \<and> json_Valid data)"
      "sg_Name s = ''performance'' \<longrightarrow> (\<exists>m. rd_performance d = Inr (Inr m) \<and> performance_complete m)"
      unfolding s'(2) using g by blast+
  qed
qed

text \<open>A quick run: one stage, six trials.\<close>

definition sample_trial :: "bool \<Rightarrow> string \<Rightarrow> Trial" where
  "sample_trial profiled scenario =
     \<lparr>tr_ID = (if profiled then ''profile-'' else ''baseline-'') @ scenario @ ''-1'', tr_Scenario = scenario, tr_Repeat = 1, tr_Profiled = profiled,
      tr_ServerPID = 10, tr_ClientPID = 11, tr_Requests = 5, tr_Errors = 0, tr_Incorrect = 0, tr_Failure = []\<rparr>"

definition sample_run :: runDirectory where
  "sample_run =
     \<lparr>rd_stages = Inr (''performance'' @ CHR 0x09 # ''0'' @ CHR 0x09 # ''9''), rd_stat = (\<lambda>_. Some (NotExist [])),
      rd_events = (\<lambda>_. Inl (NotExist [])), rd_ginkgo = Inl (NotExist []),
      rd_performance = Inr (Inr \<lparr>pf_Status = ''passed'', pf_Seconds = 1, pf_Repeats = 1, pf_Workers = 1, pf_ThinkMS = 1, pf_SourceDelayMS = 100,
        pf_ServerGOMAXPROCS = 2, pf_Quick = True, pf_Trials = map (sample_trial False) perfScenarios @ map (sample_trial True) perfScenarios,
        pf_Failure = [], pf_ServerSHA256 = replicate 64 (CHR ''0'')\<rparr>),
      rd_probe = Inl (NotExist []), rd_smoke = Inl (NotExist []), rd_environment = (\<lambda>_. False), rd_entries = None, rd_write = None\<rparr>"

lemma sample_run_stage:
  "rp_Passed (add_stage sample_run (new_stage ''performance'' 0 9) \<lparr>rp_Passed = True, rp_Stages = [], rp_Performance = None\<rparr>)"
  by code_simp

lemma sample_run_generate:
  "Generate sample_run = (add_stage sample_run (new_stage ''performance'' 0 9) \<lparr>rp_Passed = True, rp_Stages = [], rp_Performance = None\<rparr>, None)"
proof -
  let ?b = "''performance'' @ CHR 0x09 # ''0'' @ CHR 0x09 # ''9''"
  have "TrimSpace ?b = ?b"
    by (rule TrimSpace_id) (simp_all add: spaces_def byteString_def eq_commute [of "CHR ''p''"] eq_commute [of "CHR ''9''"] char_of_eq_iff take_bit_eq_mod)
  moreover have "Split (CHR 0x0A) ?b = [?b]" "Split (CHR 0x09) ?b = [''performance'', ''0'', ''9'']" by simp_all
  moreover have "Atoi ''0'' = Some 0" "Atoi ''9'' = Some 9" by (simp_all add: Atoi_def ParseInt_def isDigit_def digitsVal_def digitVal_def)
  ultimately show ?thesis by (simp add: Generate_def sample_run_def [THEN arg_cong, of rd_stages] sample_run_def [THEN arg_cong, of rd_entries] sample_run_def [THEN arg_cong, of rd_write])
qed

theorem report_passes_with_evidence_witness: "\<exists>m. rd_performance sample_run = Inr (Inr m) \<and> performance_complete m"
proof -
  let ?r = "add_stage sample_run (new_stage ''performance'' 0 9) \<lparr>rp_Passed = True, rp_Stages = [], rp_Performance = None\<rparr>"
  have "map sg_Name (rp_Stages ?r) = [''performance'']" by code_simp
  then obtain s where "s \<in> set (rp_Stages ?r)" "sg_Name s = ''performance''" by (cases "rp_Stages ?r") auto
  with report_passes_with_evidence [OF sample_run_generate sample_run_stage] show ?thesis by blast
qed

end
