(* ===== verification/Spec2Isabelle.thy ===== *)
theory Spec2Isabelle
  imports Coherence Relay Operator Bench_Arrival Validation_Report
begin

text \<open>
  A verification library for SimpleCache: a read cache for product data in Go (\<open>src/geecache-engine\<close>) and
  the Kubernetes operator that runs it (\<open>src/simplecache-operator\<close>).

  \<^bold>\<open>The program.\<close> Every node keeps a byte-bounded LRU with expiry in front of a versioned source. A read
  that misses passes an admission limiter and a Bloom filter and joins a load shared by all
  callers of the same key and fence. A write goes to PostgreSQL under a version precondition; the same
  transaction inserts a notification into an outbox table. The writing node announces the
  version to all members of its directory at once, and a relay on every node claims undelivered
  notifications under a lease and announces them again until every known member acknowledged. A
  member that learns of a version removes older values and refuses them from then on. The directory
  comes from the configuration or from the EndpointSlices of a headless Service. The operator
  turns a custom resource into the objects of such a cluster, and an open-loop load generator and a
  report over validation runs belong to its tool box.

  \<^bold>\<open>Modelling.\<close> Structs are records, enumerations datatypes, and every function of the source is one HOL
  function with explicit state passing, on every branch, errors included. Go strings and byte slices are lists of
  bytes; errors are values of \<^typ>\<open>goerror\<close>; panics are a sum or option result; instants and durations are
  integers of nanoseconds, and every reading of the clock is an argument. Epochs, hashes and bit sets are
  machine words. A function that blocks is cut where it blocks; goroutines are interleaved as step
  relations or appear as arbitrary changes between the steps of another. Loops are structural recursion or
  have a termination proof; three that may run for ever (\<open>evict_loop\<close>, \<open>purge_loop\<close>, \<open>Run_loop\<close>) are partial
  functions into \<^typ>\<open>'a option\<close>, with theorems that they return. No model uses fuel. Code
  that is not part of the repository is an argument of the definitions that use it: the getter behind a group,
  the outcome of a database round trip, the network between members, the Kubernetes client, the informer, the name checks
  and quantities of apimachinery. What is assumed of it is a named predicate (\<open>driver_ok\<close>,
  \<open>reading_ok\<close>, \<open>kubelet_laws\<close>, \<open>dns_laws\<close>, \<open>quantity_laws\<close>, \<open>client_laws\<close>) that a witness satisfies.

  \<^bold>\<open>Go.\<close> \<open>Go_Prelude\<close> (time, errors, contexts, shared lemmas), \<open>Go_List\<close> (\<open>container/list\<close> and its use with an
  index), \<open>Go_Text\<close> (UTF-8, \<open>strings\<close>, \<open>strconv\<close>), \<open>Go_Net\<close> (\<open>net/url\<close>, \<open>net/http\<close>), \<open>Go_IP\<close> (\<open>net\<close>),
  \<open>Go_JSON\<close> (\<open>json.Valid\<close>): what the program uses of the standard library, with the round trips the
  components rest on.

  \<^bold>\<open>One cache node\<close> (\<open>internal/cache\<close>). \<open>LRU\<close> (\<open>lru/lru.go\<close>): every operation refines a reference on
  item sequences (\<open>AddUntil_refines\<close>, \<open>Get_refines\<close>, \<open>PruneExpired_exact\<close>), and every run returns and keeps list, index,
  byte count, cursor and capacity (\<open>lru_run_safe\<close>). \<open>Cache_Errors\<close> (\<open>errors.go\<close>). \<open>Cache_Store\<close> (\<open>cache.go\<close>): the
  locked cache and its maintenance; what it returns was put there and is not expired. Both stores promise the
  locale \<open>lossy_store\<close> of \<open>Store_Interface\<close>, which proves provenance once. \<open>Admission\<close>
  (\<open>admission.go\<close>): bounds under every interleaving. \<open>Bloom\<close> (\<open>bloomfilter.go\<close>): no false negatives on 64-bit words.
  \<open>Versions\<close> (\<open>group.go\<close>, \<open>versions.go\<close>): construction, version floors and epochs, and the effect of an invalidation. \<open>Group_Read\<close>
  (\<open>read.go\<close>, \<open>load.go\<close>): lookup, flights as a step function, commit; loads end and those an invalidation overtook store
  nothing. \<open>Coherence\<close> puts any number of callers, flights and invalidations together: a \<open>Get\<close> never
  returns a version older than one announced before it (\<open>get_not_stale\<close>), and nothing brings one back
  (\<open>no_stale_resurrection\<close>).

  \<^bold>\<open>The source\<close> (\<open>internal/source/postgres\<close>, \<open>internal/outbox\<close>). \<open>Product_Store\<close> and \<open>Outbox_Store\<close> model each
  SQL statement on a database record; \<open>Store_Run\<close> shows for all runs that conditional writes compare and set, that
  every committed version is announced exactly once and in order, and that a reclaimed lease cannot be completed by its old
  holder. \<open>Outbox_Worker\<close> (\<open>worker.go\<close>) proves the relay against the locales \<open>outbox_queue\<close> and
  \<open>outbox_worker\<close>, interpreted on the PostgreSQL queue: it loses nothing, delivers, backs off within
  bounds, and returns when its context ends.

  \<^bold>\<open>The cluster\<close> (\<open>internal/cluster\<close>, \<open>internal/discovery\<close>). \<open>Cluster\<close> has the directory, the fan-out, its client and
  the handler; \<open>Delivery\<close> composes client and handler over an arbitrary network: a report that says complete
  was applied everywhere. \<open>Discovery\<close>: the watcher converges to the members of the current slices.

  \<^bold>\<open>The server\<close> (\<open>internal/app\<close>, \<open>internal/demo\<close>). \<open>App_Mutation\<close> and \<open>App_API\<close>: the write path, through the locale
  \<open>mutation_path\<close> interpreted on the store, and the HTTP routes: answers tell the truth about the source, guards
  hold, concurrency is bounded, keys and preconditions have one spelling. \<open>App_Config\<close>, \<open>App_Bootstrap\<close>,
  \<open>Demo\<close>: a validated configuration starts. \<open>Relay\<close> is the worker as the server assembles it, on the PostgreSQL queue
  and the directory; \<open>relay_reaches_members\<close> below is the path from a committed version to the caches.

  \<^bold>\<open>The operator\<close> (\<open>api/v1\<close>, \<open>internal/controller\<close>). \<open>Operator_Spec\<close>: custom resource, defaults, validation,
  desired objects, and merges that are idempotent and keep foreign containers. \<open>Operator_Env\<close>: the server
  accepts the environment of every container the operator asks for. \<open>Operator\<close>: the reconciler over an arbitrary
  client; it touches only what it controls, its drift correction reaches a fixed point, a Backend accepted as it is has
  exactly the wanted addresses, and scaling down removes exactly the surplus shard Services.

  \<^bold>\<open>Tools.\<close> \<open>Bench_Arrival\<close> (\<open>internal/bench/gateway/arrival.go\<close>, \<open>internal/bench/measurement\<close>): the plan and its schedule, the
  bound on bursts, complete accounting. \<open>Validation_Report\<close> (\<open>internal/validation/report\<close>): a report that passes has its
  evidence.

  \<^bold>\<open>Bounds.\<close> Quantities Go keeps in 64 bits are integers where the code bounds them well below (sizes,
  time to live, counters); versions carry the bigint overflow of the database, epochs wrap as words, parsed
  numbers are range-checked. Floating-point results (the size of the Bloom filter, percentile ranks) are arguments.

  \<^bold>\<open>Not modelled.\<close> The closed-loop workloads and the separate-process diagnostics (\<open>internal/bench\<close> but for the arrival
  experiment), the demo client and the continuity probe: they measure, with sleeping goroutines, processes, profiles,
  SHA-256 payloads and JSON encoding. \<open>internal/telemetry\<close> and \<open>debug.go\<close> register Prometheus and pprof handlers; the
  observer calls behind the metrics are event lists of the model. \<open>cmd\<close> and the operator's \<open>main.go\<close> parse flags around
  the modelled entry points; deep copies are generated; rendering of reports, logging, profiling rates and idle-connection settings
  are left out; scripts, manifests and the Python tooling act from outside. The memory of Go's runtime and data races
  below the locks are outside the model: a critical section is one step.
\<close>

section \<open>From the database to the members\<close>


definition sampleReading :: clusterReading where
  "sampleReading = \<lparr>cr_router = joinedDirectory, cr_group = sampleGroup, cr_nodes = sampleNodes, cr_ready = True,
     cr_fate = (\<lambda>_. Delivered), cr_order = [0], cr_clock = (\<lambda>_. 0)\<rparr>"

definition sampleEnv :: "nat \<Rightarrow> pgReading" where
  "sampleEnv n = \<lparr>rd_others = [], rd_out = Replied, rd_at = (\<lambda>_. 1), rd_setAt = 1, rd_locked = [], rd_bytes = 0\<rparr>"

lemma sampleReading_ok: "reading_ok sampleReading"
  using joined_inv sampleGroup_inv sample_nodes_inv by (simp add: reading_ok_def sampleReading_def joined_others lessThan_Suc)


end
